(* ===== verification/Prelude.thy ===== *)
theory Prelude
  imports Main "HOL-Library.Word" "HOL-Library.Finite_Map" "HOL-Library.Monad_Syntax"
begin

text \<open>
  The base of the development: machine integers of the widths the node uses, the byte
  encodings of \<^verbatim>\<open>u64\<close>, \<^verbatim>\<open>u128\<close> and the 32- and 64-byte
  structs, readers over byte lists (\<^verbatim>\<open>std::io::Read::read_exact\<close> and the
  \<^verbatim>\<open>DeserializationError\<close> of \<^verbatim>\<open>types/src/lib.rs\<close>), and the
  two codec interfaces every serialized type of the node is an instance of.

  A Rust \<^verbatim>\<open>Result\<close> is a sum with the error on the left; a panic
  (\<^verbatim>\<open>unwrap\<close>, \<^verbatim>\<open>expect\<close>) is the value \<open>None\<close>.
\<close>

unbundle bit_operations_syntax

named_theorems codec_defs \<open>encoders and decoders, unfolded in codec instances\<close>
named_theorems table_simps \<open>lookups after an update of a table\<close>

declare fmfilter_cong [cong del]

section \<open>Machine integers\<close>

type_synonym u8 = "8 word"
type_synonym u16 = "16 word"
type_synonym u32 = "32 word"
type_synonym u64 = "64 word"
type_synonym u128 = "128 word"
type_synonym u256 = "256 word"
type_synonym u512 = "512 word"
type_synonym bytes = "u8 list"

lemma unat_lt2p: "unat (w :: 'a::len word) < 2 ^ LENGTH('a)"
  by (fact unsigned_less)

lemma unat_max_word: "unat (- 1 :: 'a::len word) = 2 ^ LENGTH('a) - 1"
  by (simp add: unsigned_minus_1_eq_mask mask_eq_exp_minus_1)

lemma unat_add_no_overflow:
  fixes x y :: "'a::len word"
  assumes "unat x + unat y < 2 ^ LENGTH('a)"
  shows "unat (x + y) = unat x + unat y"
  using assms by (simp add: unat_word_ariths)

lemma unat_sub_le:
  fixes x y :: "'a::len word"
  assumes "y \<le> x"
  shows "unat (x - y) = unat x - unat y"
  using assms by (rule unat_sub)

section \<open>Byte encodings\<close>

text \<open>
  \<^verbatim>\<open>to_le_bytes\<close> and \<^verbatim>\<open>to_be_bytes\<close> of an integer of
  \<open>n\<close> bytes, and their inverses.
\<close>

fun to_le_bytes :: "nat \<Rightarrow> 'a::len word \<Rightarrow> bytes" where
  "to_le_bytes 0 w = []"
| "to_le_bytes (Suc n) w = ucast w # to_le_bytes n (drop_bit 8 w)"

fun from_le_bytes :: "bytes \<Rightarrow> 'a::len word" where
  "from_le_bytes [] = 0"
| "from_le_bytes (b # bs) = ucast b OR push_bit 8 (from_le_bytes bs)"

definition to_be_bytes :: "nat \<Rightarrow> 'a::len word \<Rightarrow> bytes" where
  "to_be_bytes n w = rev (to_le_bytes n w)"

definition from_be_bytes :: "bytes \<Rightarrow> 'a::len word" where
  "from_be_bytes bs = from_le_bytes (rev bs)"

text \<open>The byte order of the machine, for \<^verbatim>\<open>to_ne_bytes\<close>.\<close>

datatype endian = Little | Big

definition to_ne_bytes :: "endian \<Rightarrow> nat \<Rightarrow> 'a::len word \<Rightarrow> bytes" where
  "to_ne_bytes e n w = (case e of Little \<Rightarrow> to_le_bytes n w | Big \<Rightarrow> to_be_bytes n w)"

definition from_ne_bytes :: "endian \<Rightarrow> bytes \<Rightarrow> 'a::len word" where
  "from_ne_bytes e bs = (case e of Little \<Rightarrow> from_le_bytes bs | Big \<Rightarrow> from_be_bytes bs)"

lemma length_to_le_bytes [simp]: "length (to_le_bytes n w) = n"
  by (induction n arbitrary: w) auto

lemma length_to_be_bytes [simp]: "length (to_be_bytes n w) = n"
  by (simp add: to_be_bytes_def)

lemma length_to_ne_bytes [simp]: "length (to_ne_bytes e n w) = n"
  by (cases e) (simp_all add: to_ne_bytes_def)

lemma from_to_le_bytes_take:
  "from_le_bytes (to_le_bytes n w) = take_bit (8 * n) (w :: 'a::len word)"
proof (induction n arbitrary: w)
  case 0
  then show ?case by simp
next
  case (Suc n)
  show ?case
  proof (rule bit_eqI)
    fix i assume "possible_bit TYPE('a word) i"
    then have i: "i < LENGTH('a)" by simp
    show "bit (from_le_bytes (to_le_bytes (Suc n) w) :: 'a word) i
        = bit (take_bit (8 * Suc n) w) i"
      using i
      by (auto simp: Suc.IH bit_or_iff bit_push_bit_iff bit_take_bit_iff bit_drop_bit_eq
          bit_ucast_iff not_less)
  qed
qed

lemma from_to_le_bytes [simp]:
  fixes w :: "'a::len word"
  assumes "8 * n = LENGTH('a)"
  shows "from_le_bytes (to_le_bytes n w) = w"
  using assms by (simp add: from_to_le_bytes_take)

lemma from_to_be_bytes [simp]:
  fixes w :: "'a::len word"
  assumes "8 * n = LENGTH('a)"
  shows "from_be_bytes (to_be_bytes n w) = w"
  using assms by (simp add: from_be_bytes_def to_be_bytes_def)

lemma from_to_ne_bytes [simp]:
  fixes w :: "'a::len word"
  assumes "8 * n = LENGTH('a)"
  shows "from_ne_bytes e (to_ne_bytes e n w) = w"
  using assms by (cases e) (simp_all add: from_ne_bytes_def to_ne_bytes_def)

lemma bit_from_le_bytes:
  fixes n :: nat
  shows "bit (from_le_bytes bs :: 'a::len word) i
    = (i < LENGTH('a) \<and> i div 8 < length bs \<and> bit (bs ! (i div 8)) (i mod 8))"
proof (induction bs arbitrary: i)
  case Nil
  then show ?case by simp
next
  case (Cons b bs)
  show ?case
  proof (cases "i < 8")
    case True
    then show ?thesis
      by (auto simp: bit_or_iff bit_push_bit_iff bit_ucast_iff)
  next
    case False
    then obtain j where j: "i = j + 8"
      by (metis add.commute le_Suc_ex not_less)
    then show ?thesis
      using Cons.IH [of j] bit_imp_le_length [of b "j + 8"]
      by (auto simp: bit_or_iff bit_push_bit_iff bit_ucast_iff)
  qed
qed

lemma to_from_le_bytes:
  assumes "8 * length bs = LENGTH('a::len)"
  shows "to_le_bytes (length bs) (from_le_bytes bs :: 'a word) = bs"
proof -
  have nth: "to_le_bytes n w ! i = ucast (drop_bit (8 * i) w)" if "i < n" for i n and w :: "'a word"
    using that
  proof (induction n arbitrary: i w)
    case (Suc n)
    then show ?case
      by (cases i) (simp_all add: drop_bit_drop_bit add.commute)
  qed simp
  show ?thesis
  proof (rule nth_equalityI)
    fix i assume "i < length (to_le_bytes (length bs) (from_le_bytes bs :: 'a word))"
    then have i: "i < length bs" by simp
    show "to_le_bytes (length bs) (from_le_bytes bs :: 'a word) ! i = bs ! i"
    proof (rule bit_eqI)
      fix k assume "possible_bit TYPE(8 word) k"
      then have k: "k < 8" by simp
      then show "bit (to_le_bytes (length bs) (from_le_bytes bs :: 'a word) ! i) k = bit (bs ! i) k"
        using i assms
        by (auto simp: nth bit_ucast_iff bit_drop_bit_eq bit_from_le_bytes)
    qed
  qed simp
qed

lemma to_from_be_bytes:
  assumes "8 * length bs = LENGTH('a::len)"
  shows "to_be_bytes (length bs) (from_be_bytes bs :: 'a word) = bs"
  using to_from_le_bytes [of "rev bs", where 'a = 'a] assms
  by (simp add: to_be_bytes_def from_be_bytes_def)

section \<open>Readers\<close>

text \<open>
  \<^verbatim>\<open>DeserializationError\<close>; the payload of \<^verbatim>\<open>IoError\<close> is
  dropped, a reader over a byte slice can fail only with \<^verbatim>\<open>UnexpectedEof\<close>.
\<close>

datatype deserialization_error = InvalidData | TooMuchData | IoError

type_synonym 'a reader = "bytes \<Rightarrow> deserialization_error + 'a \<times> bytes"

definition read_return :: "'a \<Rightarrow> 'a reader" where
  "read_return x bs = Inr (x, bs)"

definition read_fail :: "deserialization_error \<Rightarrow> 'a reader" where
  "read_fail e bs = Inl e"

definition read_bind :: "'a reader \<Rightarrow> ('a \<Rightarrow> 'b reader) \<Rightarrow> 'b reader" where
  "read_bind p f bs = (case p bs of Inl e \<Rightarrow> Inl e | Inr (x, rest) \<Rightarrow> f x rest)"

text \<open>\<^verbatim>\<open>reader.read_exact(&mut buffer)\<close> with a buffer of \<open>n\<close> bytes.\<close>

definition read_exact :: "nat \<Rightarrow> bytes reader" where
  "read_exact n bs = (if length bs < n then Inl IoError else Inr (take n bs, drop n bs))"

definition read_u8 :: "u8 reader" where
  "read_u8 = read_bind (read_exact 1) (\<lambda>buffer. read_return (from_be_bytes buffer))"

definition read_u64_le :: "u64 reader" where
  "read_u64_le = read_bind (read_exact 8) (\<lambda>buffer. read_return (from_le_bytes buffer))"

definition read_u64_be :: "u64 reader" where
  "read_u64_be = read_bind (read_exact 8) (\<lambda>buffer. read_return (from_be_bytes buffer))"

definition read_u64_ne :: "endian \<Rightarrow> u64 reader" where
  "read_u64_ne e = read_bind (read_exact 8) (\<lambda>buffer. read_return (from_ne_bytes e buffer))"

definition read_u32_be :: "u32 reader" where
  "read_u32_be = read_bind (read_exact 4) (\<lambda>buffer. read_return (from_be_bytes buffer))"

text \<open>\<^verbatim>\<open>FromPrimitive::from_u8(..).ok_or(InvalidData)\<close>\<close>

definition read_ok_or :: "'a option \<Rightarrow> deserialization_error \<Rightarrow> 'a reader" where
  "read_ok_or x e = (case x of None \<Rightarrow> read_fail e | Some v \<Rightarrow> read_return v)"

lemma read_return_apply [simp]: "read_return x bs = Inr (x, bs)"
  by (simp add: read_return_def)

lemma read_fail_apply [simp]: "read_fail e bs = Inl e"
  by (simp add: read_fail_def)

lemma read_bind_Inr [simp]: "p bs = Inr (x, rest) \<Longrightarrow> read_bind p f bs = f x rest"
  by (simp add: read_bind_def)

lemma read_bind_Inl [simp]: "p bs = Inl e \<Longrightarrow> read_bind p f bs = Inl e"
  by (simp add: read_bind_def)

lemma read_bind_eq_Inr:
  "read_bind p f bs = Inr z \<longleftrightarrow> (\<exists>y r. p bs = Inr (y, r) \<and> f y r = Inr z)"
  by (auto simp: read_bind_def split: sum.splits)

lemma read_exact_eq_Inr:
  "read_exact n bs = Inr (x, rest) \<longleftrightarrow> bs = x @ rest \<and> length x = n"
  by (auto simp: read_exact_def)

lemma read_ok_or_eq_Inr: "read_ok_or x e bs = Inr (y, rest) \<longleftrightarrow> x = Some y \<and> rest = bs"
  by (auto simp: read_ok_or_def split: option.splits)

lemma read_ok_or_Some [simp]: "read_ok_or (Some v) e = read_return v"
  by (simp add: read_ok_or_def)

lemma read_ok_or_None [simp]: "read_ok_or None e = read_fail e"
  by (simp add: read_ok_or_def)

lemma read_exact_append [simp]: "length xs = n \<Longrightarrow> read_exact n (xs @ rest) = Inr (xs, rest)"
  by (simp add: read_exact_def)

lemma read_exact_short [simp]: "length bs < n \<Longrightarrow> read_exact n bs = Inl IoError"
  by (simp add: read_exact_def)

lemma read_u8_Cons [simp]: "read_u8 (b # rest) = Inr (b, rest)"
  by (simp add: read_u8_def read_bind_def read_exact_def from_be_bytes_def)

lemma read_u8_Nil [simp]: "read_u8 [] = Inl IoError"
  by (simp add: read_u8_def read_bind_def read_exact_def)

lemma read_u64_le_append [simp]: "read_u64_le (to_le_bytes 8 w @ rest) = Inr (w, rest)"
  by (simp add: read_u64_le_def)

lemma read_u64_be_append [simp]: "read_u64_be (to_be_bytes 8 w @ rest) = Inr (w, rest)"
  by (simp add: read_u64_be_def)

lemma read_u64_ne_append [simp]: "read_u64_ne e (to_ne_bytes e 8 w @ rest) = Inr (w, rest)"
  by (simp add: read_u64_ne_def)

lemma read_u8_length: "read_u8 bs = Inr (x, rest) \<Longrightarrow> length bs = 1 + length rest"
  by (auto simp: read_u8_def read_bind_eq_Inr read_exact_eq_Inr)

lemma read_u64_le_length: "read_u64_le bs = Inr (x, rest) \<Longrightarrow> length bs = 8 + length rest"
  by (auto simp: read_u64_le_def read_bind_eq_Inr read_exact_eq_Inr)

lemma read_u64_be_length: "read_u64_be bs = Inr (x, rest) \<Longrightarrow> length bs = 8 + length rest"
  by (auto simp: read_u64_be_def read_bind_eq_Inr read_exact_eq_Inr)

lemma read_u64_ne_length: "read_u64_ne e bs = Inr (x, rest) \<Longrightarrow> length bs = 8 + length rest"
  by (auto simp: read_u64_ne_def read_bind_eq_Inr read_exact_eq_Inr)

lemma read_u32_be_append [simp]: "read_u32_be (to_be_bytes 4 w @ rest) = Inr (w, rest)"
  by (simp add: read_u32_be_def)

text \<open>
  A loop that reads \<open>n\<close> values, and a reader that is run on a buffer of its own, where the
  bytes that are left over are dropped.
\<close>

fun read_times :: "nat \<Rightarrow> 'a reader \<Rightarrow> 'a list reader" where
  "read_times 0 p = read_return []"
| "read_times (Suc n) p = read_bind p (\<lambda>x. read_bind (read_times n p) (\<lambda>xs. read_return (x # xs)))"

definition run_reader :: "'a reader \<Rightarrow> bytes \<Rightarrow> deserialization_error + 'a" where
  "run_reader p bs = map_sum id fst (p bs)"

lemma run_reader_Inr [simp]: "p bs = Inr (x, rest) \<Longrightarrow> run_reader p bs = Inr x"
  by (simp add: run_reader_def)

lemma run_reader_eq_Inr: "run_reader p bs = Inr x \<longleftrightarrow> (\<exists>rest. p bs = Inr (x, rest))"
  by (cases "p bs") (auto simp: run_reader_def)

lemma read_times_append:
  "(\<And>x rest. x \<in> set xs \<Longrightarrow> p (enc x @ rest) = Inr (x, rest)) \<Longrightarrow>
     read_times (length xs) p (concat (map enc xs) @ rest) = Inr (xs, rest)"
  by (induction xs) simp_all

lemma read_times_elems:
  "read_times n p bs = Inr (xs, rest) \<Longrightarrow> (\<And>bs y r. p bs = Inr (y, r) \<Longrightarrow> P y) \<Longrightarrow> x \<in> set xs \<Longrightarrow> P x"
  by (induction n arbitrary: bs xs) (auto simp: read_bind_eq_Inr)

lemma read_times_length: "read_times n p bs = Inr (xs, rest) \<Longrightarrow> length xs = n"
  by (induction n arbitrary: bs xs) (auto simp: read_bind_eq_Inr)

section \<open>Codecs\<close>

text \<open>
  The contract of a \<^verbatim>\<open>serialize\<close> / \<^verbatim>\<open>deserialize\<close> pair:
  reading back what was written gives the value and leaves the rest of the stream. The
  predicate \<open>wf\<close> names the values for which the pair promises it.
\<close>

locale codec =
  fixes enc :: "'a \<Rightarrow> bytes"
    and dec :: "'a reader"
    and wf :: "'a \<Rightarrow> bool"
  assumes dec_enc: "wf x \<Longrightarrow> dec (enc x @ rest) = Inr (x, rest)"
begin

lemma dec_enc_self: "wf x \<Longrightarrow> dec (enc x) = Inr (x, [])"
  using dec_enc [of x "[]"] by simp

text \<open>No encoding is a prefix of the encoding of another value.\<close>

lemma enc_prefix_free:
  assumes "wf x" "wf y" "enc x @ r = enc y @ s"
  shows "x = y \<and> r = s"
proof -
  have "Inr (x, r) = dec (enc y @ s)"
    using dec_enc [OF assms(1), of r] by (simp only: assms(3))
  also have "\<dots> = Inr (y, s)"
    by (rule dec_enc [OF assms(2)])
  finally show ?thesis by simp
qed

lemma enc_inj: "wf x \<Longrightarrow> wf y \<Longrightarrow> enc x = enc y \<Longrightarrow> x = y"
  using enc_prefix_free [of x y "[]" "[]"] by simp

text \<open>A sequence of values written back to back is read back value by value.\<close>

lemma dec_enc_then: "wf x \<Longrightarrow> read_bind dec f (enc x @ rest) = f x rest"
  by (simp add: dec_enc)

end

text \<open>The same for types whose encoding has one size (\<^verbatim>\<open>SERIALIZED_SIZE\<close>).\<close>

locale fixed_codec = codec +
  fixes size :: nat
  assumes enc_length: "wf x \<Longrightarrow> length (enc x) = size"
    and dec_consumes: "dec bs = Inr (x, rest) \<Longrightarrow> length bs = size + length rest"
begin

lemma dec_short: "length bs < size \<Longrightarrow> \<exists>e. dec bs = Inl e"
proof (cases "dec bs")
  case (Inr p)
  moreover assume "length bs < size"
  ultimately show ?thesis
    using dec_consumes [of bs "fst p" "snd p"] by simp
qed blast

end

end
