(* ===== verification/Tables.thy ===== *)
theory Tables
  imports Prelude
begin

text \<open>
  The key-value tables of \<^verbatim>\<open>nullables/lmdb\<close> and the iterators of
  \<^verbatim>\<open>store_lmdb/src/iterator.rs\<close>. A table is a finite map with ordered keys
  (in the tree the stubbed environment keeps a \<^verbatim>\<open>BTreeMap\<close>); an operation
  whose result the stores \<^verbatim>\<open>unwrap\<close> is \<open>None\<close> where LMDB reports
  an error: \<^verbatim>\<open>delete\<close> of a missing key (\<^verbatim>\<open>NotFound\<close>) and
  \<^verbatim>\<open>put\<close> with \<^verbatim>\<open>NO_OVERWRITE\<close> on an existing one
  (\<^verbatim>\<open>KeyExist\<close>).

  The locale \<open>kv_table\<close> is the interface the ledger relies on; sums over tables
  (balances, receivable amounts, representative weights) are proved in it once.
\<close>

section \<open>The interface of an ordered table\<close>

locale kv_table =
  fixes get :: "'t \<Rightarrow> 'k::linorder \<Rightarrow> 'v option"
    and put :: "'k \<Rightarrow> 'v \<Rightarrow> 't \<Rightarrow> 't"
    and del :: "'k \<Rightarrow> 't \<Rightarrow> 't"
    and entries :: "'t \<Rightarrow> ('k \<times> 'v) list"
  assumes get_put: "get (put k v t) k' = (if k' = k then Some v else get t k')"
    and get_del: "get (del k t) k' = (if k' = k then None else get t k')"
    and entries_get: "(k, v) \<in> set (entries t) \<longleftrightarrow> get t k = Some v"
    and entries_keys: "sorted (map fst (entries t)) \<and> distinct (map fst (entries t))"
begin

lemma finite_keys: "finite (dom (get t))"
proof -
  have "dom (get t) \<subseteq> fst ` set (entries t)"
    using entries_get by force
  then show ?thesis by (rule finite_subset) simp
qed

text \<open>A sum along the cursor is the sum over the keys.\<close>

lemma sum_entries:
  fixes f :: "'k \<Rightarrow> 'v \<Rightarrow> nat"
  shows "(\<Sum>(k, v)\<leftarrow>entries t. f k v) = (\<Sum>k\<in>dom (get t). f k (the (get t k)))"
proof -
  have dist: "distinct (entries t)"
    using entries_keys [of t] by (simp add: distinct_map)
  have inj: "inj_on fst (set (entries t))"
    using entries_keys [of t] by (simp add: distinct_map)
  have keys: "fst ` set (entries t) = dom (get t)"
  proof (intro equalityI subsetI)
    fix k assume "k \<in> dom (get t)"
    then obtain v where "(k, v) \<in> set (entries t)" using entries_get by auto
    then show "k \<in> fst ` set (entries t)" by force
  qed (use entries_get in force)
  have "(\<Sum>(k, v)\<leftarrow>entries t. f k v) = (\<Sum>p\<in>set (entries t). f (fst p) (snd p))"
    using dist by (simp add: sum_list_distinct_conv_sum_set case_prod_unfold)
  also have "\<dots> = (\<Sum>p\<in>set (entries t). f (fst p) (the (get t (fst p))))"
    using entries_get by (intro sum.cong) force+
  also have "\<dots> = (\<Sum>k\<in>fst ` set (entries t). f k (the (get t k)))"
    using inj by (simp add: sum.reindex)
  finally show ?thesis by (simp only: keys)
qed

lemma dom_put: "dom (get (put k v t)) = insert k (dom (get t))"
  by (auto simp: dom_def get_put)

lemma dom_del: "dom (get (del k t)) = dom (get t) - {k}"
  by (auto simp: dom_def get_del)

lemma sum_put_new:
  fixes f :: "'k \<Rightarrow> 'v \<Rightarrow> nat"
  assumes "get t k = None"
  shows "(\<Sum>(k, v)\<leftarrow>entries (put k v t). f k v) = (\<Sum>(k, v)\<leftarrow>entries t. f k v) + f k v"
proof -
  have k: "k \<notin> dom (get t)" using assms by (simp add: domIff)
  have "(\<Sum>k'\<in>dom (get t). f k' (the (get (put k v t) k')))
      = (\<Sum>k'\<in>dom (get t). f k' (the (get t k')))"
    using k by (intro sum.cong) (auto simp: get_put)
  then show ?thesis
    using k by (simp add: sum_entries dom_put finite_keys get_put [of k v t k])
qed

lemma sum_del:
  fixes f :: "'k \<Rightarrow> 'v \<Rightarrow> nat"
  assumes "get t k = Some v"
  shows "(\<Sum>(k, v)\<leftarrow>entries (del k t). f k v) + f k v = (\<Sum>(k, v)\<leftarrow>entries t. f k v)"
proof -
  have k: "k \<in> dom (get t)" using assms by (simp add: domIff)
  have "(\<Sum>k'\<in>dom (get t) - {k}. f k' (the (get (del k t) k')))
      = (\<Sum>k'\<in>dom (get t) - {k}. f k' (the (get t k')))"
    by (intro sum.cong) (auto simp: get_del)
  then show ?thesis
    using sum.remove [OF finite_keys k, of "\<lambda>k'. f k' (the (get t k'))"] assms
    by (simp add: sum_entries dom_del add.commute)
qed

lemma sum_cong_get:
  fixes f :: "'k \<Rightarrow> 'v \<Rightarrow> nat"
  assumes "\<And>k. get t k = get t' k"
  shows "(\<Sum>(k, v)\<leftarrow>entries t. f k v) = (\<Sum>(k, v)\<leftarrow>entries t'. f k v)"
proof -
  have "get t = get t'" using assms by (rule ext)
  then show ?thesis by (simp add: sum_entries)
qed

text \<open>Overwriting an entry exchanges its share of the sum.\<close>

lemma sum_put_old:
  fixes f :: "'k \<Rightarrow> 'v \<Rightarrow> nat"
  assumes "get t k = Some w"
  shows "(\<Sum>(k, v)\<leftarrow>entries (put k v t). f k v) + f k w = (\<Sum>(k, v)\<leftarrow>entries t. f k v) + f k v"
proof -
  have "(\<Sum>(k, v)\<leftarrow>entries (put k v t). f k v) = (\<Sum>(k, v)\<leftarrow>entries (put k v (del k t)). f k v)"
    by (rule sum_cong_get) (simp add: get_put get_del)
  also have "\<dots> = (\<Sum>(k, v)\<leftarrow>entries (del k t). f k v) + f k v"
    by (rule sum_put_new) (simp add: get_del)
  finally show ?thesis using sum_del [OF assms, of f] by simp
qed

lemma sum_member_le:
  fixes f :: "'k \<Rightarrow> 'v \<Rightarrow> nat"
  assumes "get t k = Some v"
  shows "f k v \<le> (\<Sum>(k, v)\<leftarrow>entries t. f k v)"
  using sum_del [OF assms, of f] by simp

end

section \<open>Tables as finite maps\<close>

type_synonym ('k, 'v) table = "('k, 'v) fmap"

abbreviation tbl_get :: "('k, 'v) table \<Rightarrow> 'k \<Rightarrow> 'v option" where
  "tbl_get \<equiv> fmlookup"

abbreviation tbl_put :: "'k \<Rightarrow> 'v \<Rightarrow> ('k, 'v) table \<Rightarrow> ('k, 'v) table" where
  "tbl_put \<equiv> fmupd"

text \<open>The records in the order a cursor visits them.\<close>

definition tbl_entries :: "('k::linorder, 'v) table \<Rightarrow> ('k \<times> 'v) list" where
  "tbl_entries = sorted_list_of_fmap"

interpretation lmdb: kv_table fmlookup fmupd fmdrop tbl_entries
proof
  fix k :: "'a::linorder" and v :: 'b and t :: "('a, 'b) fmap"
  have "set (tbl_entries t) = {(k, v). fmlookup t k = Some v}"
    by (auto simp: tbl_entries_def sorted_list_of_fmap_def sorted_list_of_fset.rep_eq
        fmlookup_dom_iff image_iff)
  then show "(k, v) \<in> set (tbl_entries t) \<longleftrightarrow> fmlookup t k = Some v" by simp
  have "map fst (tbl_entries t) = sorted_list_of_fset (fmdom t)"
    by (simp add: tbl_entries_def sorted_list_of_fmap_def comp_def)
  then show "sorted (map fst (tbl_entries t)) \<and> distinct (map fst (tbl_entries t))"
    by (simp add: sorted_list_of_fset.rep_eq)
qed auto

text \<open>\<^verbatim>\<open>txn.delete(..).unwrap()\<close>\<close>

definition tbl_del :: "'k \<Rightarrow> ('k, 'v) table \<Rightarrow> ('k, 'v) table option" where
  "tbl_del k t = (case tbl_get t k of None \<Rightarrow> None | Some _ \<Rightarrow> Some (fmdrop k t))"

text \<open>\<^verbatim>\<open>txn.put(.., NO_OVERWRITE).expect(..)\<close>\<close>

definition tbl_put_new :: "'k \<Rightarrow> 'v \<Rightarrow> ('k, 'v) table \<Rightarrow> ('k, 'v) table option" where
  "tbl_put_new k v t = (case tbl_get t k of None \<Rightarrow> Some (tbl_put k v t) | Some _ \<Rightarrow> None)"

lemma tbl_del_eq_Some [table_simps]:
  "tbl_del k t = Some t' \<longleftrightarrow> tbl_get t k \<noteq> None \<and> t' = fmdrop k t"
  by (auto simp: tbl_del_def split: option.splits)

lemma tbl_put_new_eq_Some [table_simps]:
  "tbl_put_new k v t = Some t' \<longleftrightarrow> tbl_get t k = None \<and> t' = tbl_put k v t"
  by (auto simp: tbl_put_new_def split: option.splits)

lemma fmupd_same [simp]: "fmlookup t k = Some v \<Longrightarrow> fmupd k v t = t"
  by (rule fmap_ext) auto

lemma fmdrop_fmupd_new [simp]: "fmlookup t k = None \<Longrightarrow> fmdrop k (fmupd k v t) = t"
  by (rule fmap_ext) auto

lemma fmupd_fmdrop_old [simp]: "fmlookup t k = Some v \<Longrightarrow> fmupd k v (fmdrop k t) = t"
  by (rule fmap_ext) auto

section \<open>Range iterators\<close>

datatype 'k bound = Included 'k | Excluded 'k | Unbounded

text \<open>\<^verbatim>\<open>LmdbRangeIterator::should_include\<close>\<close>

fun should_include :: "'k::linorder bound \<Rightarrow> 'k \<Rightarrow> bool" where
  "should_include (Included e) k = (k \<le> e)"
| "should_include (Excluded e) k = (k < e)"
| "should_include Unbounded k = True"

text \<open>
  \<^verbatim>\<open>LmdbRangeIterator\<close> run to its first \<^verbatim>\<open>None\<close>:
  \<^verbatim>\<open>MDB_SET_RANGE\<close> positions the cursor at the first key that is not below the
  start, \<^verbatim>\<open>MDB_NEXT\<close> follows the key order, and the iterator stops at the
  first key past the end. An excluded start is \<^verbatim>\<open>unimplemented!()\<close>.
\<close>

fun range_iter :: "'k::linorder bound \<Rightarrow> 'k bound \<Rightarrow> ('k, 'v) table \<Rightarrow> ('k \<times> 'v) list option" where
  "range_iter (Included s) e t =
     Some (takeWhile (\<lambda>r. should_include e (fst r)) (dropWhile (\<lambda>r. fst r < s) (tbl_entries t)))"
| "range_iter (Excluded s) e t = None"
| "range_iter Unbounded e t = Some (takeWhile (\<lambda>r. should_include e (fst r)) (tbl_entries t))"

lemma takeWhile_sorted_filter:
  assumes "sorted (map fst xs)" "\<And>k k'. k \<le> k' \<Longrightarrow> P k' \<Longrightarrow> P k"
  shows "takeWhile (\<lambda>r. P (fst r)) xs = filter (\<lambda>r. P (fst r)) xs"
  using assms(1)
proof (induction xs)
  case (Cons x xs)
  show ?case
  proof (cases "P (fst x)")
    case False
    then have "\<forall>r\<in>set xs. \<not> P (fst r)"
      using Cons.prems assms(2) by auto
    with False show ?thesis by (auto simp: filter_empty_conv)
  qed (use Cons in simp)
qed simp

lemma dropWhile_sorted_filter:
  assumes "sorted (map fst xs)"
  shows "dropWhile (\<lambda>r. fst r < s) xs = filter (\<lambda>r. s \<le> fst r) xs"
  using assms
proof (induction xs)
  case (Cons x xs)
  show ?case
  proof (cases "fst x < s")
    case False
    then have "\<forall>r\<in>set xs. s \<le> fst r"
      using Cons.prems by auto
    with False show ?thesis by (simp add: not_less)
  qed (use Cons in auto)
qed simp

lemma should_include_mono: "k \<le> k' \<Longrightarrow> should_include e k' \<Longrightarrow> should_include e k"
  by (cases e) auto

lemma range_iter_Included:
  "range_iter (Included s) e t =
     Some (filter (\<lambda>r. s \<le> fst r \<and> should_include e (fst r)) (tbl_entries t))"
proof -
  have s: "sorted (map fst (tbl_entries t))"
    using lmdb.entries_keys by blast
  then have "sorted (map fst (filter (\<lambda>r. s \<le> fst r) (tbl_entries t)))"
    by (rule sorted_filter)
  then have "takeWhile (\<lambda>r. should_include e (fst r)) (filter (\<lambda>r. s \<le> fst r) (tbl_entries t))
    = filter (\<lambda>r. should_include e (fst r)) (filter (\<lambda>r. s \<le> fst r) (tbl_entries t))"
    by (rule takeWhile_sorted_filter) (rule should_include_mono)
  then show ?thesis
    by (simp add: dropWhile_sorted_filter [OF s] conj_commute)
qed

lemma range_iter_from:
  "range_iter (Included s) Unbounded t = Some (filter (\<lambda>r. s \<le> fst r) (tbl_entries t))"
  by (simp only: range_iter_Included should_include.simps simp_thms)

lemma set_range_iter:
  assumes "range_iter (Included s) e t = Some rs"
  shows "set rs = {(k, v). tbl_get t k = Some v \<and> s \<le> k \<and> should_include e k}"
  using assms unfolding range_iter_Included by (auto simp: lmdb.entries_get)

end
