(* ===== verification/Primitives.thy ===== *)
theory Primitives
  imports Tables
begin

text \<open>
  The plain data types of \<^verbatim>\<open>types/src\<close>: the 32-byte structs made by the
  macro \<^verbatim>\<open>u256_struct!\<close>, \<^verbatim>\<open>Amount\<close>, time stamps, epochs,
  and the records stored in the account, pending and confirmation height tables, each with
  its binary encoding. The conversions between the 32-byte structs copy the bytes, so all of
  them are the type \<open>u256\<close>; the derived order on \<^verbatim>\<open>[u8; 32]\<close> is the
  order of the big-endian number.
\<close>

type_synonym account = u256
type_synonym block_hash = u256
type_synonym public_key = u256
type_synonym link = u256
type_synonym root = u256
type_synonym amount = u128
type_synonym signature = u512
type_synonym work_nonce = u64
type_synonym unix_timestamp = u64
type_synonym unix_millis_timestamp = u64

section \<open>32-byte structs\<close>

definition u256_inc :: "u256 \<Rightarrow> u256 option" where
  "u256_inc w = (if unat w + 1 < 2 ^ 256 then Some (w + 1) else None)"

definition u256_serialize :: "u256 \<Rightarrow> bytes" where [codec_defs]:
  "u256_serialize w = to_be_bytes 32 w"

definition u256_deserialize :: "u256 reader" where [codec_defs]:
  "u256_deserialize = read_bind (read_exact 32) (\<lambda>buffer. read_return (from_be_bytes buffer))"

definition signature_serialize :: "signature \<Rightarrow> bytes" where [codec_defs]:
  "signature_serialize s = to_be_bytes 64 s"

definition signature_deserialize :: "signature reader" where [codec_defs]:
  "signature_deserialize = read_bind (read_exact 64) (\<lambda>buffer. read_return (from_be_bytes buffer))"

interpretation u256: fixed_codec u256_serialize u256_deserialize "\<lambda>_. True" 32
  by unfold_locales
    (auto simp: codec_defs read_bind_eq_Inr read_exact_eq_Inr)

interpretation signature: fixed_codec signature_serialize signature_deserialize "\<lambda>_. True" 64
  by unfold_locales
    (auto simp: codec_defs read_bind_eq_Inr read_exact_eq_Inr)

lemma u256_inc_eq_Some: "u256_inc w = Some v \<longleftrightarrow> w < v \<and> v = w + 1"
proof -
  have "w < w + 1 \<longleftrightarrow> unat w + 1 < 2 ^ 256"
    using unat_lt2p [of w]
    by (cases "unat w + 1 = 2 ^ 256") (auto simp: word_less_nat_alt unat_word_ariths)
  then show ?thesis by (auto simp: u256_inc_def)
qed

section \<open>Amounts\<close>

text \<open>
  \<^verbatim>\<open>Amount\<close> wraps a \<^verbatim>\<open>u128\<close>. \<open>+\<close> and \<open>-\<close> on it
  are the operators of \<^verbatim>\<open>u128\<close>; the release build wraps, as the word
  operations do (no \<^verbatim>\<open>overflow-checks\<close> in the manifests), a debug build would
  panic where these wrap.
\<close>

definition amount_MAX :: amount where
  "amount_MAX = - 1"

definition amount_add :: "amount \<Rightarrow> amount \<Rightarrow> amount" where
  "amount_add a b = a + b"

definition amount_sub :: "amount \<Rightarrow> amount \<Rightarrow> amount" where
  "amount_sub a b = a - b"

definition amount_wrapping_add :: "amount \<Rightarrow> amount \<Rightarrow> amount" where
  "amount_wrapping_add a b = a + b"

definition amount_wrapping_sub :: "amount \<Rightarrow> amount \<Rightarrow> amount" where
  "amount_wrapping_sub a b = a - b"

definition amount_serialize :: "amount \<Rightarrow> bytes" where [codec_defs]:
  "amount_serialize a = to_be_bytes 16 a"

definition amount_deserialize :: "amount reader" where [codec_defs]:
  "amount_deserialize = read_bind (read_exact 16) (\<lambda>buffer. read_return (from_be_bytes buffer))"

interpretation amount: fixed_codec amount_serialize amount_deserialize "\<lambda>_. True" 16
  by unfold_locales
    (auto simp: codec_defs read_bind_eq_Inr read_exact_eq_Inr)

lemma unat_amount_MAX: "unat amount_MAX = 2 ^ 128 - 1"
  by (simp add: amount_MAX_def unat_max_word)

lemma unat_amount_le: "unat (a :: amount) \<le> 2 ^ 128 - 1"
  using unat_lt2p [of a] by simp

section \<open>Time stamps\<close>

text \<open>\<^verbatim>\<open>From<UnixMillisTimestamp> for UnixTimestamp\<close>\<close>

definition unix_from_millis :: "unix_millis_timestamp \<Rightarrow> unix_timestamp" where
  "unix_from_millis t = t div 1000"

section \<open>Epochs\<close>

datatype epoch = Invalid | Unspecified | Epoch0 | Epoch1 | Epoch2

fun epoch_as_u8 :: "epoch \<Rightarrow> u8" where
  "epoch_as_u8 Invalid = 0"
| "epoch_as_u8 Unspecified = 1"
| "epoch_as_u8 Epoch0 = 2"
| "epoch_as_u8 Epoch1 = 3"
| "epoch_as_u8 Epoch2 = 4"

text \<open>The derived \<^verbatim>\<open>FromPrimitive::from_u8\<close>.\<close>

definition epoch_from_u8 :: "u8 \<Rightarrow> epoch option" where
  "epoch_from_u8 v =
     (if v = 0 then Some Invalid else if v = 1 then Some Unspecified else if v = 2 then Some Epoch0
      else if v = 3 then Some Epoch1 else if v = 4 then Some Epoch2 else None)"

definition epoch_default :: epoch where
  "epoch_default = Unspecified"

fun epoch_number :: "epoch \<Rightarrow> u8" where
  "epoch_number Epoch1 = 1"
| "epoch_number Epoch2 = 2"
| "epoch_number _ = 0"

text \<open>The derived order: declaration order, which is the order of the tags.\<close>

instantiation epoch :: linorder
begin

definition less_eq_epoch :: "epoch \<Rightarrow> epoch \<Rightarrow> bool" where
  "less_eq_epoch a b = (epoch_as_u8 a \<le> epoch_as_u8 b)"

definition less_epoch :: "epoch \<Rightarrow> epoch \<Rightarrow> bool" where
  "less_epoch a b = (epoch_as_u8 a < epoch_as_u8 b)"

instance
proof
  fix a b :: epoch
  show "a \<le> b \<Longrightarrow> b \<le> a \<Longrightarrow> a = b"
    by (cases a; cases b) (simp_all add: less_eq_epoch_def word_le_nat_alt)
qed (auto simp: less_eq_epoch_def less_epoch_def)

end

lemma epoch_from_as_u8 [simp]: "epoch_from_u8 (epoch_as_u8 e) = Some e"
  by (cases e) (simp_all add: epoch_from_u8_def)

lemma epoch_from_u8_Some: "epoch_from_u8 v = Some e \<longleftrightarrow> v = epoch_as_u8 e"
proof
  show "epoch_from_u8 v = Some e \<Longrightarrow> v = epoch_as_u8 e"
    by (auto simp: epoch_from_u8_def split: if_splits)
qed simp

lemma epoch_as_u8_less_5: "epoch_as_u8 e < 5"
  by (cases e) simp_all

definition is_sequential :: "epoch \<Rightarrow> epoch \<Rightarrow> bool" where
  "is_sequential e new_e \<longleftrightarrow>
     epoch_as_u8 Epoch0 \<le> epoch_as_u8 e \<and> epoch_as_u8 new_e = epoch_as_u8 e + 1"

lemma is_sequential_iff:
  "is_sequential e e' \<longleftrightarrow> (e = Epoch0 \<and> e' = Epoch1) \<or> (e = Epoch1 \<and> e' = Epoch2)"
  by (cases e; cases e') (simp_all add: is_sequential_def word_le_nat_alt)

text \<open>
  \<^verbatim>\<open>EpochInfo\<close> and \<^verbatim>\<open>Epochs\<close>. The \<^verbatim>\<open>HashMap\<close> is an
  association list in the (unspecified) order its iterator visits the entries.
\<close>

record epoch_info =
  ei_signer :: public_key
  ei_link :: link

type_synonym epochs = "(epoch \<times> epoch_info) list"

definition epochs_add :: "epochs \<Rightarrow> epoch \<Rightarrow> public_key \<Rightarrow> link \<Rightarrow> epochs" where
  "epochs_add es e signer lnk =
     (e, \<lparr>ei_signer = signer, ei_link = lnk\<rparr>) # filter (\<lambda>(k, _). k \<noteq> e) es"

definition is_epoch_link :: "epochs \<Rightarrow> link \<Rightarrow> bool" where
  "is_epoch_link es lnk = list_ex (\<lambda>(_, x). ei_link x = lnk) es"

definition epochs_link :: "epochs \<Rightarrow> epoch \<Rightarrow> link option" where
  "epochs_link es e = map_option ei_link (map_of es e)"

definition epochs_signer :: "epochs \<Rightarrow> epoch \<Rightarrow> public_key option" where
  "epochs_signer es e = map_option ei_signer (map_of es e)"

fun epochs_epoch :: "epochs \<Rightarrow> link \<Rightarrow> epoch option" where
  "epochs_epoch [] lnk = None"
| "epochs_epoch ((k, v) # es) lnk = (if ei_link v = lnk then Some k else epochs_epoch es lnk)"

definition epoch_signer :: "epochs \<Rightarrow> link \<Rightarrow> account option" where
  "epoch_signer es lnk = Option.bind (epochs_epoch es lnk) (epochs_signer es)"

text \<open>Every epoch link has an epoch, and the epoch's link is that link.\<close>

lemma is_epoch_link_iff_epoch: "is_epoch_link es lnk \<longleftrightarrow> (\<exists>e. epochs_epoch es lnk = Some e)"
  by (induction es lnk rule: epochs_epoch.induct) (auto simp: is_epoch_link_def)

lemma epochs_epoch_link:
  assumes "distinct (map fst es)" "epochs_epoch es lnk = Some e"
  shows "epochs_link es e = Some lnk"
  using assms
proof (induction es lnk rule: epochs_epoch.induct)
  case (2 k v es lnk)
  show ?case
  proof (cases "ei_link v = lnk")
    case False
    with 2 have "epochs_link es e = Some lnk" by simp
    moreover from this have "e \<in> fst ` set es"
      by (force simp: epochs_link_def dest: map_of_SomeD)
    ultimately show ?thesis
      using "2.prems" by (auto simp: epochs_link_def)
  qed (use "2.prems" in \<open>auto simp: epochs_link_def\<close>)
qed simp

section \<open>Account info\<close>

record account_info =
  ai_head :: block_hash
  ai_representative :: public_key
  ai_open_block :: block_hash
  ai_balance :: amount
  ai_modified :: unix_timestamp
  ai_block_count :: u64
  ai_epoch :: epoch

definition account_info_default :: account_info where
  "account_info_default = \<lparr>ai_head = 0, ai_representative = 0, ai_open_block = 0, ai_balance = 0,
     ai_modified = 0, ai_block_count = 0, ai_epoch = epoch_default\<rparr>"

definition account_info_serialize :: "endian \<Rightarrow> account_info \<Rightarrow> bytes" where
  "account_info_serialize ne i =
     u256_serialize (ai_head i) @ u256_serialize (ai_representative i) @
     u256_serialize (ai_open_block i) @ amount_serialize (ai_balance i) @
     to_ne_bytes ne 8 (ai_modified i) @ to_ne_bytes ne 8 (ai_block_count i) @
     [epoch_as_u8 (ai_epoch i)]"

definition account_info_deserialize :: "endian \<Rightarrow> account_info reader" where
  "account_info_deserialize ne =
     read_bind u256_deserialize (\<lambda>head.
     read_bind u256_deserialize (\<lambda>representative.
     read_bind u256_deserialize (\<lambda>open_block.
     read_bind amount_deserialize (\<lambda>balance.
     read_bind (read_u64_ne ne) (\<lambda>modified.
     read_bind (read_u64_ne ne) (\<lambda>block_count.
     read_bind read_u8 (\<lambda>e.
     read_bind (read_ok_or (epoch_from_u8 e) InvalidData) (\<lambda>epoch.
     read_return \<lparr>ai_head = head, ai_representative = representative, ai_open_block = open_block,
       ai_balance = balance, ai_modified = modified, ai_block_count = block_count,
       ai_epoch = epoch\<rparr>))))))))"

section \<open>Pending entries\<close>

record pending_info =
  pi_source :: account
  pi_amount :: amount
  pi_epoch :: epoch

definition pending_info_serialize :: "pending_info \<Rightarrow> bytes" where
  "pending_info_serialize i =
     u256_serialize (pi_source i) @ amount_serialize (pi_amount i) @ [epoch_as_u8 (pi_epoch i)]"

definition pending_info_deserialize :: "pending_info reader" where
  "pending_info_deserialize =
     read_bind u256_deserialize (\<lambda>source.
     read_bind amount_deserialize (\<lambda>am.
     read_bind read_u8 (\<lambda>e.
     read_bind (read_ok_or (epoch_from_u8 e) InvalidData) (\<lambda>epoch.
     read_return \<lparr>pi_source = source, pi_amount = am, pi_epoch = epoch\<rparr>))))"

datatype pending_key = PendingKey (receiving_account: account) (send_block_hash: block_hash)

definition pending_key_serialize :: "pending_key \<Rightarrow> bytes" where
  "pending_key_serialize k =
     u256_serialize (receiving_account k) @ u256_serialize (send_block_hash k)"

definition pending_key_deserialize :: "pending_key reader" where
  "pending_key_deserialize =
     read_bind u256_deserialize (\<lambda>a.
     read_bind u256_deserialize (\<lambda>h.
     read_return (PendingKey a h)))"

text \<open>The derived order on keys is lexicographic.\<close>

instantiation pending_key :: linorder
begin

definition less_eq_pending_key :: "pending_key \<Rightarrow> pending_key \<Rightarrow> bool" where
  "less_eq_pending_key a b \<longleftrightarrow> receiving_account a < receiving_account b \<or>
     (receiving_account a = receiving_account b \<and> send_block_hash a \<le> send_block_hash b)"

definition less_pending_key :: "pending_key \<Rightarrow> pending_key \<Rightarrow> bool" where
  "less_pending_key a b \<longleftrightarrow> receiving_account a < receiving_account b \<or>
     (receiving_account a = receiving_account b \<and> send_block_hash a < send_block_hash b)"

instance
  by standard
    (auto simp: less_eq_pending_key_def less_pending_key_def intro: pending_key.expand)

end

section \<open>Confirmation heights\<close>

record confirmation_height_info =
  ch_height :: u64
  ch_frontier :: block_hash

definition confirmation_height_info_default :: confirmation_height_info where
  "confirmation_height_info_default = \<lparr>ch_height = 0, ch_frontier = 0\<rparr>"

definition confirmation_height_info_serialize :: "endian \<Rightarrow> confirmation_height_info \<Rightarrow> bytes" where
  "confirmation_height_info_serialize ne i =
     to_ne_bytes ne 8 (ch_height i) @ u256_serialize (ch_frontier i)"

definition confirmation_height_info_deserialize :: "endian \<Rightarrow> confirmation_height_info reader" where
  "confirmation_height_info_deserialize ne =
     read_bind (read_u64_ne ne) (\<lambda>height.
     read_bind u256_deserialize (\<lambda>frontier.
     read_return \<lparr>ch_height = height, ch_frontier = frontier\<rparr>))"

section \<open>Qualified roots\<close>

datatype qualified_root = QualifiedRoot (qr_root: root) (qr_previous: block_hash)

definition qualified_root_ZERO :: qualified_root where
  "qualified_root_ZERO = QualifiedRoot 0 0"

definition qualified_root_serialize :: "qualified_root \<Rightarrow> bytes" where
  "qualified_root_serialize r = u256_serialize (qr_root r) @ u256_serialize (qr_previous r)"

definition qualified_root_deserialize :: "qualified_root reader" where
  "qualified_root_deserialize =
     read_bind u256_deserialize (\<lambda>r.
     read_bind u256_deserialize (\<lambda>p.
     read_return (QualifiedRoot r p)))"

section \<open>The stored records are codecs\<close>

lemmas u256_dec [simp] = u256.dec_enc [OF TrueI]
lemmas signature_dec [simp] = signature.dec_enc [OF TrueI]
lemmas amount_dec [simp] = amount.dec_enc [OF TrueI]
lemmas u256_len [simp] = u256.enc_length [OF TrueI]
lemmas signature_len [simp] = signature.enc_length [OF TrueI]
lemmas amount_len [simp] = amount.enc_length [OF TrueI]

lemmas field_lengths =
  u256.dec_consumes signature.dec_consumes amount.dec_consumes
  read_u8_length read_u64_le_length read_u64_be_length read_u64_ne_length

interpretation account_info:
  fixed_codec "account_info_serialize ne" "account_info_deserialize ne" "\<lambda>_. True" 129 for ne
  by unfold_locales
    (auto simp: account_info_serialize_def account_info_deserialize_def read_bind_eq_Inr
      read_ok_or_eq_Inr dest!: field_lengths)

interpretation pending_info:
  fixed_codec pending_info_serialize pending_info_deserialize "\<lambda>_. True" 49
  by unfold_locales
    (auto simp: pending_info_serialize_def pending_info_deserialize_def read_bind_eq_Inr
      read_ok_or_eq_Inr dest!: field_lengths)

interpretation pending_key:
  fixed_codec pending_key_serialize pending_key_deserialize "\<lambda>_. True" 64
  by unfold_locales
    (auto simp: pending_key_serialize_def pending_key_deserialize_def read_bind_eq_Inr
      dest!: field_lengths)

interpretation confirmation_height_info:
  fixed_codec "confirmation_height_info_serialize ne" "confirmation_height_info_deserialize ne"
    "\<lambda>_. True" 40 for ne
  by unfold_locales
    (auto simp: confirmation_height_info_serialize_def confirmation_height_info_deserialize_def
      read_bind_eq_Inr dest!: field_lengths)

interpretation qualified_root:
  fixed_codec qualified_root_serialize qualified_root_deserialize "\<lambda>_. True" 64
  by unfold_locales
    (auto simp: qualified_root_serialize_def qualified_root_deserialize_def read_bind_eq_Inr
      dest!: field_lengths)

end
