(* ===== verification/Blocks.thy ===== *)
theory Blocks
  imports Primitives
begin

text \<open>
  The blocks of \<^verbatim>\<open>types/src/blocks\<close>: the four legacy block types and the
  state block, the enum \<^verbatim>\<open>Block\<close>, the sideband, and \<^verbatim>\<open>SavedBlock\<close>.
  A \<^verbatim>\<open>dyn BlockBase\<close> is the record \<open>block_base\<close> of the values its
  methods return; each struct's \<^verbatim>\<open>impl BlockBase\<close> is one function into it, and
  \<open>as_block\<close> dispatches on the enum as \<^verbatim>\<open>Block::as_block\<close> does.

  The hash function is the crate \<^verbatim>\<open>blake2\<close>, a parameter
  \<open>blake :: bytes \<Rightarrow> block_hash\<close>. As in the code, a block carries its hash in a
  field; \<open>block_hash_ok\<close> says that the field is the hash of the hashables.
\<close>

section \<open>Block types\<close>

datatype block_type_id = BTI_Invalid | BTI_NotABlock | BTI_LegacySend | BTI_LegacyReceive
  | BTI_LegacyOpen | BTI_LegacyChange | BTI_State

fun block_type_id_as_u8 :: "block_type_id \<Rightarrow> u8" where
  "block_type_id_as_u8 BTI_Invalid = 0"
| "block_type_id_as_u8 BTI_NotABlock = 1"
| "block_type_id_as_u8 BTI_LegacySend = 2"
| "block_type_id_as_u8 BTI_LegacyReceive = 3"
| "block_type_id_as_u8 BTI_LegacyOpen = 4"
| "block_type_id_as_u8 BTI_LegacyChange = 5"
| "block_type_id_as_u8 BTI_State = 6"

definition block_type_id_from_u8 :: "u8 \<Rightarrow> block_type_id option" where
  "block_type_id_from_u8 v =
     (if v = 0 then Some BTI_Invalid else if v = 1 then Some BTI_NotABlock
      else if v = 2 then Some BTI_LegacySend else if v = 3 then Some BTI_LegacyReceive
      else if v = 4 then Some BTI_LegacyOpen else if v = 5 then Some BTI_LegacyChange
      else if v = 6 then Some BTI_State else None)"

datatype block_type = BT_LegacySend | BT_LegacyReceive | BT_LegacyOpen | BT_LegacyChange | BT_State

fun block_type_id_of :: "block_type \<Rightarrow> block_type_id" where
  "block_type_id_of BT_LegacySend = BTI_LegacySend"
| "block_type_id_of BT_LegacyReceive = BTI_LegacyReceive"
| "block_type_id_of BT_LegacyOpen = BTI_LegacyOpen"
| "block_type_id_of BT_LegacyChange = BTI_LegacyChange"
| "block_type_id_of BT_State = BTI_State"

fun block_type_try_from :: "block_type_id \<Rightarrow> block_type option" where
  "block_type_try_from BTI_LegacySend = Some BT_LegacySend"
| "block_type_try_from BTI_LegacyReceive = Some BT_LegacyReceive"
| "block_type_try_from BTI_LegacyOpen = Some BT_LegacyOpen"
| "block_type_try_from BTI_LegacyChange = Some BT_LegacyChange"
| "block_type_try_from BTI_State = Some BT_State"
| "block_type_try_from _ = None"

datatype block_sub_type = Send | Receive | Open | Change | Epoch

fun block_sub_type_of :: "block_type \<Rightarrow> block_sub_type" where
  "block_sub_type_of BT_LegacySend = Send"
| "block_sub_type_of BT_LegacyReceive = Receive"
| "block_sub_type_of BT_LegacyOpen = Open"
| "block_sub_type_of BT_LegacyChange = Change"
| "block_sub_type_of BT_State = Send"

fun block_sub_type_as_str :: "block_sub_type \<Rightarrow> string" where
  "block_sub_type_as_str Send = ''send''"
| "block_sub_type_as_str Receive = ''receive''"
| "block_sub_type_as_str Open = ''open''"
| "block_sub_type_as_str Change = ''change''"
| "block_sub_type_as_str Epoch = ''epoch''"

lemma block_type_id_from_as_u8 [simp]: "block_type_id_from_u8 (block_type_id_as_u8 t) = Some t"
  by (cases t) (simp_all add: block_type_id_from_u8_def)

lemma block_type_try_from_id [simp]: "block_type_try_from (block_type_id_of t) = Some t"
  by (cases t) simp_all

section \<open>The interface of a block\<close>

record block_base =
  bb_block_type :: block_type
  bb_account_field :: "account option"
  bb_hash :: block_hash
  bb_link_field :: "link option"
  bb_signature :: signature
  bb_work :: work_nonce
  bb_previous :: block_hash
  bb_root :: root
  bb_balance_field :: "amount option"
  bb_source_field :: "block_hash option"
  bb_representative_field :: "public_key option"
  bb_valid_predecessor :: "block_type \<Rightarrow> bool"
  bb_destination_field :: "account option"

section \<open>Send block\<close>

record send_hashables =
  sh_previous :: block_hash
  sh_destination :: account
  sh_balance :: amount

record send_block =
  sb_hashables :: send_hashables
  sb_signature :: signature
  sb_work :: work_nonce
  sb_hash :: block_hash

definition send_hashables_hash :: "(bytes \<Rightarrow> block_hash) \<Rightarrow> send_hashables \<Rightarrow> block_hash" where
  "send_hashables_hash blake h =
     blake (u256_serialize (sh_previous h) @ u256_serialize (sh_destination h) @
       to_be_bytes 16 (sh_balance h))"

definition send_hashables_serialize :: "send_hashables \<Rightarrow> bytes" where
  "send_hashables_serialize h =
     u256_serialize (sh_previous h) @ u256_serialize (sh_destination h) @
     amount_serialize (sh_balance h)"

definition send_hashables_deserialize :: "send_hashables reader" where
  "send_hashables_deserialize =
     read_bind u256_deserialize (\<lambda>prev.
     read_bind u256_deserialize (\<lambda>destination.
     read_bind amount_deserialize (\<lambda>balance.
     read_return \<lparr>sh_previous = prev, sh_destination = destination, sh_balance = balance\<rparr>)))"

definition send_block_serialize :: "send_block \<Rightarrow> bytes" where
  "send_block_serialize b =
     send_hashables_serialize (sb_hashables b) @ signature_serialize (sb_signature b) @
     to_le_bytes 8 (sb_work b)"

definition send_block_deserialize :: "(bytes \<Rightarrow> block_hash) \<Rightarrow> send_block reader" where
  "send_block_deserialize blake =
     read_bind send_hashables_deserialize (\<lambda>hashables.
     read_bind signature_deserialize (\<lambda>sig.
     read_bind read_u64_le (\<lambda>work.
     read_return \<lparr>sb_hashables = hashables, sb_signature = sig, sb_work = work,
       sb_hash = send_hashables_hash blake hashables\<rparr>)))"

fun valid_send_block_predecessor :: "block_type \<Rightarrow> bool" where
  "valid_send_block_predecessor BT_LegacySend = True"
| "valid_send_block_predecessor BT_LegacyReceive = True"
| "valid_send_block_predecessor BT_LegacyOpen = True"
| "valid_send_block_predecessor BT_LegacyChange = True"
| "valid_send_block_predecessor BT_State = False"

definition send_block_base :: "send_block \<Rightarrow> block_base" where
  "send_block_base b = \<lparr>
     bb_block_type = BT_LegacySend,
     bb_account_field = None,
     bb_hash = sb_hash b,
     bb_link_field = None,
     bb_signature = sb_signature b,
     bb_work = sb_work b,
     bb_previous = sh_previous (sb_hashables b),
     bb_root = sh_previous (sb_hashables b),
     bb_balance_field = Some (sh_balance (sb_hashables b)),
     bb_source_field = None,
     bb_representative_field = None,
     bb_valid_predecessor = valid_send_block_predecessor,
     bb_destination_field = Some (sh_destination (sb_hashables b))\<rparr>"

section \<open>Receive block\<close>

record receive_hashables =
  rh_previous :: block_hash
  rh_source :: block_hash

record receive_block =
  rb_work :: work_nonce
  rb_signature :: signature
  rb_hashables :: receive_hashables
  rb_hash :: block_hash

definition receive_hashables_hash :: "(bytes \<Rightarrow> block_hash) \<Rightarrow> receive_hashables \<Rightarrow> block_hash" where
  "receive_hashables_hash blake h =
     blake (u256_serialize (rh_previous h) @ u256_serialize (rh_source h))"

definition receive_block_serialize :: "receive_block \<Rightarrow> bytes" where
  "receive_block_serialize b =
     u256_serialize (rh_previous (rb_hashables b)) @ u256_serialize (rh_source (rb_hashables b)) @
     signature_serialize (rb_signature b) @ to_le_bytes 8 (rb_work b)"

definition receive_block_deserialize :: "(bytes \<Rightarrow> block_hash) \<Rightarrow> receive_block reader" where
  "receive_block_deserialize blake =
     read_bind u256_deserialize (\<lambda>prev.
     read_bind u256_deserialize (\<lambda>source.
     read_bind signature_deserialize (\<lambda>sig.
     read_bind read_u64_le (\<lambda>work.
     read_return (let hashables = \<lparr>rh_previous = prev, rh_source = source\<rparr> in
       \<lparr>rb_work = work, rb_signature = sig, rb_hashables = hashables,
        rb_hash = receive_hashables_hash blake hashables\<rparr>)))))"

fun valid_receive_block_predecessor :: "block_type \<Rightarrow> bool" where
  "valid_receive_block_predecessor BT_State = False"
| "valid_receive_block_predecessor _ = True"

definition receive_block_base :: "receive_block \<Rightarrow> block_base" where
  "receive_block_base b = \<lparr>
     bb_block_type = BT_LegacyReceive,
     bb_account_field = None,
     bb_hash = rb_hash b,
     bb_link_field = None,
     bb_signature = rb_signature b,
     bb_work = rb_work b,
     bb_previous = rh_previous (rb_hashables b),
     bb_root = rh_previous (rb_hashables b),
     bb_balance_field = None,
     bb_source_field = Some (rh_source (rb_hashables b)),
     bb_representative_field = None,
     bb_valid_predecessor = valid_receive_block_predecessor,
     bb_destination_field = None\<rparr>"

section \<open>Open block\<close>

record open_hashables =
  oh_source :: block_hash
  oh_representative :: public_key
  oh_account :: account

record open_block =
  ob_work :: work_nonce
  ob_signature :: signature
  ob_hashables :: open_hashables
  ob_hash :: block_hash

definition open_hashables_hash :: "(bytes \<Rightarrow> block_hash) \<Rightarrow> open_hashables \<Rightarrow> block_hash" where
  "open_hashables_hash blake h =
     blake (u256_serialize (oh_source h) @ u256_serialize (oh_representative h) @
       u256_serialize (oh_account h))"

definition open_block_serialize :: "open_block \<Rightarrow> bytes" where
  "open_block_serialize b =
     u256_serialize (oh_source (ob_hashables b)) @
     u256_serialize (oh_representative (ob_hashables b)) @
     u256_serialize (oh_account (ob_hashables b)) @
     signature_serialize (ob_signature b) @ to_le_bytes 8 (ob_work b)"

definition open_block_deserialize :: "(bytes \<Rightarrow> block_hash) \<Rightarrow> open_block reader" where
  "open_block_deserialize blake =
     read_bind u256_deserialize (\<lambda>source.
     read_bind u256_deserialize (\<lambda>representative.
     read_bind u256_deserialize (\<lambda>acc.
     read_bind signature_deserialize (\<lambda>sig.
     read_bind read_u64_le (\<lambda>work.
     read_return (let hashables = \<lparr>oh_source = source, oh_representative = representative,
         oh_account = acc\<rparr> in
       \<lparr>ob_work = work, ob_signature = sig, ob_hashables = hashables,
        ob_hash = open_hashables_hash blake hashables\<rparr>))))))"

definition open_block_base :: "open_block \<Rightarrow> block_base" where
  "open_block_base b = \<lparr>
     bb_block_type = BT_LegacyOpen,
     bb_account_field = Some (oh_account (ob_hashables b)),
     bb_hash = ob_hash b,
     bb_link_field = None,
     bb_signature = ob_signature b,
     bb_work = ob_work b,
     bb_previous = 0,
     bb_root = oh_account (ob_hashables b),
     bb_balance_field = None,
     bb_source_field = Some (oh_source (ob_hashables b)),
     bb_representative_field = Some (oh_representative (ob_hashables b)),
     bb_valid_predecessor = (\<lambda>_. False),
     bb_destination_field = None\<rparr>"

section \<open>Change block\<close>

record change_hashables =
  chh_previous :: block_hash
  chh_representative :: public_key

record change_block =
  cb_work :: work_nonce
  cb_signature :: signature
  cb_hashables :: change_hashables
  cb_hash :: block_hash

definition change_hashables_hash :: "(bytes \<Rightarrow> block_hash) \<Rightarrow> change_hashables \<Rightarrow> block_hash" where
  "change_hashables_hash blake h =
     blake (u256_serialize (chh_previous h) @ u256_serialize (chh_representative h))"

definition change_block_serialize :: "change_block \<Rightarrow> bytes" where
  "change_block_serialize b =
     u256_serialize (chh_previous (cb_hashables b)) @
     u256_serialize (chh_representative (cb_hashables b)) @
     signature_serialize (cb_signature b) @ to_le_bytes 8 (cb_work b)"

definition change_block_deserialize :: "(bytes \<Rightarrow> block_hash) \<Rightarrow> change_block reader" where
  "change_block_deserialize blake =
     read_bind u256_deserialize (\<lambda>prev.
     read_bind u256_deserialize (\<lambda>representative.
     read_bind signature_deserialize (\<lambda>sig.
     read_bind read_u64_le (\<lambda>work.
     read_return (let hashables = \<lparr>chh_previous = prev, chh_representative = representative\<rparr> in
       \<lparr>cb_work = work, cb_signature = sig, cb_hashables = hashables,
        cb_hash = change_hashables_hash blake hashables\<rparr>)))))"

fun valid_change_block_predecessor :: "block_type \<Rightarrow> bool" where
  "valid_change_block_predecessor BT_State = False"
| "valid_change_block_predecessor _ = True"

definition change_block_base :: "change_block \<Rightarrow> block_base" where
  "change_block_base b = \<lparr>
     bb_block_type = BT_LegacyChange,
     bb_account_field = None,
     bb_hash = cb_hash b,
     bb_link_field = None,
     bb_signature = cb_signature b,
     bb_work = cb_work b,
     bb_previous = chh_previous (cb_hashables b),
     bb_root = chh_previous (cb_hashables b),
     bb_balance_field = None,
     bb_source_field = None,
     bb_representative_field = Some (chh_representative (cb_hashables b)),
     bb_valid_predecessor = valid_change_block_predecessor,
     bb_destination_field = None\<rparr>"

section \<open>State block\<close>

record state_hashables =
  sth_account :: account
  sth_previous :: block_hash
  sth_representative :: public_key
  sth_balance :: amount
  sth_link :: link

record state_block =
  stb_hashables :: state_hashables
  stb_signature :: signature
  stb_hash :: block_hash
  stb_work :: work_nonce

text \<open>The preamble is 31 zero bytes and the tag of the block type.\<close>

definition state_hashables_hash :: "(bytes \<Rightarrow> block_hash) \<Rightarrow> state_hashables \<Rightarrow> block_hash" where
  "state_hashables_hash blake h =
     blake (replicate 31 0 @ [block_type_id_as_u8 BTI_State] @
       u256_serialize (sth_account h) @ u256_serialize (sth_previous h) @
       u256_serialize (sth_representative h) @ to_be_bytes 16 (sth_balance h) @
       u256_serialize (sth_link h))"

definition state_block_serialize :: "state_block \<Rightarrow> bytes" where
  "state_block_serialize b =
     u256_serialize (sth_account (stb_hashables b)) @
     u256_serialize (sth_previous (stb_hashables b)) @
     u256_serialize (sth_representative (stb_hashables b)) @
     amount_serialize (sth_balance (stb_hashables b)) @
     u256_serialize (sth_link (stb_hashables b)) @
     signature_serialize (stb_signature b) @ to_be_bytes 8 (stb_work b)"

definition state_block_deserialize :: "(bytes \<Rightarrow> block_hash) \<Rightarrow> state_block reader" where
  "state_block_deserialize blake =
     read_bind u256_deserialize (\<lambda>acc.
     read_bind u256_deserialize (\<lambda>prev.
     read_bind u256_deserialize (\<lambda>representative.
     read_bind amount_deserialize (\<lambda>balance.
     read_bind u256_deserialize (\<lambda>lnk.
     read_bind signature_deserialize (\<lambda>sig.
     read_bind read_u64_be (\<lambda>work.
     read_return (let hashables = \<lparr>sth_account = acc, sth_previous = prev,
         sth_representative = representative, sth_balance = balance, sth_link = lnk\<rparr> in
       \<lparr>stb_hashables = hashables, stb_signature = sig,
        stb_hash = state_hashables_hash blake hashables, stb_work = work\<rparr>))))))))"

definition state_block_base :: "state_block \<Rightarrow> block_base" where
  "state_block_base b = \<lparr>
     bb_block_type = BT_State,
     bb_account_field = Some (sth_account (stb_hashables b)),
     bb_hash = stb_hash b,
     bb_link_field = Some (sth_link (stb_hashables b)),
     bb_signature = stb_signature b,
     bb_work = stb_work b,
     bb_previous = sth_previous (stb_hashables b),
     bb_root = (if sth_previous (stb_hashables b) \<noteq> 0 then sth_previous (stb_hashables b)
       else sth_account (stb_hashables b)),
     bb_balance_field = Some (sth_balance (stb_hashables b)),
     bb_source_field = None,
     bb_representative_field = Some (sth_representative (stb_hashables b)),
     bb_valid_predecessor = (\<lambda>_. True),
     bb_destination_field = None\<rparr>"

section \<open>The block enum\<close>

datatype block =
    LegacySend send_block
  | LegacyReceive receive_block
  | LegacyOpen open_block
  | LegacyChange change_block
  | State state_block

fun as_block :: "block \<Rightarrow> block_base" where
  "as_block (LegacySend b) = send_block_base b"
| "as_block (LegacyReceive b) = receive_block_base b"
| "as_block (LegacyOpen b) = open_block_base b"
| "as_block (LegacyChange b) = change_block_base b"
| "as_block (State b) = state_block_base b"

abbreviation block_type_of :: "block \<Rightarrow> block_type" where
  "block_type_of b \<equiv> bb_block_type (as_block b)"

abbreviation account_field :: "block \<Rightarrow> account option" where
  "account_field b \<equiv> bb_account_field (as_block b)"

abbreviation block_hash_of :: "block \<Rightarrow> block_hash" where
  "block_hash_of b \<equiv> bb_hash (as_block b)"

abbreviation link_field :: "block \<Rightarrow> link option" where
  "link_field b \<equiv> bb_link_field (as_block b)"

abbreviation block_signature :: "block \<Rightarrow> signature" where
  "block_signature b \<equiv> bb_signature (as_block b)"

abbreviation block_work :: "block \<Rightarrow> work_nonce" where
  "block_work b \<equiv> bb_work (as_block b)"

abbreviation block_previous :: "block \<Rightarrow> block_hash" where
  "block_previous b \<equiv> bb_previous (as_block b)"

abbreviation block_root :: "block \<Rightarrow> root" where
  "block_root b \<equiv> bb_root (as_block b)"

abbreviation balance_field :: "block \<Rightarrow> amount option" where
  "balance_field b \<equiv> bb_balance_field (as_block b)"

abbreviation source_field :: "block \<Rightarrow> block_hash option" where
  "source_field b \<equiv> bb_source_field (as_block b)"

abbreviation representative_field :: "block \<Rightarrow> public_key option" where
  "representative_field b \<equiv> bb_representative_field (as_block b)"

abbreviation valid_predecessor :: "block \<Rightarrow> block_type \<Rightarrow> bool" where
  "valid_predecessor b \<equiv> bb_valid_predecessor (as_block b)"

abbreviation destination_field :: "block \<Rightarrow> account option" where
  "destination_field b \<equiv> bb_destination_field (as_block b)"

definition qualified_root_of :: "block \<Rightarrow> qualified_root" where
  "qualified_root_of b = QualifiedRoot (block_root b) (block_previous b)"

lemmas block_base_defs [simp] =
  send_block_base_def receive_block_base_def open_block_base_def change_block_base_def
  state_block_base_def

fun is_open :: "block \<Rightarrow> bool" where
  "is_open (LegacyOpen _) = True"
| "is_open (State st) = (sth_previous (stb_hashables st) = 0)"
| "is_open _ = False"

fun is_legacy :: "block \<Rightarrow> bool" where
  "is_legacy (State _) = False"
| "is_legacy _ = True"

fun is_change :: "block \<Rightarrow> bool" where
  "is_change (LegacyChange _) = True"
| "is_change (State st) = (sth_link (stb_hashables st) = 0)"
| "is_change _ = False"

text \<open>\<^verbatim>\<open>unwrap_or_default\<close> of an optional 32-byte value is zero.\<close>

definition unwrap_or_zero :: "'a::zero option \<Rightarrow> 'a" where
  "unwrap_or_zero x = (case x of Some v \<Rightarrow> v | None \<Rightarrow> 0)"

lemma unwrap_or_zero_simps [simp]: "unwrap_or_zero (Some v) = v" "unwrap_or_zero None = 0"
  by (simp_all add: unwrap_or_zero_def)

definition source_or_link :: "block \<Rightarrow> block_hash" where
  "source_or_link b =
     (case source_field b of Some s \<Rightarrow> s | None \<Rightarrow> unwrap_or_zero (link_field b))"

definition destination_or_link :: "block \<Rightarrow> account" where
  "destination_or_link b =
     (case destination_field b of Some d \<Rightarrow> d | None \<Rightarrow> unwrap_or_zero (link_field b))"

lemma source_or_link_simps [simp]:
  "source_or_link (LegacySend b1) = 0"
  "source_or_link (LegacyReceive b2) = rh_source (rb_hashables b2)"
  "source_or_link (LegacyOpen b3) = oh_source (ob_hashables b3)"
  "source_or_link (LegacyChange b4) = 0"
  "source_or_link (State b5) = sth_link (stb_hashables b5)"
  by (simp_all add: source_or_link_def)

lemma destination_or_link_simps [simp]:
  "destination_or_link (LegacySend b1) = sh_destination (sb_hashables b1)"
  "destination_or_link (LegacyReceive b2) = 0"
  "destination_or_link (LegacyOpen b3) = 0"
  "destination_or_link (LegacyChange b4) = 0"
  "destination_or_link (State b5) = sth_link (stb_hashables b5)"
  by (simp_all add: destination_or_link_def)

text \<open>\<^verbatim>\<open>PendingKey::for_send_block\<close> and \<^verbatim>\<open>for_receive_block\<close> (the
latter unwraps the account).\<close>

definition pending_key_for_send_block :: "block \<Rightarrow> pending_key" where
  "pending_key_for_send_block b = PendingKey (unwrap_or_zero (link_field b)) (block_hash_of b)"

definition pending_key_for_receive_block :: "block \<Rightarrow> pending_key option" where
  "pending_key_for_receive_block b =
     map_option (\<lambda>a. PendingKey a (unwrap_or_zero (link_field b))) (account_field b)"

fun serialized_block_size :: "block_type \<Rightarrow> nat" where
  "serialized_block_size BT_LegacySend = 32 + 32 + 16 + 64 + 8"
| "serialized_block_size BT_LegacyReceive = 32 + 32 + 64 + 8"
| "serialized_block_size BT_LegacyOpen = 32 + 32 + 32 + 64 + 8"
| "serialized_block_size BT_LegacyChange = 32 + 32 + 64 + 8"
| "serialized_block_size BT_State = 32 + 32 + 32 + 16 + 32 + 64 + 8"

fun serialize_without_block_type :: "block \<Rightarrow> bytes" where
  "serialize_without_block_type (LegacySend b) = send_block_serialize b"
| "serialize_without_block_type (LegacyReceive b) = receive_block_serialize b"
| "serialize_without_block_type (LegacyOpen b) = open_block_serialize b"
| "serialize_without_block_type (LegacyChange b) = change_block_serialize b"
| "serialize_without_block_type (State b) = state_block_serialize b"

definition block_serialize :: "block \<Rightarrow> bytes" where
  "block_serialize b =
     [block_type_id_as_u8 (block_type_id_of (block_type_of b))] @ serialize_without_block_type b"

fun deserialize_block_type :: "(bytes \<Rightarrow> block_hash) \<Rightarrow> block_type \<Rightarrow> block reader" where
  "deserialize_block_type blake BT_LegacyReceive =
     read_bind (receive_block_deserialize blake) (\<lambda>b. read_return (LegacyReceive b))"
| "deserialize_block_type blake BT_LegacyOpen =
     read_bind (open_block_deserialize blake) (\<lambda>b. read_return (LegacyOpen b))"
| "deserialize_block_type blake BT_LegacyChange =
     read_bind (change_block_deserialize blake) (\<lambda>b. read_return (LegacyChange b))"
| "deserialize_block_type blake BT_State =
     read_bind (state_block_deserialize blake) (\<lambda>b. read_return (State b))"
| "deserialize_block_type blake BT_LegacySend =
     read_bind (send_block_deserialize blake) (\<lambda>b. read_return (LegacySend b))"

definition block_deserialize :: "(bytes \<Rightarrow> block_hash) \<Rightarrow> block reader" where
  "block_deserialize blake =
     read_bind read_u8 (\<lambda>t.
     read_bind (read_ok_or (block_type_id_from_u8 t) InvalidData) (\<lambda>type_id.
     read_bind (read_ok_or (block_type_try_from type_id) InvalidData) (\<lambda>block_type.
     deserialize_block_type blake block_type)))"

text \<open>The cached hash is the hash of the hashables.\<close>

fun block_hash_ok :: "(bytes \<Rightarrow> block_hash) \<Rightarrow> block \<Rightarrow> bool" where
  "block_hash_ok blake (LegacySend b) = (sb_hash b = send_hashables_hash blake (sb_hashables b))"
| "block_hash_ok blake (LegacyReceive b) = (rb_hash b = receive_hashables_hash blake (rb_hashables b))"
| "block_hash_ok blake (LegacyOpen b) = (ob_hash b = open_hashables_hash blake (ob_hashables b))"
| "block_hash_ok blake (LegacyChange b) = (cb_hash b = change_hashables_hash blake (cb_hashables b))"
| "block_hash_ok blake (State b) = (stb_hash b = state_hashables_hash blake (stb_hashables b))"

text \<open>A record rebuilt from its fields.\<close>

lemma hashables_eta [simp]:
  "\<lparr>sh_previous = sh_previous h1, sh_destination = sh_destination h1,
    sh_balance = sh_balance h1\<rparr> = (h1 :: send_hashables)"
  "\<lparr>rh_previous = rh_previous h2, rh_source = rh_source h2\<rparr> = (h2 :: receive_hashables)"
  "\<lparr>oh_source = oh_source h3, oh_representative = oh_representative h3,
    oh_account = oh_account h3\<rparr> = (h3 :: open_hashables)"
  "\<lparr>chh_previous = chh_previous h4, chh_representative = chh_representative h4\<rparr>
    = (h4 :: change_hashables)"
  "\<lparr>sth_account = sth_account h5, sth_previous = sth_previous h5,
    sth_representative = sth_representative h5, sth_balance = sth_balance h5,
    sth_link = sth_link h5\<rparr> = (h5 :: state_hashables)"
  by simp_all

lemma deserialize_serialize_without_block_type:
  assumes "block_hash_ok blake b"
  shows "deserialize_block_type blake (block_type_of b) (serialize_without_block_type b @ rest)
    = Inr (b, rest)"
  using assms
  by (cases b) (simp_all add: send_block_serialize_def send_block_deserialize_def
      send_hashables_serialize_def send_hashables_deserialize_def read_bind_def
      receive_block_serialize_def receive_block_deserialize_def
      open_block_serialize_def open_block_deserialize_def
      change_block_serialize_def change_block_deserialize_def
      state_block_serialize_def state_block_deserialize_def Let_def)

lemma length_serialize_without_block_type:
  "length (serialize_without_block_type b) = serialized_block_size (block_type_of b)"
  by (cases b) (simp_all add: send_block_serialize_def send_hashables_serialize_def
      receive_block_serialize_def open_block_serialize_def change_block_serialize_def
      state_block_serialize_def)

interpretation block_codec:
  codec block_serialize "block_deserialize blake" "block_hash_ok blake" for blake
  by unfold_locales
    (simp add: block_serialize_def block_deserialize_def deserialize_serialize_without_block_type
      read_bind_def)

section \<open>Block details\<close>

record block_details =
  bd_epoch :: epoch
  bd_is_send :: bool
  bd_is_receive :: bool
  bd_is_epoch :: bool

definition block_details_new :: "epoch \<Rightarrow> bool \<Rightarrow> bool \<Rightarrow> bool \<Rightarrow> block_details" where
  "block_details_new e s r ep =
     \<lparr>bd_epoch = e, bd_is_send = s, bd_is_receive = r, bd_is_epoch = ep\<rparr>"

definition block_details_packed :: "block_details \<Rightarrow> u8" where
  "block_details_packed d =
     (let result = epoch_as_u8 (bd_epoch d);
          result = (if bd_is_send d then result OR 128 else result);
          result = (if bd_is_receive d then result OR 64 else result)
      in if bd_is_epoch d then result OR 32 else result)"

definition block_details_unpack :: "u8 \<Rightarrow> block_details option" where
  "block_details_unpack value =
     (case epoch_from_u8 (value AND 31) of
        None \<Rightarrow> None
      | Some e \<Rightarrow> Some \<lparr>bd_epoch = e, bd_is_send = (128 AND value \<noteq> 0),
          bd_is_receive = (64 AND value \<noteq> 0), bd_is_epoch = (32 AND value \<noteq> 0)\<rparr>)"

definition block_details_deserialize :: "block_details reader" where
  "block_details_deserialize =
     read_bind read_u8 (\<lambda>v. read_ok_or (block_details_unpack v) InvalidData)"

definition block_details_subtype :: "block_details \<Rightarrow> block_sub_type" where
  "block_details_subtype d =
     (if bd_is_send d then Send else if bd_is_receive d then Receive
      else if bd_is_epoch d then Epoch else Change)"

lemma block_details_unpack_packed [simp]: "block_details_unpack (block_details_packed d) = Some d"
proof -
  obtain e s r ep where d: "d = \<lparr>bd_epoch = e, bd_is_send = s, bd_is_receive = r, bd_is_epoch = ep\<rparr>"
    by (cases d) simp
  show ?thesis
    unfolding d
    by (cases e; cases s; cases r; cases ep)
      (simp_all add: block_details_unpack_def block_details_packed_def epoch_from_u8_def)
qed

section \<open>Sideband\<close>

record block_sideband =
  sd_height :: u64
  sd_timestamp :: unix_millis_timestamp
  sd_account :: account
  sd_balance :: amount
  sd_details :: block_details
  sd_source_epoch :: epoch

definition sideband_serialized_size :: "block_type \<Rightarrow> nat" where
  "sideband_serialized_size t =
     (if t \<noteq> BT_State \<and> t \<noteq> BT_LegacyOpen then 32 else 0) +
     (if t \<noteq> BT_LegacyOpen then 8 else 0) +
     (if t = BT_LegacyReceive \<or> t = BT_LegacyChange \<or> t = BT_LegacyOpen then 16 else 0) +
     8 +
     (if t = BT_State then 1 + 1 else 0)"

definition sideband_serialize :: "block_type \<Rightarrow> block_sideband \<Rightarrow> bytes" where
  "sideband_serialize t s =
     (if t \<noteq> BT_State \<and> t \<noteq> BT_LegacyOpen then u256_serialize (sd_account s) else []) @
     (if t \<noteq> BT_LegacyOpen then to_be_bytes 8 (sd_height s) else []) @
     (if t = BT_LegacyReceive \<or> t = BT_LegacyChange \<or> t = BT_LegacyOpen
      then amount_serialize (sd_balance s) else []) @
     to_be_bytes 8 (sd_timestamp s) @
     (if t = BT_State then [block_details_packed (sd_details s), epoch_as_u8 (sd_source_epoch s)]
      else [])"

definition sideband_deserialize :: "block_type \<Rightarrow> block_sideband reader" where
  "sideband_deserialize t =
     read_bind (if t \<noteq> BT_State \<and> t \<noteq> BT_LegacyOpen then u256_deserialize else read_return 0)
       (\<lambda>acc.
     read_bind (if t \<noteq> BT_LegacyOpen then read_u64_be else read_return 1) (\<lambda>height.
     read_bind (if t = BT_LegacyReceive \<or> t = BT_LegacyChange \<or> t = BT_LegacyOpen
                then amount_deserialize else read_return 0) (\<lambda>balance.
     read_bind read_u64_be (\<lambda>timestamp.
     read_bind (if t = BT_State then
                  read_bind block_details_deserialize (\<lambda>details.
                  read_bind read_u8 (\<lambda>v.
                  read_bind (read_ok_or (epoch_from_u8 v) InvalidData) (\<lambda>source_epoch.
                  read_return (details, source_epoch))))
                else read_return (block_details_new Epoch0 False False False, Epoch0))
       (\<lambda>(details, source_epoch).
     read_return \<lparr>sd_height = height, sd_timestamp = timestamp, sd_account = acc,
       sd_balance = balance, sd_details = details, sd_source_epoch = source_epoch\<rparr>)))))"

lemma length_sideband_serialize: "length (sideband_serialize t s) = sideband_serialized_size t"
  by (simp add: sideband_serialize_def sideband_serialized_size_def)

section \<open>Saved blocks\<close>

record saved_block =
  svb_block :: block
  svb_sideband :: block_sideband

definition saved_block_new :: "block \<Rightarrow> block_sideband \<Rightarrow> saved_block" where
  "saved_block_new b s = \<lparr>svb_block = b, svb_sideband = s\<rparr>"

text \<open>\<^verbatim>\<open>Deref for SavedBlock\<close>: the methods of the block itself.\<close>

abbreviation saved_hash :: "saved_block \<Rightarrow> block_hash" where
  "saved_hash b \<equiv> block_hash_of (svb_block b)"

abbreviation saved_previous :: "saved_block \<Rightarrow> block_hash" where
  "saved_previous b \<equiv> block_previous (svb_block b)"

definition saved_account :: "saved_block \<Rightarrow> account" where
  "saved_account b =
     (case account_field (svb_block b) of Some a \<Rightarrow> a | None \<Rightarrow> sd_account (svb_sideband b))"

definition saved_height :: "saved_block \<Rightarrow> u64" where
  "saved_height b = sd_height (svb_sideband b)"

definition saved_timestamp :: "saved_block \<Rightarrow> unix_millis_timestamp" where
  "saved_timestamp b = sd_timestamp (svb_sideband b)"

definition saved_epoch :: "saved_block \<Rightarrow> epoch" where
  "saved_epoch b = bd_epoch (sd_details (svb_sideband b))"

definition saved_is_receive :: "saved_block \<Rightarrow> bool" where
  "saved_is_receive b = bd_is_receive (sd_details (svb_sideband b))"

definition saved_is_send :: "saved_block \<Rightarrow> bool" where
  "saved_is_send b =
     (case svb_block b of
        LegacySend _ \<Rightarrow> True
      | State _ \<Rightarrow> bd_is_send (sd_details (svb_sideband b))
      | _ \<Rightarrow> False)"

definition saved_source :: "saved_block \<Rightarrow> block_hash option" where
  "saved_source b =
     (case svb_block b of
        LegacyOpen i \<Rightarrow> Some (oh_source (ob_hashables i))
      | LegacyReceive i \<Rightarrow> Some (rh_source (rb_hashables i))
      | State i \<Rightarrow> (if bd_is_receive (sd_details (svb_sideband b))
          then Some (sth_link (stb_hashables i)) else None)
      | _ \<Rightarrow> None)"

definition saved_source_epoch :: "saved_block \<Rightarrow> epoch" where
  "saved_source_epoch b = sd_source_epoch (svb_sideband b)"

definition saved_destination :: "saved_block \<Rightarrow> account option" where
  "saved_destination b =
     (case svb_block b of
        LegacySend i \<Rightarrow> Some (sh_destination (sb_hashables i))
      | State i \<Rightarrow> (if bd_is_send (sd_details (svb_sideband b))
          then Some (sth_link (stb_hashables i)) else None)
      | _ \<Rightarrow> None)"

definition saved_balance :: "saved_block \<Rightarrow> amount" where
  "saved_balance b =
     (case svb_block b of
        LegacySend i \<Rightarrow> sh_balance (sb_hashables i)
      | State i \<Rightarrow> sth_balance (stb_hashables i)
      | _ \<Rightarrow> sd_balance (svb_sideband b))"

definition serialize_with_sideband :: "saved_block \<Rightarrow> bytes" where
  "serialize_with_sideband b =
     block_serialize (svb_block b) @
     sideband_serialize (block_type_of (svb_block b)) (svb_sideband b)"

text \<open>The sideband fields that are not stored, filled in from the block.\<close>

fun fill_sideband :: "block \<Rightarrow> block_sideband \<Rightarrow> block_sideband" where
  "fill_sideband (LegacySend i) s = s\<lparr>sd_balance := sh_balance (sb_hashables i),
     sd_details := block_details_new Epoch0 True False False\<rparr>"
| "fill_sideband (LegacyOpen i) s = s\<lparr>sd_account := oh_account (ob_hashables i),
     sd_details := block_details_new Epoch0 False True False\<rparr>"
| "fill_sideband (LegacyReceive i) s = s\<lparr>sd_details := block_details_new Epoch0 False True False\<rparr>"
| "fill_sideband (LegacyChange i) s = s\<lparr>sd_details := block_details_new Epoch0 False False False\<rparr>"
| "fill_sideband (State i) s = s\<lparr>sd_account := sth_account (stb_hashables i),
     sd_balance := sth_balance (stb_hashables i)\<rparr>"

definition saved_block_deserialize :: "(bytes \<Rightarrow> block_hash) \<Rightarrow> saved_block reader" where
  "saved_block_deserialize blake =
     read_bind (block_deserialize blake) (\<lambda>b.
     read_bind (sideband_deserialize (block_type_of b)) (\<lambda>s.
     read_return \<lparr>svb_block = b, svb_sideband = fill_sideband b s\<rparr>))"

text \<open>
  What reading a stored block gives: the block with the stored sideband fields, the others
  from the block. \<open>reload\<close> is idempotent, and it is the identity on the blocks the
  validator produces.
\<close>

definition reload :: "saved_block \<Rightarrow> saved_block" where
  "reload b = (case svb_block b of
      State _ \<Rightarrow> b\<lparr>svb_sideband := fill_sideband (svb_block b) (svb_sideband b)\<rparr>
    | LegacyOpen _ \<Rightarrow> b\<lparr>svb_sideband := (fill_sideband (svb_block b) (svb_sideband b))
        \<lparr>sd_height := 1, sd_source_epoch := Epoch0\<rparr>\<rparr>
    | _ \<Rightarrow> b\<lparr>svb_sideband := (fill_sideband (svb_block b) (svb_sideband b))
        \<lparr>sd_source_epoch := Epoch0\<rparr>\<rparr>)"

lemma sideband_dec_enc:
  assumes "block_hash_ok blake (svb_block b)"
  shows "saved_block_deserialize blake (serialize_with_sideband b @ rest) = Inr (reload b, rest)"
proof -
  obtain blk sd where b: "b = \<lparr>svb_block = blk, svb_sideband = sd\<rparr>"
    by (cases b) simp
  show ?thesis
    using assms block_codec.dec_enc [of blake blk]
    by (cases blk)
      (simp_all add: b saved_block_deserialize_def serialize_with_sideband_def sideband_serialize_def
        sideband_deserialize_def read_bind_def block_details_deserialize_def reload_def
        block_details_new_def)
qed

lemma reload_block [simp]: "svb_block (reload b) = svb_block b"
  by (simp add: reload_def split: block.splits)

lemma reload_idem [simp]: "reload (reload b) = reload b"
  by (cases b) (simp add: reload_def split: block.splits)

lemma reload_account [simp]: "saved_account (reload b) = saved_account b"
  by (cases b) (simp add: saved_account_def reload_def split: block.splits)

lemma reload_balance [simp]: "saved_balance (reload b) = saved_balance b"
  by (cases b) (simp add: saved_balance_def reload_def split: block.splits)

section \<open>Dependencies\<close>

datatype dependent_blocks = DependentBlocks block_hash block_hash

fun dependents_iter :: "dependent_blocks \<Rightarrow> block_hash list" where
  "dependents_iter (DependentBlocks p l) = filter (\<lambda>h. h \<noteq> 0) [p, l]"

definition open_dependent_blocks :: "account \<Rightarrow> open_block \<Rightarrow> dependent_blocks" where
  "open_dependent_blocks genesis_account b =
     (if oh_account (ob_hashables b) = genesis_account then DependentBlocks 0 0
      else DependentBlocks (oh_source (ob_hashables b)) 0)"

definition saved_dependent_blocks :: "epochs \<Rightarrow> account \<Rightarrow> saved_block \<Rightarrow> dependent_blocks" where
  "saved_dependent_blocks es genesis_account b =
     (case svb_block b of
        LegacySend i \<Rightarrow> DependentBlocks (block_previous (svb_block b)) 0
      | LegacyChange i \<Rightarrow> DependentBlocks (block_previous (svb_block b)) 0
      | LegacyReceive i \<Rightarrow> DependentBlocks (block_previous (svb_block b)) (rh_source (rb_hashables i))
      | LegacyOpen i \<Rightarrow> open_dependent_blocks genesis_account i
      | State i \<Rightarrow> DependentBlocks (saved_previous b)
          (if \<not> saved_is_send b \<and> \<not> is_epoch_link es (sth_link (stb_hashables i))
           then sth_link (stb_hashables i) else 0))"

section \<open>Priorities\<close>

text \<open>
  \<^verbatim>\<open>TimePriority\<close>: a lower time stamp is the higher priority. The order of
  \<^verbatim>\<open>BlockPriority\<close> is the derived one, by balance and then by time.
\<close>

datatype time_priority = TimePriority (tp_time: unix_millis_timestamp)

instantiation time_priority :: linorder
begin

definition less_eq_time_priority :: "time_priority \<Rightarrow> time_priority \<Rightarrow> bool" where
  "less_eq_time_priority s t \<longleftrightarrow> tp_time t \<le> tp_time s"

definition less_time_priority :: "time_priority \<Rightarrow> time_priority \<Rightarrow> bool" where
  "less_time_priority s t \<longleftrightarrow> tp_time t < tp_time s"

instance
  by standard (auto simp: less_eq_time_priority_def less_time_priority_def intro: time_priority.expand)

end

definition time_priority_MIN :: time_priority where
  "time_priority_MIN = TimePriority (- 1)"

datatype block_priority = BlockPriority (bp_balance: amount) (bp_time: time_priority)

instantiation block_priority :: linorder
begin

definition less_block_priority :: "block_priority \<Rightarrow> block_priority \<Rightarrow> bool" where
  "less_block_priority a b \<longleftrightarrow> bp_balance a < bp_balance b \<or> bp_balance a = bp_balance b \<and> bp_time a < bp_time b"

definition less_eq_block_priority :: "block_priority \<Rightarrow> block_priority \<Rightarrow> bool" where
  "less_eq_block_priority a b \<longleftrightarrow> bp_balance a < bp_balance b \<or> bp_balance a = bp_balance b \<and> bp_time a \<le> bp_time b"

instance
  by standard (auto simp: less_block_priority_def less_eq_block_priority_def intro: block_priority.expand)

end

definition block_priority_for :: "saved_block \<Rightarrow> saved_block option \<Rightarrow> block_priority" where
  "block_priority_for b previous_block =
     (let previous_balance = unwrap_or_zero (map_option saved_balance previous_block);
          priority_balance = max (saved_balance b) (if saved_is_send b then previous_balance else 0);
          priority_timestamp =
            (case previous_block of Some p \<Rightarrow> saved_timestamp p | None \<Rightarrow> saved_timestamp b)
      in BlockPriority priority_balance (TimePriority priority_timestamp))"

section \<open>Epoch signatures\<close>

text \<open>
  Signature verification is the crate \<^verbatim>\<open>ed25519_dalek\<close>: a parameter that takes
  the key, the message hash and the signature.
\<close>

type_synonym verifier = "public_key \<Rightarrow> block_hash \<Rightarrow> signature \<Rightarrow> bool"

definition validate_epoch_signature :: "verifier \<Rightarrow> epochs \<Rightarrow> block \<Rightarrow> bool" where
  "validate_epoch_signature verify es b =
     (case epoch_signer es (unwrap_or_zero (link_field b)) of
        None \<Rightarrow> False
      | Some signer \<Rightarrow> verify signer (block_hash_of b) (block_signature b))"

definition state_verify_signature :: "verifier \<Rightarrow> state_block \<Rightarrow> bool" where
  "state_verify_signature verify b =
     verify (sth_account (stb_hashables b)) (stb_hash b) (stb_signature b)"

end
