(* ===== verification/Store.thy ===== *)
theory Store
  imports Blocks Tables
begin

text \<open>
  The stores of \<^verbatim>\<open>store_lmdb/src\<close> as tables of decoded records. Keys are
  written big-endian, so the order of the key bytes is the order of the keys, and the values
  go through the codecs of \<open>Primitives\<close> and \<open>Blocks\<close>, whose round trips are
  proved there. A put whose result is unwrapped never fails here; a delete of a missing key
  panics (\<open>None\<close>).
\<close>

section \<open>The tables\<close>

record lmdb_store =
  st_block :: "(block_hash, saved_block) table"
  st_account :: "(account, account_info) table"
  st_pending :: "(pending_key, pending_info) table"
  st_rep_weight :: "(public_key, amount) table"
  st_confirmation_height :: "(account, confirmation_height_info) table"
  st_successors :: "(block_hash, block_hash) table"
  st_final_vote :: "(qualified_root, block_hash) table"
  cache_confirmed_count :: u64
  cache_block_count :: u64
  cache_account_count :: u64

definition empty_store :: lmdb_store where
  "empty_store = \<lparr>st_block = fmempty, st_account = fmempty, st_pending = fmempty,
     st_rep_weight = fmempty, st_confirmation_height = fmempty, st_successors = fmempty,
     st_final_vote = fmempty, cache_confirmed_count = 0, cache_block_count = 0,
     cache_account_count = 0\<rparr>"

section \<open>Block store\<close>

text \<open>
  A block is read back through \<open>reload\<close>. The index entry is written with
  \<^verbatim>\<open>NO_OVERWRITE\<close>, so a second put of a hash panics; a delete of an unknown
  hash does nothing. \<open>Block_Store\<close> proves that the pair of index and data tables
  implements this table.
\<close>

definition block_put :: "saved_block \<Rightarrow> 'a lmdb_store_scheme \<Rightarrow> 'a lmdb_store_scheme option" where
  "block_put b s =
     map_option (\<lambda>t. s\<lparr>st_block := t\<rparr>) (tbl_put_new (saved_hash b) (reload b) (st_block s))"

definition block_exists_in_store :: "'a lmdb_store_scheme \<Rightarrow> block_hash \<Rightarrow> bool" where
  "block_exists_in_store s h = (tbl_get (st_block s) h \<noteq> None)"

definition block_get :: "'a lmdb_store_scheme \<Rightarrow> block_hash \<Rightarrow> saved_block option" where
  "block_get s h = tbl_get (st_block s) h"

definition block_del :: "block_hash \<Rightarrow> 'a lmdb_store_scheme \<Rightarrow> 'a lmdb_store_scheme" where
  "block_del h s = s\<lparr>st_block := fmdrop h (st_block s)\<rparr>"

section \<open>Account store\<close>

definition account_put ::
    "account \<Rightarrow> account_info \<Rightarrow> 'a lmdb_store_scheme \<Rightarrow> 'a lmdb_store_scheme" where
  "account_put a i s = s\<lparr>st_account := tbl_put a i (st_account s)\<rparr>"

definition account_get :: "'a lmdb_store_scheme \<Rightarrow> account \<Rightarrow> account_info option" where
  "account_get s a = tbl_get (st_account s) a"

definition account_del :: "account \<Rightarrow> 'a lmdb_store_scheme \<Rightarrow> 'a lmdb_store_scheme option" where
  "account_del a s = map_option (\<lambda>t. s\<lparr>st_account := t\<rparr>) (tbl_del a (st_account s))"

definition account_iter_range :: "account bound \<Rightarrow> account bound \<Rightarrow> 'a lmdb_store_scheme \<Rightarrow>
    (account \<times> account_info) list option" where
  "account_iter_range lo hi s = range_iter lo hi (st_account s)"

section \<open>Pending store\<close>

definition pending_put ::
    "pending_key \<Rightarrow> pending_info \<Rightarrow> 'a lmdb_store_scheme \<Rightarrow> 'a lmdb_store_scheme" where
  "pending_put k p s = s\<lparr>st_pending := tbl_put k p (st_pending s)\<rparr>"

definition pending_del :: "pending_key \<Rightarrow> 'a lmdb_store_scheme \<Rightarrow> 'a lmdb_store_scheme option" where
  "pending_del k s = map_option (\<lambda>t. s\<lparr>st_pending := t\<rparr>) (tbl_del k (st_pending s))"

definition pending_get :: "'a lmdb_store_scheme \<Rightarrow> pending_key \<Rightarrow> pending_info option" where
  "pending_get s k = tbl_get (st_pending s) k"

definition pending_iter_range :: "pending_key bound \<Rightarrow> pending_key bound \<Rightarrow> 'a lmdb_store_scheme \<Rightarrow>
    (pending_key \<times> pending_info) list option" where
  "pending_iter_range lo hi s = range_iter lo hi (st_pending s)"

text \<open>The first element of an iterator, \<^verbatim>\<open>next().map(..).unwrap_or(false)\<close>.\<close>

definition first_satisfies :: "('r \<Rightarrow> bool) \<Rightarrow> 'r list option \<Rightarrow> bool" where
  "first_satisfies P rs = (case rs of Some (r # _) \<Rightarrow> P r | _ \<Rightarrow> False)"

definition pending_exists :: "'a lmdb_store_scheme \<Rightarrow> pending_key \<Rightarrow> bool" where
  "pending_exists s k =
     first_satisfies (\<lambda>r. fst r = k) (pending_iter_range (Included k) Unbounded s)"

definition pending_any :: "'a lmdb_store_scheme \<Rightarrow> account \<Rightarrow> bool" where
  "pending_any s a =
     first_satisfies (\<lambda>r. receiving_account (fst r) = a)
       (pending_iter_range (Included (PendingKey a 0)) Unbounded s)"

section \<open>Representative weights\<close>

definition rep_weight_get :: "'a lmdb_store_scheme \<Rightarrow> public_key \<Rightarrow> amount option" where
  "rep_weight_get s r = tbl_get (st_rep_weight s) r"

definition rep_weight_put ::
    "public_key \<Rightarrow> amount \<Rightarrow> 'a lmdb_store_scheme \<Rightarrow> 'a lmdb_store_scheme" where
  "rep_weight_put r w s = s\<lparr>st_rep_weight := tbl_put r w (st_rep_weight s)\<rparr>"

definition rep_weight_del :: "public_key \<Rightarrow> 'a lmdb_store_scheme \<Rightarrow> 'a lmdb_store_scheme option" where
  "rep_weight_del r s = map_option (\<lambda>t. s\<lparr>st_rep_weight := t\<rparr>) (tbl_del r (st_rep_weight s))"

section \<open>Confirmation heights, successors and final votes\<close>

definition conf_height_put ::
    "account \<Rightarrow> confirmation_height_info \<Rightarrow> 'a lmdb_store_scheme \<Rightarrow> 'a lmdb_store_scheme" where
  "conf_height_put a i s = s\<lparr>st_confirmation_height := tbl_put a i (st_confirmation_height s)\<rparr>"

definition conf_height_get ::
    "'a lmdb_store_scheme \<Rightarrow> account \<Rightarrow> confirmation_height_info option" where
  "conf_height_get s a = tbl_get (st_confirmation_height s) a"

definition successor_put ::
    "block_hash \<Rightarrow> block_hash \<Rightarrow> 'a lmdb_store_scheme \<Rightarrow> 'a lmdb_store_scheme" where
  "successor_put b n s = s\<lparr>st_successors := tbl_put b n (st_successors s)\<rparr>"

definition successor_del :: "block_hash \<Rightarrow> 'a lmdb_store_scheme \<Rightarrow> 'a lmdb_store_scheme option" where
  "successor_del b s = map_option (\<lambda>t. s\<lparr>st_successors := t\<rparr>) (tbl_del b (st_successors s))"

definition successor_get :: "'a lmdb_store_scheme \<Rightarrow> block_hash \<Rightarrow> block_hash option" where
  "successor_get s b = tbl_get (st_successors s) b"

text \<open>True if the pair was inserted or was already there.\<close>

definition final_vote_put :: "qualified_root \<Rightarrow> block_hash \<Rightarrow> 'a lmdb_store_scheme \<Rightarrow>
    bool \<times> 'a lmdb_store_scheme" where
  "final_vote_put r h s =
     (case tbl_get (st_final_vote s) r of
        None \<Rightarrow> (True, s\<lparr>st_final_vote := tbl_put r h (st_final_vote s)\<rparr>)
      | Some h' \<Rightarrow> (h' = h, s))"

definition final_vote_get :: "'a lmdb_store_scheme \<Rightarrow> qualified_root \<Rightarrow> block_hash option" where
  "final_vote_get s r = tbl_get (st_final_vote s) r"

definition final_vote_del ::
    "qualified_root \<Rightarrow> 'a lmdb_store_scheme \<Rightarrow> 'a lmdb_store_scheme option" where
  "final_vote_del r s = map_option (\<lambda>t. s\<lparr>st_final_vote := t\<rparr>) (tbl_del r (st_final_vote s))"

lemmas store_gets [simp] =
  block_get_def account_get_def pending_get_def rep_weight_get_def conf_height_get_def
  successor_get_def final_vote_get_def block_exists_in_store_def

lemmas store_puts [simp] =
  account_put_def pending_put_def rep_weight_put_def conf_height_put_def successor_put_def
  block_del_def

lemma block_put_eq_Some [table_simps]:
  "block_put b s = Some s' \<longleftrightarrow> tbl_get (st_block s) (saved_hash b) = None \<and>
     s' = s\<lparr>st_block := tbl_put (saved_hash b) (reload b) (st_block s)\<rparr>"
  by (auto simp: block_put_def table_simps)

lemma account_del_eq_Some [table_simps]:
  "account_del a s = Some s' \<longleftrightarrow> tbl_get (st_account s) a \<noteq> None \<and>
     s' = s\<lparr>st_account := fmdrop a (st_account s)\<rparr>"
  by (auto simp: account_del_def table_simps)

lemma pending_del_eq_Some [table_simps]:
  "pending_del k s = Some s' \<longleftrightarrow> tbl_get (st_pending s) k \<noteq> None \<and>
     s' = s\<lparr>st_pending := fmdrop k (st_pending s)\<rparr>"
  by (auto simp: pending_del_def table_simps)

lemma rep_weight_del_eq_Some [table_simps]:
  "rep_weight_del r s = Some s' \<longleftrightarrow> tbl_get (st_rep_weight s) r \<noteq> None \<and>
     s' = s\<lparr>st_rep_weight := fmdrop r (st_rep_weight s)\<rparr>"
  by (auto simp: rep_weight_del_def table_simps)

lemma successor_del_eq_Some [table_simps]:
  "successor_del b s = Some s' \<longleftrightarrow> tbl_get (st_successors s) b \<noteq> None \<and>
     s' = s\<lparr>st_successors := fmdrop b (st_successors s)\<rparr>"
  by (auto simp: successor_del_def table_simps)

section \<open>Existence tests by iterator\<close>

lemma first_of_sorted:
  assumes "first_satisfies P (range_iter (Included s) Unbounded t)"
  obtains k v where "tbl_get t k = Some v" "s \<le> k" "P (k, v)"
proof -
  from assms obtain r rs where rs: "range_iter (Included s) Unbounded t = Some (r # rs)" "P r"
    by (auto simp: first_satisfies_def split: option.splits list.splits)
  then have "r \<in> {(k, v). tbl_get t k = Some v \<and> s \<le> k \<and> should_include Unbounded k}"
    using set_range_iter [OF rs(1)] by auto
  then show thesis using that rs(2) by (cases r) auto
qed

text \<open>The first key from \<open>s\<close> on is the least one.\<close>

lemma first_is_least:
  assumes "tbl_get t k = Some v" "s \<le> k"
  obtains k' v' rs where "range_iter (Included s) Unbounded t = Some ((k', v') # rs)"
    "s \<le> k'" "k' \<le> k" "tbl_get t k' = Some v'"
proof -
  let ?rs = "filter (\<lambda>r. s \<le> fst r) (tbl_entries t)"
  have mem: "(k, v) \<in> set ?rs"
    using assms by (simp add: lmdb.entries_get)
  then obtain r rs where r: "?rs = r # rs"
    by (cases ?rs) auto
  have "sorted (map fst (r # rs))"
    using lmdb.entries_keys [of t] sorted_filter [of fst "tbl_entries t" "\<lambda>r. s \<le> fst r"] r by simp
  with mem r have le: "fst r \<le> k" by auto
  have "r \<in> set ?rs" using r by simp
  then have "s \<le> fst r" "tbl_get t (fst r) = Some (snd r)"
    using lmdb.entries_get [of "fst r" "snd r" t] by auto
  with le show thesis
    using that [of "fst r" "snd r" rs] r by (simp only: range_iter_from prod.collapse)
qed

lemma pending_exists_iff: "pending_exists s k \<longleftrightarrow> tbl_get (st_pending s) k \<noteq> None"
proof
  assume "pending_exists s k"
  then obtain k' v where "tbl_get (st_pending s) k' = Some v" "fst (k', v) = k"
    unfolding pending_exists_def pending_iter_range_def by (rule first_of_sorted)
  then show "tbl_get (st_pending s) k \<noteq> None" by simp
next
  assume "tbl_get (st_pending s) k \<noteq> None"
  then obtain v where v: "tbl_get (st_pending s) k = Some v" by auto
  obtain k' v' rs where "range_iter (Included k) Unbounded (st_pending s) = Some ((k', v') # rs)"
    "k \<le> k'" "k' \<le> k"
    using first_is_least [OF v order_refl] by metis
  then show "pending_exists s k"
    by (simp add: pending_exists_def pending_iter_range_def first_satisfies_def)
qed

lemma pending_key_between:
  assumes "PendingKey a 0 \<le> k" "k \<le> PendingKey a h"
  shows "receiving_account k = a"
  using assms by (cases k) (auto simp: less_eq_pending_key_def less_pending_key_def)

lemma pending_any_iff:
  "pending_any s a \<longleftrightarrow> (\<exists>h. tbl_get (st_pending s) (PendingKey a h) \<noteq> None)"
proof
  assume "pending_any s a"
  then obtain k v where "tbl_get (st_pending s) k = Some v" "receiving_account (fst (k, v)) = a"
    unfolding pending_any_def pending_iter_range_def by (rule first_of_sorted)
  then show "\<exists>h. tbl_get (st_pending s) (PendingKey a h) \<noteq> None"
    by (cases k) auto
next
  assume "\<exists>h. tbl_get (st_pending s) (PendingKey a h) \<noteq> None"
  then obtain h v where v: "tbl_get (st_pending s) (PendingKey a h) = Some v" by auto
  have "PendingKey a 0 \<le> PendingKey a h"
    by (simp add: less_eq_pending_key_def less_pending_key_def)
  from first_is_least [OF v this] obtain k' v' rs where
    "range_iter (Included (PendingKey a 0)) Unbounded (st_pending s) = Some ((k', v') # rs)"
    "PendingKey a 0 \<le> k'" "k' \<le> PendingKey a h" by metis
  then show "pending_any s a"
    by (simp add: pending_any_def pending_iter_range_def first_satisfies_def pending_key_between)
qed

lemma final_vote_put_wins:
  assumes "final_vote_put r h s = (True, s')"
  shows "final_vote_get s' r = Some h"
  using assms by (auto simp: final_vote_put_def split: option.splits)

lemma final_vote_put_keeps:
  assumes "final_vote_put r h s = (ok, s')" and "final_vote_get s r' = Some h'"
  shows "final_vote_get s' r' = Some h'"
  using assms by (auto simp: final_vote_put_def split: option.splits if_splits)

end
