(* ===== verification/Block_Store.thy ===== *)
theory Block_Store
  imports Store
begin

text \<open>
  \<^verbatim>\<open>store_lmdb/src/block_store.rs\<close> as it is written: an index table from hashes
  to ids, a data table from ids to serialized blocks, and the next free id. The locale
  \<open>block_table\<close> is what the ledger relies on; it is interpreted on the two tables and
  on the single table of \<open>Store\<close>, and a sequence of puts and deletes has the same
  outcome in every instance.
\<close>

section \<open>The interface\<close>

datatype block_op = Put_Block saved_block | Del_Block block_hash

fun run_ops :: "(saved_block \<Rightarrow> 's \<Rightarrow> 's option) \<Rightarrow> (block_hash \<Rightarrow> 's \<Rightarrow> 's option) \<Rightarrow>
    block_op list \<Rightarrow> 's \<Rightarrow> 's option" where
  "run_ops put del [] s = Some s"
| "run_ops put del (Put_Block b # ops) s =
     (case put b s of None \<Rightarrow> None | Some s' \<Rightarrow> run_ops put del ops s')"
| "run_ops put del (Del_Block h # ops) s =
     (case del h s of None \<Rightarrow> None | Some s' \<Rightarrow> run_ops put del ops s')"

text \<open>The same operations on a plain map; a put of a present hash panics.\<close>

fun run_spec :: "block_op list \<Rightarrow> (block_hash \<rightharpoonup> saved_block) \<Rightarrow> (block_hash \<rightharpoonup> saved_block) option" where
  "run_spec [] m = Some m"
| "run_spec (Put_Block b # ops) m =
     (case m (saved_hash b) of
        None \<Rightarrow> run_spec ops (m(saved_hash b \<mapsto> reload b))
      | Some _ \<Rightarrow> None)"
| "run_spec (Del_Block h # ops) m = run_spec ops (m(h := None))"

fun op_ok :: "(bytes \<Rightarrow> block_hash) \<Rightarrow> block_op \<Rightarrow> bool" where
  "op_ok blake (Put_Block b) = block_hash_ok blake (svb_block b)"
| "op_ok blake (Del_Block h) = True"

locale block_table =
  fixes blake :: "bytes \<Rightarrow> block_hash"
    and inv :: "'s \<Rightarrow> bool"
    and room :: "'s \<Rightarrow> nat"
    and get :: "'s \<Rightarrow> block_hash \<Rightarrow> saved_block option"
    and put :: "saved_block \<Rightarrow> 's \<Rightarrow> 's option"
    and del :: "block_hash \<Rightarrow> 's \<Rightarrow> 's option"
  assumes put_fresh: "inv s \<Longrightarrow> 0 < room s \<Longrightarrow> block_hash_ok blake (svb_block b) \<Longrightarrow>
      get s (saved_hash b) = None \<Longrightarrow>
      \<exists>s'. put b s = Some s' \<and> inv s' \<and> room s \<le> Suc (room s') \<and>
        get s' = (get s)(saved_hash b \<mapsto> reload b)"
    and put_dup: "inv s \<Longrightarrow> get s (saved_hash b) \<noteq> None \<Longrightarrow> put b s = None"
    and del_ok: "inv s \<Longrightarrow>
      \<exists>s'. del h s = Some s' \<and> inv s' \<and> room s \<le> room s' \<and> get s' = (get s)(h := None)"
begin

lemma put_get:
  assumes "inv s" "0 < room s" "block_hash_ok blake (svb_block b)" "put b s = Some s'"
  shows "get s' (saved_hash b) = Some (reload b)"
  using assms put_fresh [of s b] put_dup [of s b] by (cases "get s (saved_hash b)") auto

lemma put_del:
  assumes "inv s" "0 < room s" "block_hash_ok blake (svb_block b)" "put b s = Some s'"
    and "del (saved_hash b) s' = Some s''"
  shows "get s'' = get s"
proof -
  from assms have new: "get s (saved_hash b) = None"
    using put_dup [of s b] by (cases "get s (saved_hash b)") auto
  from assms put_fresh [OF assms(1-3) new] have "inv s'" "get s' = (get s)(saved_hash b \<mapsto> reload b)"
    by auto
  with assms(5) del_ok [of s' "saved_hash b"] new show ?thesis by auto
qed

text \<open>Operations that fit into the id space behave as on a map.\<close>

lemma run_refines:
  assumes "inv s" "length ops \<le> room s" "list_all (op_ok blake) ops"
  shows "map_option get (run_ops put del ops s) = run_spec ops (get s)"
  using assms
proof (induction ops arbitrary: s)
  case (Cons op ops)
  show ?case
  proof (cases op)
    case (Put_Block b)
    show ?thesis
    proof (cases "get s (saved_hash b)")
      case None
      then obtain s' where "put b s = Some s'" "inv s'" "room s \<le> Suc (room s')"
        "get s' = (get s)(saved_hash b \<mapsto> reload b)"
        using Cons.prems Put_Block put_fresh [of s b] by auto
      then show ?thesis using Cons.IH [of s'] Cons.prems None Put_Block by (auto simp: fun_upd_def)
    qed (use Put_Block Cons.prems put_dup in auto)
  next
    case (Del_Block h)
    obtain s' where "del h s = Some s'" "inv s'" "room s \<le> room s'" "get s' = (get s)(h := None)"
      using del_ok [OF Cons.prems(1), of h] by auto
    then show ?thesis using Cons.IH [of s'] Cons.prems Del_Block by (auto simp: fun_upd_def)
  qed
qed simp

end

section \<open>The single table\<close>

interpretation plain: block_table blake "\<lambda>_. True" "\<lambda>_. 2 ^ 64"
  "block_get :: 'a lmdb_store_scheme \<Rightarrow> _" block_put "\<lambda>h s. Some (block_del h s)" for blake
  by unfold_locales (auto simp: table_simps block_put_def tbl_put_new_def)

section \<open>Index and data table\<close>

record block_tables =
  bt_index :: "(block_hash, u64) table"
  bt_data :: "(u64, bytes) table"
  bt_next_id :: u64

text \<open>
  \<^verbatim>\<open>MDB_APPEND\<close>: the key must be past the last one, otherwise LMDB reports
  \<^verbatim>\<open>KeyExist\<close>.
\<close>

definition tbl_append :: "'k::linorder \<Rightarrow> 'v \<Rightarrow> ('k, 'v) table \<Rightarrow> ('k, 'v) table option" where
  "tbl_append k v t =
     (if list_all (\<lambda>r. fst r < k) (tbl_entries t) then Some (tbl_put k v t) else None)"

definition raw_put :: "bytes \<Rightarrow> block_hash \<Rightarrow> block_tables \<Rightarrow> block_tables option" where
  "raw_put data h s = do {
     let bid = bt_next_id s;
     let s = s\<lparr>bt_next_id := bid + 1\<rparr>;
     index \<leftarrow> tbl_put_new h bid (bt_index s);
     data \<leftarrow> tbl_append bid data (bt_data s);
     Some (s\<lparr>bt_index := index, bt_data := data\<rparr>)
   }"

definition bt_put :: "saved_block \<Rightarrow> block_tables \<Rightarrow> block_tables option" where
  "bt_put b s = raw_put (serialize_with_sideband b) (saved_hash b) s"

text \<open>The outer option is the panic for missing data.\<close>

definition block_raw_get :: "block_tables \<Rightarrow> block_hash \<Rightarrow> bytes option option" where
  "block_raw_get s h =
     (case tbl_get (bt_index s) h of
        None \<Rightarrow> Some None
      | Some bid \<Rightarrow> map_option Some (tbl_get (bt_data s) bid))"

definition bt_get :: "(bytes \<Rightarrow> block_hash) \<Rightarrow> block_tables \<Rightarrow> block_hash \<Rightarrow> saved_block option option" where
  "bt_get blake s h =
     (case block_raw_get s h of
        None \<Rightarrow> None
      | Some None \<Rightarrow> Some None
      | Some (Some data) \<Rightarrow>
          (case saved_block_deserialize blake data of
             Inl _ \<Rightarrow> None
           | Inr (b, _) \<Rightarrow> Some (Some b)))"

definition bt_del :: "block_hash \<Rightarrow> block_tables \<Rightarrow> block_tables option" where
  "bt_del h s =
     (case tbl_get (bt_index s) h of
        None \<Rightarrow> Some s
      | Some bid \<Rightarrow> do {
          data \<leftarrow> tbl_del bid (bt_data s);
          index \<leftarrow> tbl_del h (bt_index s);
          Some (s\<lparr>bt_data := data, bt_index := index\<rparr>)
        })"

definition find_next_free_id :: "(u64, bytes) table \<Rightarrow> u64" where
  "find_next_free_id data =
     (if tbl_entries data = [] then 0 else fst (last (tbl_entries data)) + 1)"

text \<open>Every index entry points to its own serialized block, and all ids are used up.\<close>

definition bt_inv :: "(bytes \<Rightarrow> block_hash) \<Rightarrow> block_tables \<Rightarrow> bool" where
  "bt_inv blake s \<longleftrightarrow>
     (\<forall>h bid. tbl_get (bt_index s) h = Some bid \<longrightarrow>
        (\<exists>b. tbl_get (bt_data s) bid = Some (serialize_with_sideband b) \<and> saved_hash b = h \<and>
          block_hash_ok blake (svb_block b))) \<and>
     (\<forall>h h' bid. tbl_get (bt_index s) h = Some bid \<longrightarrow> tbl_get (bt_index s) h' = Some bid \<longrightarrow> h = h') \<and>
     (\<forall>bid data. tbl_get (bt_data s) bid = Some data \<longrightarrow> bid < bt_next_id s)"

definition bt_room :: "block_tables \<Rightarrow> nat" where
  "bt_room s = 2 ^ 64 - 1 - unat (bt_next_id s)"

definition bt_view :: "(bytes \<Rightarrow> block_hash) \<Rightarrow> block_tables \<Rightarrow> block_hash \<Rightarrow> saved_block option" where
  "bt_view blake s h = (case bt_get blake s h of None \<Rightarrow> None | Some r \<Rightarrow> r)"

lemma bt_inv_dataE:
  assumes "bt_inv blake s" "tbl_get (bt_index s) h = Some bid"
  obtains b where "tbl_get (bt_data s) bid = Some (serialize_with_sideband b)" "saved_hash b = h"
    "block_hash_ok blake (svb_block b)"
  using assms unfolding bt_inv_def by metis

lemma bt_get_data:
  assumes "tbl_get (bt_index s) h = Some bid" "tbl_get (bt_data s) bid = Some (serialize_with_sideband b)"
    "block_hash_ok blake (svb_block b)"
  shows "bt_get blake s h = Some (Some (reload b))"
  using assms sideband_dec_enc [of blake b "[]"] by (simp add: bt_get_def block_raw_get_def)

lemma bt_get_missing: "tbl_get (bt_index s) h = None \<Longrightarrow> bt_get blake s h = Some None"
  by (simp add: bt_get_def block_raw_get_def)

text \<open>Reading never panics.\<close>

lemma bt_get_total:
  assumes "bt_inv blake s"
  shows "bt_get blake s h = Some (bt_view blake s h)"
proof (cases "tbl_get (bt_index s) h")
  case (Some bid)
  then obtain b where "tbl_get (bt_data s) bid = Some (serialize_with_sideband b)"
    "block_hash_ok blake (svb_block b)"
    using assms by (auto elim: bt_inv_dataE)
  then show ?thesis using Some by (simp add: bt_get_data bt_view_def)
qed (simp add: bt_get_missing bt_view_def)

lemma bt_view_None:
  assumes "bt_inv blake s"
  shows "bt_view blake s h = None \<longleftrightarrow> tbl_get (bt_index s) h = None"
proof (cases "tbl_get (bt_index s) h")
  case (Some bid)
  then obtain b where "tbl_get (bt_data s) bid = Some (serialize_with_sideband b)"
    "block_hash_ok blake (svb_block b)"
    using assms by (auto elim: bt_inv_dataE)
  then show ?thesis using Some by (simp add: bt_get_data bt_view_def)
qed (simp add: bt_get_missing bt_view_def)

lemma bt_view_cong:
  assumes "tbl_get (bt_index s') h = tbl_get (bt_index s) h"
    "\<And>bid. tbl_get (bt_index s) h = Some bid \<Longrightarrow> tbl_get (bt_data s') bid = tbl_get (bt_data s) bid"
  shows "bt_view blake s' h = bt_view blake s h"
  using assms by (cases "tbl_get (bt_index s) h")
    (auto simp: bt_view_def bt_get_def block_raw_get_def)

lemma unat_next_id: "bid \<noteq> -1 \<Longrightarrow> unat (bid + 1 :: u64) = unat bid + 1"
  by (metis add.commute plus_1_eq_Suc unatSuc add_eq_0_iff)

lemma bt_put_fresh:
  assumes inv: "bt_inv blake s" and room: "0 < bt_room s"
    and ok: "block_hash_ok blake (svb_block b)" and new: "bt_view blake s (saved_hash b) = None"
  shows "\<exists>s'. bt_put b s = Some s' \<and> bt_inv blake s' \<and> bt_room s \<le> Suc (bt_room s') \<and>
    bt_view blake s' = (bt_view blake s)(saved_hash b \<mapsto> reload b)"
proof -
  let ?bid = "bt_next_id s"
  let ?s = "\<lparr>bt_index = tbl_put (saved_hash b) ?bid (bt_index s),
    bt_data = tbl_put ?bid (serialize_with_sideband b) (bt_data s), bt_next_id = ?bid + 1\<rparr>"
  have idx: "tbl_get (bt_index s) (saved_hash b) = None"
    using new inv by (simp add: bt_view_None)
  have ids: "tbl_get (bt_data s) bid = Some d \<Longrightarrow> bid < ?bid" for bid d
    using inv by (simp add: bt_inv_def)
  have keys: "\<forall>r \<in> set (tbl_entries (bt_data s)). fst r < ?bid"
    using ids lmdb.entries_get by fastforce
  have bid: "?bid \<noteq> -1"
    using room by (auto simp: bt_room_def unat_max_word)
  have old: "tbl_get (bt_index s) h = Some i \<Longrightarrow> i < ?bid" for h i
    using inv ids by (fastforce simp: bt_inv_def)
  have lt: "i < ?bid \<Longrightarrow> i < ?bid + 1" for i
    using bid by (simp add: word_less_nat_alt unat_next_id)
  have "bt_put b s = Some ?s"
    using idx keys
    by (cases s) (simp add: bt_put_def raw_put_def tbl_put_new_def tbl_append_def list_all_iff Let_def)
  moreover have "bt_inv blake ?s"
    using inv ok old lt unfolding bt_inv_def
    by auto
      (use bid unat_next_id in \<open>fastforce simp: word_less_nat_alt\<close>)+
  moreover have "bt_room s \<le> Suc (bt_room ?s)"
    using bid by (simp add: bt_room_def unat_next_id)
  moreover have "bt_view blake ?s h = ((bt_view blake s)(saved_hash b \<mapsto> reload b)) h" for h
  proof (cases "h = saved_hash b")
    case True
    then show ?thesis using bt_get_data [of ?s h ?bid b blake] ok by (simp add: bt_view_def)
  next
    case False
    then show ?thesis using old [of h ?bid] by (auto intro!: bt_view_cong)
  qed
  ultimately show ?thesis by (intro exI [of _ ?s]) auto
qed

lemma bt_del_ok:
  assumes inv: "bt_inv blake s"
  shows "\<exists>s'. bt_del h s = Some s' \<and> bt_inv blake s' \<and> bt_room s \<le> bt_room s' \<and>
    bt_view blake s' = (bt_view blake s)(h := None)"
proof (cases "tbl_get (bt_index s) h")
  case None
  then show ?thesis using inv by (auto simp: bt_del_def bt_view_None fun_upd_idem)
next
  case (Some bid)
  let ?s = "s\<lparr>bt_data := fmdrop bid (bt_data s), bt_index := fmdrop h (bt_index s)\<rparr>"
  have own: "tbl_get (bt_index s) h' = Some bid \<Longrightarrow> h' = h" for h'
    using inv Some by (auto simp: bt_inv_def)
  obtain b where "tbl_get (bt_data s) bid = Some (serialize_with_sideband b)"
    using inv Some by (rule bt_inv_dataE)
  then have "bt_del h s = Some ?s"
    using Some by (simp add: bt_del_def tbl_del_def)
  moreover have "bt_inv blake ?s"
    using inv own unfolding bt_inv_def by (auto split: if_splits)
  moreover have "bt_view blake ?s h' = ((bt_view blake s)(h := None)) h'" for h'
  proof (cases "h' = h")
    case True
    then show ?thesis by (simp add: bt_view_def bt_get_missing)
  next
    case False
    then show ?thesis using own by (auto intro!: bt_view_cong)
  qed
  ultimately show ?thesis by (intro exI [of _ ?s]) (auto simp: bt_room_def)
qed

interpretation two_tables: block_table blake "bt_inv blake" bt_room "bt_view blake" bt_put bt_del
  for blake
proof
  fix s b assume "bt_inv blake s" "bt_view blake s (saved_hash b) \<noteq> None"
  then show "bt_put b s = None"
    by (auto simp: bt_view_None bt_put_def raw_put_def tbl_put_new_def)
qed (use bt_put_fresh bt_del_ok in blast)+

text \<open>The ids found when the store is opened are past every stored one.\<close>

lemma find_next_free_id_fresh:
  assumes "tbl_get data bid = Some d" "\<And>i e. tbl_get data i = Some e \<Longrightarrow> i \<noteq> -1"
  shows "bid < find_next_free_id data"
proof -
  let ?es = "tbl_entries data"
  have mem: "(bid, d) \<in> set ?es" using assms by (simp add: lmdb.entries_get)
  then have ne: "?es \<noteq> []" by auto
  have "bid \<le> fst (last ?es)"
    using mem lmdb.entries_keys [of data] by (cases ?es rule: rev_cases) (auto simp: sorted_append)
  moreover have "fst (last ?es) \<noteq> -1"
    using ne last_in_set [of ?es] assms(2) lmdb.entries_get [of "fst (last ?es)" "snd (last ?es)" data]
    by auto
  ultimately show ?thesis
    using ne by (simp add: find_next_free_id_def word_less_nat_alt word_le_nat_alt unat_next_id)
qed

end
