(* ===== verification/Rep_Weights.thy ===== *)
theory Rep_Weights
  imports Store
begin

text \<open>
  Voting weights: \<^verbatim>\<open>ledger/src/rep_weight_cache.rs\<close> and
  \<^verbatim>\<open>rep_weights_updater.rs\<close>. The table holds the weight of every
  representative that has one, the cache those of at least the minimum weight. Weights are
  added with wrap-around: a decrease is the addition of the negated amount.

  The state of the ledger, \<open>ledger\<close>, is the store with the weight cache.
\<close>

section \<open>State\<close>

type_synonym rep_weights = "(public_key, amount) table"

definition rep_weights_weight :: "rep_weights \<Rightarrow> public_key \<Rightarrow> amount" where
  "rep_weights_weight w r = unwrap_or_zero (tbl_get w r)"

record rep_weight_cache =
  rwc_weights :: rep_weights
  rwc_bootstrap_weights :: rep_weights
  rwc_max_blocks :: u64
  rwc_check_bootstrap_weights :: bool

record ledger = lmdb_store +
  lg_rep_weights :: rep_weight_cache
  lg_min_weight :: amount

definition rep_weight_cache_new :: rep_weight_cache where
  "rep_weight_cache_new = \<lparr>rwc_weights = fmempty, rwc_bootstrap_weights = fmempty,
     rwc_max_blocks = 0, rwc_check_bootstrap_weights = False\<rparr>"

definition with_bootstrap_weights :: "rep_weights \<Rightarrow> u64 \<Rightarrow> rep_weight_cache" where
  "with_bootstrap_weights weights max_blocks = \<lparr>rwc_weights = fmempty,
     rwc_bootstrap_weights = weights, rwc_max_blocks = max_blocks,
     rwc_check_bootstrap_weights = True\<rparr>"

text \<open>The flag is cleared at the first use with enough blocks, and stays cleared.\<close>

definition use_bootstrap_weights :: "ledger \<Rightarrow> bool \<times> ledger" where
  "use_bootstrap_weights L =
     (if rwc_check_bootstrap_weights (lg_rep_weights L) then
        if cache_block_count L < rwc_max_blocks (lg_rep_weights L) then (True, L)
        else (False, L\<lparr>lg_rep_weights :=
          (lg_rep_weights L)\<lparr>rwc_check_bootstrap_weights := False\<rparr>\<rparr>)
      else (False, L))"

definition rep_cache_weight :: "ledger \<Rightarrow> public_key \<Rightarrow> amount \<times> ledger" where
  "rep_cache_weight L r =
     (case use_bootstrap_weights L of (use, L') \<Rightarrow>
        (rep_weights_weight
           (if use then rwc_bootstrap_weights (lg_rep_weights L') else rwc_weights (lg_rep_weights L')) r,
         L'))"

section \<open>Updates\<close>

definition put_cache :: "amount \<Rightarrow> rep_weights \<Rightarrow> public_key \<Rightarrow> amount \<Rightarrow> rep_weights" where
  "put_cache min_weight weights representative new_weight =
     (if new_weight < min_weight \<or> new_weight = 0 then fmdrop representative weights
      else tbl_put representative new_weight weights)"

definition put_store :: "public_key \<Rightarrow> amount \<Rightarrow> amount \<Rightarrow> 'a lmdb_store_scheme \<Rightarrow>
    'a lmdb_store_scheme option" where
  "put_store representative previous_weight new_weight s =
     (if new_weight = 0 then
        if previous_weight \<noteq> 0 then rep_weight_del representative s else Some s
      else Some (rep_weight_put representative new_weight s))"

definition cache_put :: "public_key \<Rightarrow> amount \<Rightarrow> ledger \<Rightarrow> ledger" where
  "cache_put r w L = L\<lparr>lg_rep_weights := (lg_rep_weights L)
     \<lparr>rwc_weights := put_cache (lg_min_weight L) (rwc_weights (lg_rep_weights L)) r w\<rparr>\<rparr>"

definition copy_from :: "(public_key \<times> amount) list \<Rightarrow> ledger \<Rightarrow> ledger" where
  "copy_from other L =
     fold (\<lambda>(acc, amt) L. cache_put acc
       (amount_wrapping_add (rep_weights_weight (rwc_weights (lg_rep_weights L)) acc) amt) L) other L"

definition representation_put :: "public_key \<Rightarrow> amount \<Rightarrow> ledger \<Rightarrow> ledger" where
  "representation_put r w L = cache_put r w L"

definition representation_add :: "public_key \<Rightarrow> amount \<Rightarrow> ledger \<Rightarrow> ledger option" where
  "representation_add representative amt L =
     (let previous_weight = unwrap_or_zero (rep_weight_get L representative);
          new_weight = amount_wrapping_add previous_weight amt
      in map_option (cache_put representative new_weight)
           (put_store representative previous_weight new_weight L))"

definition representation_add_dual ::
    "public_key \<Rightarrow> amount \<Rightarrow> public_key \<Rightarrow> amount \<Rightarrow> ledger \<Rightarrow> ledger option" where
  "representation_add_dual rep_1 amount_1 rep_2 amount_2 L =
     (if rep_1 \<noteq> rep_2 then
        let previous_weight_1 = unwrap_or_zero (rep_weight_get L rep_1);
            previous_weight_2 = unwrap_or_zero (rep_weight_get L rep_2);
            new_weight_1 = amount_wrapping_add previous_weight_1 amount_1;
            new_weight_2 = amount_wrapping_add previous_weight_2 amount_2
        in do {
          L \<leftarrow> put_store rep_1 previous_weight_1 new_weight_1 L;
          L \<leftarrow> put_store rep_2 previous_weight_2 new_weight_2 L;
          Some (cache_put rep_2 new_weight_2 (cache_put rep_1 new_weight_1 L))
        }
      else representation_add rep_1 (amount_wrapping_add amount_1 amount_2) L)"

section \<open>The contract of the weights\<close>

text \<open>The weight delegated to a representative by the accounts of a table.\<close>

definition delegated :: "(account, account_info) table \<Rightarrow> public_key \<Rightarrow> nat" where
  "delegated t r =
     (\<Sum>(a, i)\<leftarrow>tbl_entries t. if ai_representative i = r then unat (ai_balance i) else 0)"

lemma delegated_empty [simp]: "delegated fmempty r = 0"
  by (simp add: delegated_def lmdb.sum_entries)

lemma delegated_put_new:
  "tbl_get t a = None \<Longrightarrow> delegated (tbl_put a i t) r =
     delegated t r + (if ai_representative i = r then unat (ai_balance i) else 0)"
  unfolding delegated_def by (rule lmdb.sum_put_new)

lemma delegated_put_old:
  "tbl_get t a = Some j \<Longrightarrow> delegated (tbl_put a i t) r +
       (if ai_representative j = r then unat (ai_balance j) else 0) =
     delegated t r + (if ai_representative i = r then unat (ai_balance i) else 0)"
  unfolding delegated_def by (rule lmdb.sum_put_old)

lemma delegated_del:
  "tbl_get t a = Some j \<Longrightarrow> delegated (fmdrop a t) r +
       (if ai_representative j = r then unat (ai_balance j) else 0) = delegated t r"
  unfolding delegated_def by (rule lmdb.sum_del)

text \<open>The weights are the delegated balances, modulo the width of an amount.\<close>

definition tracks :: "('s \<Rightarrow> bool) \<Rightarrow> ('s \<Rightarrow> public_key \<Rightarrow> amount) \<Rightarrow> 's \<Rightarrow>
    (account, account_info) table \<Rightarrow> bool" where
  "tracks ok weight s t \<longleftrightarrow> ok s \<and> (\<forall>r. weight s r = of_nat (delegated t r))"

locale weight_keeper =
  fixes ok :: "'s \<Rightarrow> bool"
    and weight :: "'s \<Rightarrow> public_key \<Rightarrow> amount"
    and add :: "public_key \<Rightarrow> amount \<Rightarrow> 's \<Rightarrow> 's option"
    and add_dual :: "public_key \<Rightarrow> amount \<Rightarrow> public_key \<Rightarrow> amount \<Rightarrow> 's \<Rightarrow> 's option"
  assumes add_ok: "ok s \<Longrightarrow> \<exists>s'. add r x s = Some s' \<and> ok s' \<and>
      (\<forall>q. weight s' q = weight s q + (if q = r then x else 0))"
    and add_dual_ok: "ok s \<Longrightarrow> \<exists>s'. add_dual r1 x1 r2 x2 s = Some s' \<and> ok s' \<and>
      (\<forall>q. weight s' q = weight s q + (if q = r1 then x1 else 0) + (if q = r2 then x2 else 0))"
begin

lemma add_new_account:
  assumes "tracks ok weight s t" "tbl_get t a = None"
  shows "\<exists>s'. add (ai_representative i) (ai_balance i) s = Some s' \<and> tracks ok weight s' (tbl_put a i t)"
  using assms add_ok [of s "ai_representative i" "ai_balance i"]
  by (auto simp: tracks_def delegated_put_new)

lemma move_account:
  assumes tr: "tracks ok weight s t" and old: "tbl_get t a = Some j"
  shows "\<exists>s'. add_dual (ai_representative j) (0 - ai_balance j) (ai_representative i) (ai_balance i) s
      = Some s' \<and> tracks ok weight s' (tbl_put a i t)"
proof -
  obtain s' where s': "add_dual (ai_representative j) (0 - ai_balance j) (ai_representative i)
      (ai_balance i) s = Some s'" "ok s'"
    and w: "\<And>q. weight s' q = weight s q + (if q = ai_representative j then 0 - ai_balance j else 0) +
        (if q = ai_representative i then ai_balance i else 0)"
    using tr add_dual_ok [of s] unfolding tracks_def by metis
  have "weight s' q = of_nat (delegated (tbl_put a i t) q)" for q
    using arg_cong [OF delegated_put_old [OF old, of i q], of "of_nat :: nat \<Rightarrow> amount"] tr
    by (auto simp: w tracks_def algebra_simps split: if_splits)
  with s' show ?thesis by (auto simp: tracks_def)
qed

lemma remove_account:
  assumes tr: "tracks ok weight s t" and old: "tbl_get t a = Some j"
  shows "\<exists>s'. add (ai_representative j) (0 - ai_balance j) s = Some s' \<and> tracks ok weight s' (fmdrop a t)"
proof -
  obtain s' where s': "add (ai_representative j) (0 - ai_balance j) s = Some s'" "ok s'"
    and w: "\<And>q. weight s' q = weight s q + (if q = ai_representative j then 0 - ai_balance j else 0)"
    using tr add_ok [of s] unfolding tracks_def by metis
  have "weight s' q = of_nat (delegated (fmdrop a t) q)" for q
    using arg_cong [OF delegated_del [OF old, of q], of "of_nat :: nat \<Rightarrow> amount"] tr
    by (auto simp: w tracks_def algebra_simps split: if_splits)
  with s' show ?thesis by (auto simp: tracks_def)
qed

end

section \<open>Table and cache implement the contract\<close>

definition table_weight :: "ledger \<Rightarrow> public_key \<Rightarrow> amount" where
  "table_weight L r = unwrap_or_zero (rep_weight_get L r)"

text \<open>No zero entries, and the cache is the table cut at the minimum weight.\<close>

definition weights_ok :: "ledger \<Rightarrow> bool" where
  "weights_ok L \<longleftrightarrow>
     (\<forall>r. tbl_get (st_rep_weight L) r \<noteq> Some 0) \<and>
     (\<forall>r. tbl_get (rwc_weights (lg_rep_weights L)) r =
        (if table_weight L r < lg_min_weight L \<or> table_weight L r = 0 then None
         else Some (table_weight L r)))"

text \<open>Writing a weight that was read from the table, in table and cache.\<close>

definition set_weight :: "public_key \<Rightarrow> amount \<Rightarrow> ledger \<Rightarrow> ledger" where
  "set_weight r w L = cache_put r w
     (L\<lparr>st_rep_weight := (if w = 0 then fmdrop r (st_rep_weight L) else tbl_put r w (st_rep_weight L))\<rparr>)"

lemma fmdrop_missing [simp]: "tbl_get t k = None \<Longrightarrow> fmdrop k t = t"
  by (rule fmap_ext) auto

lemma weights_ok_zero: "weights_ok L \<Longrightarrow> table_weight L r = 0 \<Longrightarrow> tbl_get (st_rep_weight L) r = None"
  unfolding weights_ok_def table_weight_def
  by (cases "tbl_get (st_rep_weight L) r") auto

lemma put_store_eq:
  assumes "weights_ok L"
  shows "put_store r (table_weight L r) w L = Some (L\<lparr>st_rep_weight :=
    (if w = 0 then fmdrop r (st_rep_weight L) else tbl_put r w (st_rep_weight L))\<rparr>)"
proof (cases "tbl_get (st_rep_weight L) r")
  case None
  then show ?thesis by (simp add: put_store_def table_weight_def)
next
  case (Some v)
  then show ?thesis
    using assms weights_ok_zero [OF assms, of r]
    by (auto simp: put_store_def table_weight_def rep_weight_del_def tbl_del_def)
qed

lemma table_weight_set [simp]:
  "table_weight (set_weight r w L) q = (if q = r then w else table_weight L q)"
  by (simp add: table_weight_def set_weight_def cache_put_def)

lemma set_weight_ok: "weights_ok L \<Longrightarrow> weights_ok (set_weight r w L)"
  unfolding weights_ok_def
  by (auto simp: set_weight_def cache_put_def put_cache_def table_weight_def)

lemma representation_add_eq:
  assumes "weights_ok L"
  shows "representation_add r x L = Some (set_weight r (table_weight L r + x) L)"
  using put_store_eq [OF assms, of r "table_weight L r + x"]
  by (simp add: representation_add_def Let_def amount_wrapping_add_def set_weight_def
      table_weight_def [symmetric] del: store_gets)

lemma put_store_other:
  assumes "weights_ok L" "r2 \<noteq> r1"
  shows "put_store r2 (table_weight L r2) w
    (L\<lparr>st_rep_weight := (if w1 = 0 then fmdrop r1 (st_rep_weight L)
        else tbl_put r1 w1 (st_rep_weight L))\<rparr>) =
    Some (let L1 = L\<lparr>st_rep_weight := (if w1 = 0 then fmdrop r1 (st_rep_weight L)
        else tbl_put r1 w1 (st_rep_weight L))\<rparr> in
      L1\<lparr>st_rep_weight := (if w = 0 then fmdrop r2 (st_rep_weight L1)
        else tbl_put r2 w (st_rep_weight L1))\<rparr>)"
proof -
  have "table_weight (set_weight r1 w1 L) r2 = table_weight L r2"
    using assms(2) by simp
  then show ?thesis
    using assms put_store_eq [OF set_weight_ok [OF assms(1)], of r2 r1 w1 w] weights_ok_zero [OF assms(1), of r2]
    by (auto simp: put_store_def Let_def rep_weight_del_def tbl_del_def table_weight_def
        split: option.splits)
qed

lemma representation_add_dual_eq:
  assumes "weights_ok L" "r1 \<noteq> r2"
  shows "representation_add_dual r1 x1 r2 x2 L =
    Some (set_weight r2 (table_weight L r2 + x2) (set_weight r1 (table_weight L r1 + x1) L))"
  using put_store_eq [OF assms(1), of r1 "table_weight L r1 + x1"]
    put_store_other [OF assms(1) assms(2) [symmetric], of "table_weight L r2 + x2" "table_weight L r1 + x1"]
    assms(2)
  by (simp add: representation_add_dual_def Let_def amount_wrapping_add_def set_weight_def
      table_weight_def [symmetric] cache_put_def del: store_gets)

interpretation rep_weights: weight_keeper weights_ok table_weight representation_add
  representation_add_dual
proof
  fix L r x assume ok: "weights_ok L"
  then show "\<exists>L'. representation_add r x L = Some L' \<and> weights_ok L' \<and>
      (\<forall>q. table_weight L' q = table_weight L q + (if q = r then x else 0))"
    by (simp add: representation_add_eq set_weight_ok)
next
  fix L r1 x1 r2 x2 assume ok: "weights_ok L"
  show "\<exists>L'. representation_add_dual r1 x1 r2 x2 L = Some L' \<and> weights_ok L' \<and>
      (\<forall>q. table_weight L' q = table_weight L q + (if q = r1 then x1 else 0) +
        (if q = r2 then x2 else 0))"
  proof (cases "r1 = r2")
    case True
    then show ?thesis
      using ok by (simp add: representation_add_dual_def representation_add_eq set_weight_ok
          amount_wrapping_add_def)
  next
    case False
    then show ?thesis using ok by (simp add: representation_add_dual_eq set_weight_ok)
  qed
qed

text \<open>The updates touch the weights only.\<close>

lemma set_weight_frame:
  "set_weight r w L = L\<lparr>st_rep_weight := st_rep_weight (set_weight r w L),
     lg_rep_weights := lg_rep_weights (set_weight r w L)\<rparr>"
  by (simp add: set_weight_def cache_put_def)

lemma set_weight_fields [simp]:
  "st_block (set_weight r w L) = st_block L" "st_account (set_weight r w L) = st_account L"
  "st_pending (set_weight r w L) = st_pending L"
  "st_confirmation_height (set_weight r w L) = st_confirmation_height L"
  "st_successors (set_weight r w L) = st_successors L"
  "st_final_vote (set_weight r w L) = st_final_vote L"
  "cache_confirmed_count (set_weight r w L) = cache_confirmed_count L"
  "cache_block_count (set_weight r w L) = cache_block_count L"
  "cache_account_count (set_weight r w L) = cache_account_count L"
  "lg_min_weight (set_weight r w L) = lg_min_weight L"
  by (simp_all add: set_weight_def cache_put_def)

lemma use_bootstrap_weights_stays:
  assumes "use_bootstrap_weights L = (False, L')"
  shows "fst (use_bootstrap_weights L') = False"
  using assms by (auto simp: use_bootstrap_weights_def split: if_splits)

end
