(* ===== verification/Work.thy ===== *)
theory Work
  imports Blocks
begin

text \<open>
  The proof-of-work thresholds of \<^verbatim>\<open>work/src/work_thresholds.rs\<close>. The difficulty
  of a nonce for a root is \<^verbatim>\<open>dyn Difficulty\<close> (a hash of the crate
  \<^verbatim>\<open>blake2\<close>), a field of the record as in the code.
\<close>

record work_thresholds =
  wt_epoch_1 :: u64
  wt_epoch_2 :: u64
  wt_epoch_2_receive :: u64
  wt_base :: u64
  wt_entry :: u64
  wt_difficulty :: "root \<Rightarrow> work_nonce \<Rightarrow> u64"

definition with_difficulty ::
    "(root \<Rightarrow> work_nonce \<Rightarrow> u64) \<Rightarrow> u64 \<Rightarrow> u64 \<Rightarrow> u64 \<Rightarrow> work_thresholds" where
  "with_difficulty difficulty epoch_1 epoch_2 epoch_2_receive = \<lparr>
     wt_epoch_1 = epoch_1, wt_epoch_2 = epoch_2, wt_epoch_2_receive = epoch_2_receive,
     wt_base = max (max epoch_1 epoch_2) epoch_2_receive,
     wt_entry = min (min epoch_1 epoch_2) epoch_2_receive,
     wt_difficulty = difficulty\<rparr>"

definition publish_full :: "(root \<Rightarrow> work_nonce \<Rightarrow> u64) \<Rightarrow> work_thresholds" where
  "publish_full d = with_difficulty d 0xffffffc000000000 0xfffffff800000000 0xfffffe0000000000"

definition publish_beta :: "(root \<Rightarrow> work_nonce \<Rightarrow> u64) \<Rightarrow> work_thresholds" where
  "publish_beta d = with_difficulty d 0xfffff00000000000 0xfffff00000000000 0xffffe00000000000"

definition publish_dev :: "(root \<Rightarrow> work_nonce \<Rightarrow> u64) \<Rightarrow> work_thresholds" where
  "publish_dev d = with_difficulty d 0xfe00000000000000 0xffc0000000000000 0xf000000000000000"

definition threshold_entry :: "work_thresholds \<Rightarrow> block_type \<Rightarrow> u64" where
  "threshold_entry w t = (case t of BT_State \<Rightarrow> wt_entry w | _ \<Rightarrow> wt_epoch_1 w)"

text \<open>In a release build the assertion of the last branch is not compiled.\<close>

definition threshold :: "work_thresholds \<Rightarrow> block_details \<Rightarrow> u64" where
  "threshold w d =
     (case bd_epoch d of
        Epoch2 \<Rightarrow> (if bd_is_receive d \<or> bd_is_epoch d then wt_epoch_2_receive w else wt_epoch_2 w)
      | Epoch1 \<Rightarrow> wt_epoch_1 w
      | Epoch0 \<Rightarrow> wt_epoch_1 w
      | _ \<Rightarrow> -1)"

definition difficulty_block :: "work_thresholds \<Rightarrow> block \<Rightarrow> u64" where
  "difficulty_block w b = wt_difficulty w (block_root b) (block_work b)"

definition validate_entry_block :: "work_thresholds \<Rightarrow> block \<Rightarrow> bool" where
  "validate_entry_block w b \<longleftrightarrow> threshold_entry w (block_type_of b) \<le> difficulty_block w b"

definition is_valid_pow :: "work_thresholds \<Rightarrow> block \<Rightarrow> block_details \<Rightarrow> bool" where
  "is_valid_pow w b d \<longleftrightarrow> threshold w d \<le> difficulty_block w b"

text \<open>
  The entry threshold is a lower bound of every threshold, the base threshold an upper bound
  of the ones of known epochs, so the filter at the entry of the node never drops a block
  whose work the ledger would accept.
\<close>

lemma thresholds_entry_le:
  "wt_entry (with_difficulty d e1 e2 e2r) \<le> threshold (with_difficulty d e1 e2 e2r) details"
  by (simp add: with_difficulty_def threshold_def min_le_iff_disj split: epoch.splits)

lemma thresholds_base_ge:
  assumes "bd_epoch details \<in> {Epoch0, Epoch1, Epoch2}"
  shows "threshold (with_difficulty d e1 e2 e2r) details \<le> wt_base (with_difficulty d e1 e2 e2r)"
  using assms by (auto simp: with_difficulty_def threshold_def le_max_iff_disj split: epoch.splits)

lemma valid_pow_entry_state:
  assumes "is_valid_pow (with_difficulty d e1 e2 e2r) b details" and "block_type_of b = BT_State"
  shows "validate_entry_block (with_difficulty d e1 e2 e2r) b"
  using assms thresholds_entry_le [of d e1 e2 e2r details]
  by (auto simp: is_valid_pow_def validate_entry_block_def threshold_entry_def)

lemma valid_pow_entry_legacy:
  assumes "is_valid_pow (with_difficulty d e1 e2 e2r) b details" and "bd_epoch details = Epoch0"
    and "block_type_of b \<noteq> BT_State"
  shows "validate_entry_block (with_difficulty d e1 e2 e2r) b"
  using assms
  by (auto simp: is_valid_pow_def validate_entry_block_def threshold_entry_def threshold_def
      split: block_type.splits)

end
