(* ===== verification/Ledger_Sets.thy ===== *)
theory Ledger_Sets
  imports Rep_Weights Work
begin

text \<open>
  Read access to the ledger: \<^verbatim>\<open>ledger/src/ledger_sets\<close> (all blocks, confirmed
  blocks, unconfirmed blocks), \<^verbatim>\<open>ledger_constants.rs\<close>,
  \<^verbatim>\<open>dependent_blocks_finder.rs\<close> and
  \<^verbatim>\<open>representative_block_finder.rs\<close>. A transaction is a snapshot of the
  tables: the set functions take the store.
\<close>

section \<open>Constants of the ledger\<close>

record ledger_constants =
  lc_work :: work_thresholds
  lc_genesis_block :: saved_block
  lc_genesis_account :: account
  lc_genesis_amount :: amount
  lc_burn_account :: account
  lc_epochs :: epochs

definition genesis_sideband :: "account \<Rightarrow> block_sideband" where
  "genesis_sideband a = \<lparr>sd_height = 1, sd_timestamp = 0, sd_account = a, sd_balance = amount_MAX,
     sd_details = block_details_new Epoch0 False False False, sd_source_epoch = Epoch0\<rparr>"

text \<open>The bytes of \<^verbatim>\<open>epoch v1 block\<close> and \<^verbatim>\<open>epoch v2 block\<close>.\<close>

definition epoch_v1_link :: link where
  "epoch_v1_link = from_be_bytes
     ([0x65, 0x70, 0x6f, 0x63, 0x68, 0x20, 0x76, 0x31, 0x20, 0x62, 0x6c, 0x6f, 0x63, 0x6b] @
      replicate 18 0)"

definition epoch_v2_link :: link where
  "epoch_v2_link = from_be_bytes
     ([0x65, 0x70, 0x6f, 0x63, 0x68, 0x20, 0x76, 0x32, 0x20, 0x62, 0x6c, 0x6f, 0x63, 0x6b] @
      replicate 18 0)"

text \<open>
  \<^verbatim>\<open>LedgerConstants::new\<close>, for the genesis block and the second epoch signer
  that the network selects. The account field of the genesis block is unwrapped.
\<close>

definition ledger_constants_new :: "work_thresholds \<Rightarrow> block \<Rightarrow> public_key \<Rightarrow> ledger_constants option" where
  "ledger_constants_new work genesis_block epoch_2_signer = do {
     genesis_account \<leftarrow> account_field genesis_block;
     let es = epochs_add [] Epoch1 genesis_account epoch_v1_link;
     let es = epochs_add es Epoch2 epoch_2_signer epoch_v2_link;
     Some \<lparr>lc_work = work,
       lc_genesis_block = saved_block_new genesis_block (genesis_sideband genesis_account),
       lc_genesis_account = genesis_account, lc_genesis_amount = amount_MAX, lc_burn_account = 0,
       lc_epochs = es\<rparr>
   }"

section \<open>All blocks\<close>

definition any_block_exists :: "'a lmdb_store_scheme \<Rightarrow> block_hash \<Rightarrow> bool" where
  "any_block_exists s h = (if h = 0 then False else block_exists_in_store s h)"

definition any_get_block :: "'a lmdb_store_scheme \<Rightarrow> block_hash \<Rightarrow> saved_block option" where
  "any_get_block s h = (if h = 0 then None else block_get s h)"

definition any_get_account :: "'a lmdb_store_scheme \<Rightarrow> account \<Rightarrow> account_info option" where
  "any_get_account s a = account_get s a"

definition account_head :: "'a lmdb_store_scheme \<Rightarrow> account \<Rightarrow> block_hash option" where
  "account_head s a = map_option ai_head (any_get_account s a)"

definition any_account_balance :: "'a lmdb_store_scheme \<Rightarrow> account \<Rightarrow> amount" where
  "any_account_balance s a =
     (case account_head s a of
        None \<Rightarrow> 0
      | Some head \<Rightarrow> unwrap_or_zero (map_option saved_balance (any_get_block s head)))"

definition get_pending :: "'a lmdb_store_scheme \<Rightarrow> pending_key \<Rightarrow> pending_info option" where
  "get_pending s k = pending_get s k"

definition block_account :: "'a lmdb_store_scheme \<Rightarrow> block_hash \<Rightarrow> account option" where
  "block_account s h = map_option saved_account (any_get_block s h)"

definition block_balance :: "'a lmdb_store_scheme \<Rightarrow> block_hash \<Rightarrow> amount option" where
  "block_balance s h = (if h = 0 then None else map_option saved_balance (any_get_block s h))"

definition block_successor_by_qualified_root ::
    "'a lmdb_store_scheme \<Rightarrow> qualified_root \<Rightarrow> block_hash option" where
  "block_successor_by_qualified_root s r =
     (if qr_previous r \<noteq> 0 then successor_get s (qr_previous r)
      else map_option ai_open_block (any_get_account s (qr_root r)))"

definition any_previous_block :: "'a lmdb_store_scheme \<Rightarrow> saved_block \<Rightarrow> saved_block option" where
  "any_previous_block s b =
     (if saved_previous b = 0 then None else any_get_block s (saved_previous b))"

definition any_block_priority :: "'a lmdb_store_scheme \<Rightarrow> saved_block \<Rightarrow> block_priority" where
  "any_block_priority s b = block_priority_for b (any_previous_block s b)"

definition linked_account :: "'a lmdb_store_scheme \<Rightarrow> saved_block \<Rightarrow> account option" where
  "linked_account s b =
     (if saved_is_send b then Some (destination_or_link (svb_block b))
      else if saved_is_receive b then block_account s (source_or_link (svb_block b))
      else None)"

definition block_amount_for :: "'a lmdb_store_scheme \<Rightarrow> saved_block \<Rightarrow> amount option" where
  "block_amount_for s b =
     (let block_balance' = saved_balance b in
      if saved_previous b = 0 then Some block_balance'
      else do {
        previous_balance \<leftarrow> block_balance s (saved_previous b);
        if block_balance' > previous_balance then Some (amount_sub block_balance' previous_balance)
        else Some (amount_sub previous_balance block_balance')
      })"

definition block_amount :: "'a lmdb_store_scheme \<Rightarrow> block_hash \<Rightarrow> amount option" where
  "block_amount s h = do { b \<leftarrow> any_get_block s h; block_amount_for s b }"

definition latest_root :: "'a lmdb_store_scheme \<Rightarrow> account \<Rightarrow> root" where
  "latest_root s a = (case any_get_account s a of Some i \<Rightarrow> ai_head i | None \<Rightarrow> a)"

definition weight_exact :: "'a lmdb_store_scheme \<Rightarrow> public_key \<Rightarrow> amount" where
  "weight_exact s r = unwrap_or_zero (rep_weight_get s r)"

section \<open>Receivable entries\<close>

record receivable_iterator =
  ri_returned_account :: "account option"
  ri_inner :: "(pending_key \<times> pending_info) list"
  ri_is_first :: bool

definition receivable_iterator_new :: "'a lmdb_store_scheme \<Rightarrow> account \<Rightarrow> account option \<Rightarrow>
    block_hash option \<Rightarrow> receivable_iterator" where
  "receivable_iterator_new s requested_account returned_account next_hash = \<lparr>
     ri_returned_account = returned_account,
     ri_inner = (case next_hash of
         None \<Rightarrow> []
       | Some h \<Rightarrow> (case pending_iter_range (Included (PendingKey requested_account h)) Unbounded s of
           None \<Rightarrow> [] | Some rs \<Rightarrow> rs)),
     ri_is_first = True\<rparr>"

definition receivable_iterator_next ::
    "receivable_iterator \<Rightarrow> (pending_key \<times> pending_info) option \<times> receivable_iterator" where
  "receivable_iterator_next it =
     (case ri_inner it of
        [] \<Rightarrow> (None, it\<lparr>ri_is_first := False\<rparr>)
      | (key, info) # rest \<Rightarrow>
          let it' = it\<lparr>ri_inner := rest, ri_is_first := False\<rparr> in
          if ri_is_first it then
            (case ri_returned_account it of
               Some returned_acc \<Rightarrow>
                 if returned_acc \<noteq> receiving_account key then (None, it') else (Some (key, info), it')
             | None \<Rightarrow>
                 (Some (key, info), it'\<lparr>ri_returned_account := Some (receiving_account key)\<rparr>))
          else
            (case ri_returned_account it of
               Some acc \<Rightarrow> if receiving_account key = acc then (Some (key, info), it') else (None, it')
             | None \<Rightarrow> (None, it')))"

text \<open>A \<^verbatim>\<open>for\<close> loop over the iterator ends at its first \<^verbatim>\<open>None\<close>.\<close>

function receivable_collect :: "receivable_iterator \<Rightarrow> (pending_key \<times> pending_info) list" where
  "receivable_collect it =
     (case receivable_iterator_next it of
        (None, _) \<Rightarrow> []
      | (Some r, it') \<Rightarrow> r # receivable_collect it')"
  by pat_completeness auto
termination
  by (relation "measure (\<lambda>it. length (ri_inner it))")
    (auto simp: receivable_iterator_next_def Let_def split: list.splits if_splits option.splits)

declare receivable_collect.simps [simp del]

definition account_receivable_upper_bound ::
    "'a lmdb_store_scheme \<Rightarrow> account \<Rightarrow> block_hash \<Rightarrow> receivable_iterator" where
  "account_receivable_upper_bound s a h = receivable_iterator_new s a (Some a) (u256_inc h)"

definition receivable_upper_bound :: "'a lmdb_store_scheme \<Rightarrow> account \<Rightarrow> receivable_iterator" where
  "receivable_upper_bound s a =
     (case u256_inc a of
        None \<Rightarrow> receivable_iterator_new s 0 None None
      | Some a' \<Rightarrow> receivable_iterator_new s a' None (Some 0))"

definition receivable_lower_bound :: "'a lmdb_store_scheme \<Rightarrow> account \<Rightarrow> receivable_iterator" where
  "receivable_lower_bound s a = receivable_iterator_new s a None (Some 0)"

definition any_account_receivable :: "'a lmdb_store_scheme \<Rightarrow> account \<Rightarrow> amount" where
  "any_account_receivable s a =
     fold (\<lambda>(_, info) result. amount_add result (pi_amount info))
       (receivable_collect (account_receivable_upper_bound s a 0)) 0"

definition receivable_exists :: "'a lmdb_store_scheme \<Rightarrow> account \<Rightarrow> bool" where
  "receivable_exists s a =
     (fst (receivable_iterator_next (account_receivable_upper_bound s a 0)) \<noteq> None)"

lemma receivable_collect_account:
  "receivable_collect \<lparr>ri_returned_account = Some a, ri_inner = rs, ri_is_first = f\<rparr> =
     takeWhile (\<lambda>r. receiving_account (fst r) = a) rs"
proof (induction rs arbitrary: f)
  case (Cons r rs)
  then show ?case
    by (cases r) (simp add: receivable_collect.simps receivable_iterator_next_def Let_def)
qed (simp add: receivable_collect.simps receivable_iterator_next_def)

lemma account_entries_prefix:
  assumes "sorted (map fst rs)" "\<And>r. r \<in> set rs \<Longrightarrow> PendingKey a h \<le> fst r"
  shows "takeWhile (\<lambda>r. receiving_account (fst r) = a) rs =
    filter (\<lambda>r. receiving_account (fst r) = a) rs"
proof -
  have ge: "r \<in> set rs \<Longrightarrow> a \<le> receiving_account (fst r)" for r
    using assms(2) [of r] by (auto simp: less_eq_pending_key_def less_pending_key_def)
  have mono: "k \<le> k' \<Longrightarrow> receiving_account k' \<le> a \<Longrightarrow> receiving_account k \<le> a" for k k'
    by (auto simp: less_eq_pending_key_def less_pending_key_def)
  have "takeWhile (\<lambda>r. receiving_account (fst r) = a) rs =
      takeWhile (\<lambda>r. receiving_account (fst r) \<le> a) rs"
    using ge by (intro takeWhile_cong) (auto intro: antisym)
  also have "\<dots> = filter (\<lambda>r. receiving_account (fst r) \<le> a) rs"
    using assms(1) mono by (rule takeWhile_sorted_filter)
  also have "\<dots> = filter (\<lambda>r. receiving_account (fst r) = a) rs"
    using ge by (intro filter_cong) (auto intro: antisym)
  finally show ?thesis .
qed

text \<open>The receivable entries of an account after a hash, in the order of the table.\<close>

lemma u256_inc_0 [simp]: "u256_inc 0 = Some 1"
  by (simp add: u256_inc_eq_Some)

lemma word_ge_1: "(1 :: 'a::len word) \<le> w \<longleftrightarrow> w \<noteq> 0"
  by (metis linorder_not_less word_less_1)

lemma receivable_entries:
  "receivable_collect (account_receivable_upper_bound s a 0) =
     filter (\<lambda>r. receiving_account (fst r) = a \<and> send_block_hash (fst r) \<noteq> 0)
       (tbl_entries (st_pending s))"
proof -
  let ?rs = "filter (\<lambda>r. PendingKey a 1 \<le> fst r) (tbl_entries (st_pending s))"
  have "sorted (map fst ?rs)"
    using lmdb.entries_keys by (auto intro: sorted_filter)
  then have "takeWhile (\<lambda>r. receiving_account (fst r) = a) ?rs =
      filter (\<lambda>r. receiving_account (fst r) = a) ?rs"
    by (rule account_entries_prefix [where h = 1]) simp
  moreover have "PendingKey a 1 \<le> k \<and> receiving_account k = a \<longleftrightarrow>
      receiving_account k = a \<and> send_block_hash k \<noteq> 0" for k
    by (auto simp: less_eq_pending_key_def less_pending_key_def word_ge_1)
  ultimately show ?thesis
    by (simp only: account_receivable_upper_bound_def receivable_iterator_new_def u256_inc_0
        option.case pending_iter_range_def range_iter_from receivable_collect_account filter_filter)
qed

lemma receivable_exists_collect:
  "receivable_exists s a \<longleftrightarrow> receivable_collect (account_receivable_upper_bound s a 0) \<noteq> []"
  by (subst receivable_collect.simps)
    (auto simp: receivable_exists_def split: prod.splits option.splits)

lemma receivable_exists_iff:
  "receivable_exists s a \<longleftrightarrow>
     (\<exists>h. h \<noteq> 0 \<and> tbl_get (st_pending s) (PendingKey a h) \<noteq> None)"
  unfolding receivable_exists_collect receivable_entries filter_empty_conv
  using lmdb.entries_get [where t = "st_pending s"]
  by (auto simp: Bex_def)

lemma fold_amount_add:
  "fold (\<lambda>(k, i) result. amount_add result (pi_amount i)) rs r0 =
     r0 + of_nat (\<Sum>(k, i)\<leftarrow>rs. unat (pi_amount i))"
  by (induction rs arbitrary: r0) (auto simp: amount_add_def algebra_simps)

lemma any_account_receivable_eq:
  "any_account_receivable s a = of_nat
     (\<Sum>(k, i)\<leftarrow>filter (\<lambda>r. receiving_account (fst r) = a \<and> send_block_hash (fst r) \<noteq> 0)
        (tbl_entries (st_pending s)). unat (pi_amount i))"
  by (simp add: any_account_receivable_def receivable_entries fold_amount_add)

section \<open>Confirmed and unconfirmed blocks\<close>

definition get_conf_info :: "'a lmdb_store_scheme \<Rightarrow> account \<Rightarrow> confirmation_height_info option" where
  "get_conf_info s a = conf_height_get s a"

definition confirmed_get_block :: "'a lmdb_store_scheme \<Rightarrow> block_hash \<Rightarrow> saved_block option" where
  "confirmed_get_block s h =
     (if h = 0 then None
      else do {
        b \<leftarrow> block_get s h;
        conf_info \<leftarrow> conf_height_get s (saved_account b);
        if saved_height b \<le> ch_height conf_info then Some b else None
      })"

definition confirmed_block_exists :: "'a lmdb_store_scheme \<Rightarrow> block_hash \<Rightarrow> bool" where
  "confirmed_block_exists s h = (confirmed_get_block s h \<noteq> None)"

definition confirmed_account_head :: "'a lmdb_store_scheme \<Rightarrow> account \<Rightarrow> block_hash option" where
  "confirmed_account_head s a = map_option ch_frontier (conf_height_get s a)"

definition confirmed_account_balance :: "'a lmdb_store_scheme \<Rightarrow> account \<Rightarrow> amount" where
  "confirmed_account_balance s a =
     (case confirmed_account_head s a of
        None \<Rightarrow> 0
      | Some head \<Rightarrow> unwrap_or_zero (map_option saved_balance (confirmed_get_block s head)))"

definition confirmed_account_receivable :: "'a lmdb_store_scheme \<Rightarrow> account \<Rightarrow> amount" where
  "confirmed_account_receivable s a =
     fold (\<lambda>(key, info) result.
         if confirmed_block_exists s (send_block_hash key) then amount_add result (pi_amount info)
         else result)
       (receivable_collect (account_receivable_upper_bound s a 0)) 0"

definition unconfirmed_block_exists :: "'a lmdb_store_scheme \<Rightarrow> block_hash \<Rightarrow> bool" where
  "unconfirmed_block_exists s h =
     (if h = 0 then False
      else (case block_get s h of
          None \<Rightarrow> False
        | Some b \<Rightarrow> saved_height b > ch_height
            (case conf_height_get s (saved_account b) of
               None \<Rightarrow> confirmation_height_info_default | Some i \<Rightarrow> i)))"

definition confirmed_frontiers :: "'a lmdb_store_scheme \<Rightarrow> (account \<times> block_hash) list" where
  "confirmed_frontiers s =
     map (\<lambda>(a, i). (a, ch_frontier i)) (tbl_entries (st_confirmation_height s))"

text \<open>The first entry from a key on whose send block is confirmed.\<close>

definition first_receivable_lower_bound :: "'a lmdb_store_scheme \<Rightarrow> account \<Rightarrow> block_hash \<Rightarrow>
    (pending_key \<times> pending_info) option" where
  "first_receivable_lower_bound s a h =
     (case pending_iter_range (Included (PendingKey a h)) Unbounded s of
        None \<Rightarrow> None
      | Some rs \<Rightarrow> find (\<lambda>r. confirmed_block_exists s (send_block_hash (fst r))) rs)"

record confirmed_receivable_iterator =
  cri_requested_account :: account
  cri_actual_account :: "account option"
  cri_next_hash :: "block_hash option"

definition confirmed_receivable_next :: "'a lmdb_store_scheme \<Rightarrow> confirmed_receivable_iterator \<Rightarrow>
    (pending_key \<times> pending_info) option \<times> confirmed_receivable_iterator" where
  "confirmed_receivable_next s it =
     (case cri_next_hash it of
        None \<Rightarrow> (None, it)
      | Some h \<Rightarrow>
          (case first_receivable_lower_bound s
              (case cri_actual_account it of Some a \<Rightarrow> a | None \<Rightarrow> cri_requested_account it) h of
             None \<Rightarrow> (None, it)
           | Some (key, info) \<Rightarrow>
               (case cri_actual_account it of
                  Some a \<Rightarrow>
                    if receiving_account key = a then
                      (Some (key, info), it\<lparr>cri_next_hash := u256_inc (send_block_hash key)\<rparr>)
                    else (None, it)
                | None \<Rightarrow>
                    (Some (key, info),
                     it\<lparr>cri_actual_account := Some (receiving_account key),
                        cri_next_hash := u256_inc (send_block_hash key)\<rparr>))))"

text \<open>A stored block is confirmed or unconfirmed, never both.\<close>

lemma confirmed_xor_unconfirmed:
  assumes "h \<noteq> 0" "block_get s h = Some b" "0 < saved_height b"
  shows "confirmed_block_exists s h \<longleftrightarrow> \<not> unconfirmed_block_exists s h"
  using assms
  by (auto simp: confirmed_block_exists_def confirmed_get_block_def unconfirmed_block_exists_def
      confirmation_height_info_default_def not_less word_gt_0 split: option.splits Option.bind_splits)

section \<open>Dependencies\<close>

definition dependent_blocks :: "ledger_constants \<Rightarrow> saved_block \<Rightarrow> dependent_blocks" where
  "dependent_blocks C b = saved_dependent_blocks (lc_epochs C) (lc_genesis_account C) b"

definition unsaved_is_send :: "'a lmdb_store_scheme \<Rightarrow> state_block \<Rightarrow> bool" where
  "unsaved_is_send s b =
     (if sth_previous (stb_hashables b) = 0 then False
      else sth_balance (stb_hashables b) <
        unwrap_or_zero (block_balance s (sth_previous (stb_hashables b))))"

definition is_receive_or_change :: "ledger_constants \<Rightarrow> 'a lmdb_store_scheme \<Rightarrow> state_block \<Rightarrow> bool" where
  "is_receive_or_change C s b =
     (\<not> is_epoch_link (lc_epochs C) (sth_link (stb_hashables b)) \<and> \<not> unsaved_is_send s b)"

definition find_dependent_blocks_for_unsaved_block ::
    "ledger_constants \<Rightarrow> 'a lmdb_store_scheme \<Rightarrow> block \<Rightarrow> dependent_blocks" where
  "find_dependent_blocks_for_unsaved_block C s b =
     (case b of
        LegacySend i \<Rightarrow> DependentBlocks (sh_previous (sb_hashables i)) 0
      | LegacyChange i \<Rightarrow> DependentBlocks (chh_previous (cb_hashables i)) 0
      | LegacyReceive i \<Rightarrow>
          DependentBlocks (rh_previous (rb_hashables i)) (rh_source (rb_hashables i))
      | LegacyOpen i \<Rightarrow> open_dependent_blocks (lc_genesis_account C) i
      | State i \<Rightarrow>
          DependentBlocks (block_previous b)
            (if is_receive_or_change C s i then sth_link (stb_hashables i) else 0))"

definition dependents_confirmed :: "ledger_constants \<Rightarrow> 'a lmdb_store_scheme \<Rightarrow> saved_block \<Rightarrow> bool" where
  "dependents_confirmed C s b =
     list_all (confirmed_block_exists s) (dependents_iter (dependent_blocks C b))"

definition dependents_confirmed_for_unsaved_block ::
    "ledger_constants \<Rightarrow> 'a lmdb_store_scheme \<Rightarrow> block \<Rightarrow> bool" where
  "dependents_confirmed_for_unsaved_block C s b =
     list_all (confirmed_block_exists s)
       (dependents_iter (find_dependent_blocks_for_unsaved_block C s b))"

section \<open>Walking back a chain\<close>

text \<open>One round of \<^verbatim>\<open>find_rep_block\<close>: the next block and the result so far.\<close>

definition rep_step :: "saved_block \<Rightarrow> block_hash \<times> block_hash" where
  "rep_step b =
     (case svb_block b of
        LegacySend _ \<Rightarrow> (saved_previous b, 0)
      | LegacyReceive _ \<Rightarrow> (saved_previous b, 0)
      | LegacyOpen _ \<Rightarrow> (0, saved_hash b)
      | LegacyChange _ \<Rightarrow> (0, saved_hash b)
      | State _ \<Rightarrow> (0, saved_hash b))"

text \<open>The loop may not end on a damaged store; \<open>None\<close> is the run that does not return.\<close>

partial_function (option) find_rep_block :: "'a lmdb_store_scheme \<Rightarrow> block_hash \<Rightarrow> block_hash option" where
  "find_rep_block s current =
     (case block_get s current of
        None \<Rightarrow> Some 0
      | Some b \<Rightarrow>
          (let (next, result) = rep_step b in
           if result = 0 then find_rep_block s next else Some result))"

partial_function (option) find_receive_loop ::
    "'a lmdb_store_scheme \<Rightarrow> block_hash \<Rightarrow> saved_block option \<Rightarrow> saved_block option option" where
  "find_receive_loop s send_hash possible =
     (case possible of
        None \<Rightarrow> Some None
      | Some current \<Rightarrow>
          if saved_is_receive current \<and> Some send_hash = saved_source current
          then Some (Some current)
          else find_receive_loop s send_hash (any_get_block s (saved_previous current)))"

definition find_receive_block_by_send_hash ::
    "'a lmdb_store_scheme \<Rightarrow> account \<Rightarrow> block_hash \<Rightarrow> saved_block option option" where
  "find_receive_block_by_send_hash s destination send_hash =
     (case get_conf_info s destination of
        None \<Rightarrow> Some None
      | Some info \<Rightarrow> find_receive_loop s send_hash (any_get_block s (ch_frontier info)))"

text \<open>Every chain walked by height ends.\<close>

lemma find_rep_block_returns:
  assumes chain: "\<And>h b. block_get s h = Some b \<Longrightarrow> saved_hash b \<noteq> 0 \<and> (saved_previous b \<noteq> 0 \<longrightarrow>
      (\<exists>p. block_get s (saved_previous b) = Some p \<and> unat (saved_height p) < unat (saved_height b)))"
    and zero: "block_get s 0 = None"
    and "block_get s h = Some b"
  shows "\<exists>r. find_rep_block s h = Some r"
  using assms(3)
proof (induction "unat (saved_height b)" arbitrary: h b rule: less_induct)
  case less
  obtain nxt res where step: "rep_step b = (nxt, res)" by (cases "rep_step b")
  have "res = 0 \<Longrightarrow> nxt = saved_previous b"
    using step chain [OF less.prems] by (auto simp: rep_step_def split: block.splits)
  moreover have "\<exists>r. find_rep_block s (saved_previous b) = Some r"
  proof (cases "saved_previous b = 0")
    case True
    then show ?thesis using zero by (subst find_rep_block.simps) simp
  next
    case False
    then show ?thesis using chain [OF less.prems] less.hyps by blast
  qed
  ultimately show ?case
    using less.prems step by (subst find_rep_block.simps) auto
qed

end
