(* ===== verification/Validation.thy ===== *)
theory Validation
  imports Ledger_Sets
begin

text \<open>
  Validation of a block before its insertion:
  \<^verbatim>\<open>ledger/src/block_insertion/validation\<close> and
  \<^verbatim>\<open>validator_factory.rs\<close>. The checks of \<^verbatim>\<open>validate\<close> run in the
  order of the code and the first failing one gives the error. Signature verification is the
  parameter \<open>verify\<close>.
\<close>

section \<open>Results\<close>

datatype block_error = BadSignature | Old | NegativeSpend | Fork | Unreceivable | GapPrevious
  | GapSource | GapEpochOpenPending | OpenedBurnAccount | BalanceMismatch | RepresentativeMismatch
  | BlockPosition | InsufficientWork | Conflict

text \<open>A sequence of checks joined by the \<^verbatim>\<open>?\<close> operator.\<close>

fun first_error :: "('e + unit) list \<Rightarrow> 'e + unit" where
  "first_error [] = Inr ()"
| "first_error (Inl e # rs) = Inl e"
| "first_error (Inr _ # rs) = first_error rs"

lemma first_error_ok [simp]:
  "first_error (Inr () # rs) = first_error rs"
  by simp

lemma first_error_Inr: "first_error rs = Inr () \<longleftrightarrow> (\<forall>r\<in>set rs. r = Inr ())"
  by (induction rs rule: first_error.induct) auto

lemma first_error_append:
  "first_error (rs @ rs') = (case first_error rs of Inl e \<Rightarrow> Inl e | Inr _ \<Rightarrow> first_error rs')"
  by (induction rs rule: first_error.induct) auto

record block_insert_instructions =
  bi_account :: account
  bi_old_account_info :: account_info
  bi_set_account_info :: account_info
  bi_delete_pending :: "pending_key option"
  bi_insert_pending :: "(pending_key \<times> pending_info) option"
  bi_set_sideband :: block_sideband
  bi_is_epoch_block :: bool

record block_validator =
  bv_block :: block
  bv_epochs :: epochs
  bv_work :: work_thresholds
  bv_block_exists :: bool
  bv_account :: account
  bv_previous_block :: "saved_block option"
  bv_old_account_info :: "account_info option"
  bv_pending_receive_info :: "pending_info option"
  bv_any_pending_exists :: bool
  bv_source_block_exists :: bool
  bv_now :: unix_millis_timestamp

section \<open>Helpers\<close>

definition account_exists :: "block_validator \<Rightarrow> bool" where
  "account_exists v = (bv_old_account_info v \<noteq> None)"

definition is_new_account :: "block_validator \<Rightarrow> bool" where
  "is_new_account v = (bv_old_account_info v = None)"

definition previous_balance :: "block_validator \<Rightarrow> amount" where
  "previous_balance v = unwrap_or_zero (map_option saved_balance (bv_previous_block v))"

definition is_send :: "block_validator \<Rightarrow> bool" where
  "is_send v =
     (case bv_block v of
        LegacySend _ \<Rightarrow> True
      | State st \<Rightarrow>
          (case bv_old_account_info v of
             Some info \<Rightarrow> sth_balance (stb_hashables st) < ai_balance info
           | None \<Rightarrow> False)
      | _ \<Rightarrow> False)"

definition has_epoch_link :: "block_validator \<Rightarrow> state_block \<Rightarrow> bool" where
  "has_epoch_link v st = is_epoch_link (bv_epochs v) (sth_link (stb_hashables st))"

definition is_receive :: "block_validator \<Rightarrow> bool" where
  "is_receive v =
     (case bv_block v of
        LegacyReceive _ \<Rightarrow> True
      | LegacyOpen _ \<Rightarrow> True
      | State st \<Rightarrow>
          (if has_epoch_link v st then False
           else (case bv_old_account_info v of
               Some info \<Rightarrow> sth_balance (stb_hashables st) \<ge> ai_balance info \<and>
                 sth_link (stb_hashables st) \<noteq> 0
             | None \<Rightarrow> True))
      | _ \<Rightarrow> False)"

definition source_epoch :: "block_validator \<Rightarrow> epoch" where
  "source_epoch v = (case bv_pending_receive_info v of Some p \<Rightarrow> pi_epoch p | None \<Rightarrow> Epoch0)"

definition pending_amount :: "block_validator \<Rightarrow> amount" where
  "pending_amount v = unwrap_or_zero (map_option pi_amount (bv_pending_receive_info v))"

definition amount_received :: "block_validator \<Rightarrow> amount" where
  "amount_received v =
     (case bv_block v of
        LegacyReceive _ \<Rightarrow> pending_amount v
      | LegacyOpen _ \<Rightarrow> pending_amount v
      | State st \<Rightarrow>
          (if previous_balance v < sth_balance (stb_hashables st)
           then amount_sub (sth_balance (stb_hashables st)) (previous_balance v) else 0)
      | _ \<Rightarrow> 0)"

definition amount_sent :: "block_validator \<Rightarrow> amount" where
  "amount_sent v =
     (case bv_old_account_info v of
        None \<Rightarrow> 0
      | Some info \<Rightarrow>
          (case (case bv_block v of
                   LegacySend i \<Rightarrow> Some (sh_balance (sb_hashables i))
                 | State i \<Rightarrow> Some (sth_balance (stb_hashables i))
                 | _ \<Rightarrow> None) of
             None \<Rightarrow> 0
           | Some balance \<Rightarrow>
               if balance < ai_balance info then amount_sub (ai_balance info) balance else 0))"

definition old_balance :: "block_validator \<Rightarrow> amount" where
  "old_balance v = unwrap_or_zero (map_option ai_balance (bv_old_account_info v))"

definition new_balance :: "block_validator \<Rightarrow> amount" where
  "new_balance v = amount_sub (amount_add (old_balance v) (amount_received v)) (amount_sent v)"

definition is_epoch_block :: "block_validator \<Rightarrow> bool" where
  "is_epoch_block v =
     (case bv_block v of
        State st \<Rightarrow> has_epoch_link v st \<and> previous_balance v = sth_balance (stb_hashables st)
      | _ \<Rightarrow> False)"

definition block_epoch_version :: "block_validator \<Rightarrow> epoch" where
  "block_epoch_version v =
     (case bv_block v of
        State st \<Rightarrow> (case epochs_epoch (bv_epochs v) (sth_link (stb_hashables st)) of
            Some e \<Rightarrow> e | None \<Rightarrow> Invalid)
      | _ \<Rightarrow> Epoch0)"

definition old_epoch_version :: "block_validator \<Rightarrow> epoch" where
  "old_epoch_version v = (case bv_old_account_info v of Some i \<Rightarrow> ai_epoch i | None \<Rightarrow> Epoch0)"

definition validator_epoch :: "block_validator \<Rightarrow> epoch" where
  "validator_epoch v =
     (if is_epoch_block v then block_epoch_version v
      else max (old_epoch_version v) (source_epoch v))"

definition validator_open_block :: "block_validator \<Rightarrow> block_hash" where
  "validator_open_block v =
     (case bv_old_account_info v of
        Some info \<Rightarrow> ai_open_block info | None \<Rightarrow> block_hash_of (bv_block v))"

definition old_representative :: "block_validator \<Rightarrow> public_key" where
  "old_representative v = unwrap_or_zero (map_option ai_representative (bv_old_account_info v))"

definition new_representative :: "block_validator \<Rightarrow> public_key" where
  "new_representative v =
     (case representative_field (bv_block v) of Some r \<Rightarrow> r | None \<Rightarrow> old_representative v)"

definition validator_amount :: "block_validator \<Rightarrow> amount" where
  "validator_amount v =
     (if old_balance v > new_balance v then amount_sub (old_balance v) (new_balance v)
      else amount_sub (new_balance v) (old_balance v))"

definition delete_received_pending_info :: "block_validator \<Rightarrow> pending_key option" where
  "delete_received_pending_info v =
     (if is_receive v then Some (PendingKey (bv_account v) (source_or_link (bv_block v))) else None)"

definition new_pending_info :: "block_validator \<Rightarrow> (pending_key \<times> pending_info) option" where
  "new_pending_info v =
     (case bv_block v of
        State _ \<Rightarrow>
          if is_send v then
            Some (pending_key_for_send_block (bv_block v),
              \<lparr>pi_source = bv_account v, pi_amount = validator_amount v, pi_epoch = validator_epoch v\<rparr>)
          else None
      | LegacySend send \<Rightarrow>
          Some (PendingKey (sh_destination (sb_hashables send)) (sb_hash send),
            \<lparr>pi_source = bv_account v, pi_amount = amount_sent v, pi_epoch = Epoch0\<rparr>)
      | _ \<Rightarrow> None)"

definition new_block_count :: "block_validator \<Rightarrow> u64" where
  "new_block_count v =
     (case bv_old_account_info v of Some info \<Rightarrow> ai_block_count info | None \<Rightarrow> 0) + 1"

definition validator_block_details :: "block_validator \<Rightarrow> block_details" where
  "validator_block_details v =
     block_details_new (validator_epoch v) (is_send v) (is_receive v) (is_epoch_block v)"

definition new_sideband :: "block_validator \<Rightarrow> block_sideband" where
  "new_sideband v = \<lparr>sd_height = new_block_count v, sd_timestamp = bv_now v,
     sd_account = bv_account v, sd_balance = new_balance v, sd_details = validator_block_details v,
     sd_source_epoch = source_epoch v\<rparr>"

definition new_account_info :: "block_validator \<Rightarrow> account_info" where
  "new_account_info v = \<lparr>ai_head = block_hash_of (bv_block v),
     ai_representative = new_representative v, ai_open_block = validator_open_block v,
     ai_balance = new_balance v, ai_modified = unix_from_millis (bv_now v),
     ai_block_count = new_block_count v, ai_epoch = validator_epoch v\<rparr>"

definition balance_changed :: "block_validator \<Rightarrow> bool" where
  "balance_changed v =
     (case bv_old_account_info v of Some info \<Rightarrow> new_balance v \<noteq> ai_balance info | None \<Rightarrow> False)"

section \<open>Common rules\<close>

definition ensure_block_does_not_exist_yet :: "block_validator \<Rightarrow> block_error + unit" where
  "ensure_block_does_not_exist_yet v = (if bv_block_exists v then Inl Old else Inr ())"

definition ensure_valid_signature :: "verifier \<Rightarrow> block_validator \<Rightarrow> block_error + unit" where
  "ensure_valid_signature verify v =
     (if (if is_epoch_block v then validate_epoch_signature verify (bv_epochs v) (bv_block v)
          else verify (bv_account v) (block_hash_of (bv_block v)) (block_signature (bv_block v)))
      then Inr () else Inl BadSignature)"

definition ensure_account_exists_for_none_open_block :: "block_validator \<Rightarrow> block_error + unit" where
  "ensure_account_exists_for_none_open_block v =
     (if \<not> is_open (bv_block v) \<and> is_new_account v then Inl GapPrevious else Inr ())"

definition ensure_previous_block_exists :: "block_validator \<Rightarrow> block_error + unit" where
  "ensure_previous_block_exists v =
     (if account_exists v \<and> bv_previous_block v = None then Inl GapPrevious
      else if is_new_account v \<and> block_previous (bv_block v) \<noteq> 0 then Inl GapPrevious
      else Inr ())"

definition ensure_previous_block_is_account_head :: "block_validator \<Rightarrow> block_error + unit" where
  "ensure_previous_block_is_account_head v =
     (case bv_old_account_info v of
        Some info \<Rightarrow> if block_previous (bv_block v) \<noteq> ai_head info then Inl Fork else Inr ()
      | None \<Rightarrow> Inr ())"

definition ensure_previous_block_is_correct :: "block_validator \<Rightarrow> block_error + unit" where
  "ensure_previous_block_is_correct v =
     first_error [ensure_previous_block_exists v, ensure_previous_block_is_account_head v]"

definition ensure_sufficient_work :: "block_validator \<Rightarrow> block_error + unit" where
  "ensure_sufficient_work v =
     (if \<not> is_valid_pow (bv_work v) (bv_block v) (validator_block_details v)
      then Inl InsufficientWork else Inr ())"

definition ensure_valid_predecessor :: "block_validator \<Rightarrow> block_error + unit" where
  "ensure_valid_predecessor v =
     (if block_previous (bv_block v) = 0 then Inr ()
      else (case bv_previous_block v of
          None \<Rightarrow> Inl GapPrevious
        | Some previous \<Rightarrow>
            if \<not> valid_predecessor (bv_block v) (block_type_of (svb_block previous))
            then Inl BlockPosition else Inr ()))"

section \<open>Rules for epoch blocks\<close>

definition ensure_epoch_block_does_not_change_representative ::
    "block_validator \<Rightarrow> block_error + unit" where
  "ensure_epoch_block_does_not_change_representative v =
     (case bv_block v of
        State st \<Rightarrow>
          if is_epoch_block v then
            (case bv_old_account_info v of
               Some info \<Rightarrow>
                 if sth_representative (stb_hashables st) \<noteq> ai_representative info
                 then Inl RepresentativeMismatch else Inr ()
             | None \<Rightarrow> Inr ())
          else Inr ()
      | _ \<Rightarrow> Inr ())"

definition ensure_epoch_open_has_burn_account_as_rep :: "block_validator \<Rightarrow> block_error + unit" where
  "ensure_epoch_open_has_burn_account_as_rep v =
     (case bv_block v of
        State st \<Rightarrow>
          if is_epoch_block v \<and> is_open (bv_block v) \<and> sth_representative (stb_hashables st) \<noteq> 0
          then Inl RepresentativeMismatch else Inr ()
      | _ \<Rightarrow> Inr ())"

definition ensure_epoch_open_has_pending_entry :: "block_validator \<Rightarrow> block_error + unit" where
  "ensure_epoch_open_has_pending_entry v =
     (if is_open (bv_block v) \<and> is_epoch_block v \<and> \<not> bv_any_pending_exists v
      then Inl GapEpochOpenPending else Inr ())"

definition ensure_valid_epoch_for_unopened_account :: "block_validator \<Rightarrow> block_error + unit" where
  "ensure_valid_epoch_for_unopened_account v =
     (if is_open (bv_block v) \<and> is_epoch_block v \<and> block_epoch_version v = Invalid
      then Inl BlockPosition else Inr ())"

definition ensure_epoch_upgrade_is_sequential_for_existing_account ::
    "block_validator \<Rightarrow> block_error + unit" where
  "ensure_epoch_upgrade_is_sequential_for_existing_account v =
     (if is_epoch_block v then
        (case bv_old_account_info v of
           Some info \<Rightarrow>
             if \<not> is_sequential (ai_epoch info) (block_epoch_version v)
             then Inl BlockPosition else Inr ()
         | None \<Rightarrow> Inr ())
      else Inr ())"

definition ensure_epoch_block_does_not_change_balance :: "block_validator \<Rightarrow> block_error + unit" where
  "ensure_epoch_block_does_not_change_balance v =
     (if is_epoch_block v \<and> balance_changed v then Inl BalanceMismatch else Inr ())"

definition ensure_valid_epoch_block :: "block_validator \<Rightarrow> block_error + unit" where
  "ensure_valid_epoch_block v = first_error [
     ensure_epoch_block_does_not_change_representative v,
     ensure_epoch_open_has_burn_account_as_rep v,
     ensure_epoch_open_has_pending_entry v,
     ensure_valid_epoch_for_unopened_account v,
     ensure_epoch_upgrade_is_sequential_for_existing_account v,
     ensure_epoch_block_does_not_change_balance v]"

definition ensure_epoch_block_candidate_is_signed_by_owner_or_epoch_account ::
    "verifier \<Rightarrow> block_validator \<Rightarrow> block_error + unit" where
  "ensure_epoch_block_candidate_is_signed_by_owner_or_epoch_account verify v =
     (case bv_block v of
        State st \<Rightarrow>
          if has_epoch_link v st \<and> (\<not> state_verify_signature verify st \<and>
            \<not> validate_epoch_signature verify (bv_epochs v) (bv_block v))
          then Inl BadSignature else Inr ()
      | _ \<Rightarrow> Inr ())"

definition ensure_previous_block_exists_for_epoch_block_candidate ::
    "block_validator \<Rightarrow> block_error + unit" where
  "ensure_previous_block_exists_for_epoch_block_candidate v =
     (case bv_block v of
        State st \<Rightarrow>
          if has_epoch_link v st \<and> block_previous (bv_block v) \<noteq> 0 \<and> bv_previous_block v = None
          then Inl GapPrevious else Inr ()
      | _ \<Rightarrow> Inr ())"

definition epoch_block_pre_checks :: "verifier \<Rightarrow> block_validator \<Rightarrow> block_error + unit" where
  "epoch_block_pre_checks verify v = first_error [
     ensure_epoch_block_candidate_is_signed_by_owner_or_epoch_account verify v,
     ensure_previous_block_exists_for_epoch_block_candidate v]"

section \<open>Rules for open, receive and send blocks\<close>

definition ensure_block_is_not_for_burn_account :: "block_validator \<Rightarrow> block_error + unit" where
  "ensure_block_is_not_for_burn_account v =
     (if bv_account v = 0 then Inl OpenedBurnAccount else Inr ())"

definition ensure_no_double_account_open :: "block_validator \<Rightarrow> block_error + unit" where
  "ensure_no_double_account_open v =
     (if account_exists v \<and> is_open (bv_block v) then Inl Fork else Inr ())"

definition ensure_open_block_has_link :: "block_validator \<Rightarrow> block_error + unit" where
  "ensure_open_block_has_link v =
     (case bv_block v of
        State st \<Rightarrow>
          if is_open (bv_block v) \<and> sth_link (stb_hashables st) = 0 then Inl GapSource else Inr ()
      | _ \<Rightarrow> Inr ())"

definition ensure_source_block_exists :: "block_validator \<Rightarrow> block_error + unit" where
  "ensure_source_block_exists v =
     (if is_receive v \<and> \<not> bv_source_block_exists v then Inl GapSource else Inr ())"

definition ensure_receive_block_receives_pending_amount :: "block_validator \<Rightarrow> block_error + unit" where
  "ensure_receive_block_receives_pending_amount v =
     (if is_receive v then
        (case bv_pending_receive_info v of
           Some pending \<Rightarrow>
             if amount_received v \<noteq> pi_amount pending then Inl BalanceMismatch else Inr ()
         | None \<Rightarrow> Inl Unreceivable)
      else Inr ())"

definition ensure_legacy_source_is_epoch_0 :: "block_validator \<Rightarrow> block_error + unit" where
  "ensure_legacy_source_is_epoch_0 v =
     (let is_legacy_receive = (case bv_block v of
          LegacyReceive _ \<Rightarrow> True | LegacyOpen _ \<Rightarrow> True | _ \<Rightarrow> False) in
      if is_legacy_receive \<and>
        (case bv_pending_receive_info v of Some x \<Rightarrow> pi_epoch x | None \<Rightarrow> epoch_default) \<noteq> Epoch0
      then Inl Unreceivable else Inr ())"

definition ensure_pending_receive_is_correct :: "block_validator \<Rightarrow> block_error + unit" where
  "ensure_pending_receive_is_correct v = first_error [
     ensure_source_block_exists v,
     ensure_receive_block_receives_pending_amount v,
     ensure_legacy_source_is_epoch_0 v]"

definition ensure_no_reveive_balance_change_without_link :: "block_validator \<Rightarrow> block_error + unit" where
  "ensure_no_reveive_balance_change_without_link v =
     (case bv_block v of
        State st \<Rightarrow>
          if sth_link (stb_hashables st) = 0 \<and> amount_received v \<noteq> 0 then Inl BalanceMismatch
          else Inr ()
      | _ \<Rightarrow> Inr ())"

definition ensure_no_negative_amount_send :: "block_validator \<Rightarrow> block_error + unit" where
  "ensure_no_negative_amount_send v =
     (case bv_block v of
        LegacySend send \<Rightarrow>
          if previous_balance v < sh_balance (sb_hashables send) then Inl NegativeSpend else Inr ()
      | _ \<Rightarrow> Inr ())"

section \<open>The validator\<close>

definition create_instructions :: "block_validator \<Rightarrow> block_insert_instructions" where
  "create_instructions v = \<lparr>
     bi_account = bv_account v,
     bi_old_account_info = (case bv_old_account_info v of Some i \<Rightarrow> i | None \<Rightarrow> account_info_default),
     bi_set_account_info = new_account_info v,
     bi_delete_pending = delete_received_pending_info v,
     bi_insert_pending = new_pending_info v,
     bi_set_sideband = new_sideband v,
     bi_is_epoch_block = is_epoch_block v\<rparr>"

definition validator_checks :: "verifier \<Rightarrow> block_validator \<Rightarrow> (block_error + unit) list" where
  "validator_checks verify v = [
     epoch_block_pre_checks verify v,
     ensure_block_does_not_exist_yet v,
     ensure_valid_predecessor v,
     ensure_valid_signature verify v,
     ensure_block_is_not_for_burn_account v,
     ensure_account_exists_for_none_open_block v,
     ensure_no_double_account_open v,
     ensure_previous_block_is_correct v,
     ensure_open_block_has_link v,
     ensure_no_reveive_balance_change_without_link v,
     ensure_pending_receive_is_correct v,
     ensure_sufficient_work v,
     ensure_no_negative_amount_send v,
     ensure_valid_epoch_block v]"

definition validate :: "verifier \<Rightarrow> block_validator \<Rightarrow> block_error + block_insert_instructions" where
  "validate verify v =
     (case first_error (validator_checks verify v) of
        Inl e \<Rightarrow> Inl e
      | Inr _ \<Rightarrow> Inr (create_instructions v))"

section \<open>The factory\<close>

definition factory_load_previous_block :: "'a lmdb_store_scheme \<Rightarrow> block \<Rightarrow> saved_block option" where
  "factory_load_previous_block s b =
     (if block_previous b \<noteq> 0 then any_get_block s (block_previous b) else None)"

definition factory_get_account :: "block \<Rightarrow> saved_block option \<Rightarrow> account option" where
  "factory_get_account b previous =
     (case account_field b of
        Some a \<Rightarrow> Some a
      | None \<Rightarrow> (case previous of Some p \<Rightarrow> Some (saved_account p) | None \<Rightarrow> None))"

definition create_validator ::
    "ledger_constants \<Rightarrow> 'a lmdb_store_scheme \<Rightarrow> unix_millis_timestamp \<Rightarrow> block \<Rightarrow> block_validator" where
  "create_validator C s now b =
     (let previous_block = factory_load_previous_block s b;
          account = unwrap_or_zero (factory_get_account b previous_block);
          source_block = source_or_link b;
          source_block_exists = (source_block \<noteq> 0 \<and> any_block_exists s source_block);
          pending_receive_info =
            (if source_block = 0 then None else get_pending s (PendingKey account source_block))
      in \<lparr>bv_block = b, bv_epochs = lc_epochs C, bv_work = lc_work C,
          bv_block_exists = any_block_exists s (block_hash_of b),
          bv_account = account,
          bv_previous_block = previous_block,
          bv_old_account_info = any_get_account s account,
          bv_pending_receive_info = pending_receive_info,
          bv_any_pending_exists = receivable_exists s account,
          bv_source_block_exists = source_block_exists,
          bv_now = now\<rparr>)"

section \<open>What an accepted block satisfies\<close>

lemmas check_defs =
  ensure_block_does_not_exist_yet_def ensure_valid_signature_def
  ensure_account_exists_for_none_open_block_def ensure_previous_block_exists_def
  ensure_previous_block_is_account_head_def ensure_previous_block_is_correct_def
  ensure_sufficient_work_def ensure_valid_predecessor_def
  ensure_epoch_block_does_not_change_representative_def
  ensure_epoch_open_has_burn_account_as_rep_def ensure_epoch_open_has_pending_entry_def
  ensure_valid_epoch_for_unopened_account_def
  ensure_epoch_upgrade_is_sequential_for_existing_account_def
  ensure_epoch_block_does_not_change_balance_def ensure_valid_epoch_block_def
  ensure_epoch_block_candidate_is_signed_by_owner_or_epoch_account_def
  ensure_previous_block_exists_for_epoch_block_candidate_def epoch_block_pre_checks_def
  ensure_block_is_not_for_burn_account_def ensure_no_double_account_open_def
  ensure_open_block_has_link_def ensure_source_block_exists_def
  ensure_receive_block_receives_pending_amount_def ensure_legacy_source_is_epoch_0_def
  ensure_pending_receive_is_correct_def ensure_no_reveive_balance_change_without_link_def
  ensure_no_negative_amount_send_def

lemma validate_Inr:
  "validate verify v = Inr ins \<longleftrightarrow>
     (\<forall>c\<in>set (validator_checks verify v). c = Inr ()) \<and> ins = create_instructions v"
  by (auto simp: validate_def first_error_Inr [symmetric] split: sum.splits)

lemma validate_InrD:
  assumes "validate verify v = Inr ins"
  shows "ins = create_instructions v"
    and "epoch_block_pre_checks verify v = Inr ()"
    and "ensure_block_does_not_exist_yet v = Inr ()"
    and "ensure_valid_predecessor v = Inr ()"
    and "ensure_valid_signature verify v = Inr ()"
    and "ensure_block_is_not_for_burn_account v = Inr ()"
    and "ensure_account_exists_for_none_open_block v = Inr ()"
    and "ensure_no_double_account_open v = Inr ()"
    and "ensure_previous_block_exists v = Inr ()"
    and "ensure_previous_block_is_account_head v = Inr ()"
    and "ensure_open_block_has_link v = Inr ()"
    and "ensure_no_reveive_balance_change_without_link v = Inr ()"
    and "ensure_source_block_exists v = Inr ()"
    and "ensure_receive_block_receives_pending_amount v = Inr ()"
    and "ensure_legacy_source_is_epoch_0 v = Inr ()"
    and "ensure_sufficient_work v = Inr ()"
    and "ensure_no_negative_amount_send v = Inr ()"
    and "ensure_valid_epoch_block v = Inr ()"
  using assms
  by (simp_all add: validate_Inr validator_checks_def ensure_previous_block_is_correct_def
      ensure_pending_receive_is_correct_def first_error_Inr)

end
