(* ===== verification/Insertion.thy ===== *)
theory Insertion
  imports Validation
begin

text \<open>
  Insertion of validated blocks: \<^verbatim>\<open>ledger/src/block_insertion/block_inserter.rs\<close>
  and the functions \<^verbatim>\<open>update_account\<close>, \<^verbatim>\<open>process_batch\<close> and
  \<^verbatim>\<open>process_one\<close> of \<^verbatim>\<open>ledger.rs\<close>. A panic is \<open>None\<close>; the
  clock is an argument (the time that is read when the validator of a block is created).
\<close>

section \<open>Accounts\<close>

definition update_account ::
    "account \<Rightarrow> account_info \<Rightarrow> account_info \<Rightarrow> ledger \<Rightarrow> ledger option" where
  "update_account a old_info new_info L =
     (if ai_head new_info \<noteq> 0 then do {
        let L = (if ai_head old_info = 0 \<and> ai_open_block new_info = ai_head new_info
          then L\<lparr>cache_account_count := cache_account_count L + 1\<rparr> else L);
        L \<leftarrow> (if ai_head old_info \<noteq> 0 \<and> ai_epoch old_info \<noteq> ai_epoch new_info
          then account_del a L else Some L);
        Some (account_put a new_info L)
      }
      else do {
        L \<leftarrow> account_del a L;
        Some (L\<lparr>cache_account_count := cache_account_count L - 1\<rparr>)
      })"

section \<open>The inserter\<close>

definition get_current_account_info :: "block_insert_instructions \<Rightarrow> ledger \<Rightarrow> account_info" where
  "get_current_account_info ins L =
     (case account_get L (bi_account ins) of Some i \<Rightarrow> i | None \<Rightarrow> account_info_default)"

definition account_changed_since_validation :: "block_insert_instructions \<Rightarrow> ledger \<Rightarrow> bool" where
  "account_changed_since_validation ins L \<longleftrightarrow>
     ai_head (get_current_account_info ins L) \<noteq> ai_head (bi_old_account_info ins)"

definition delete_old_pending_info :: "block_insert_instructions \<Rightarrow> ledger \<Rightarrow> ledger option" where
  "delete_old_pending_info ins L =
     (case bi_delete_pending ins of Some key \<Rightarrow> pending_del key L | None \<Rightarrow> Some L)"

definition insert_new_pending_info :: "block_insert_instructions \<Rightarrow> ledger \<Rightarrow> ledger" where
  "insert_new_pending_info ins L =
     (case bi_insert_pending ins of Some (key, info) \<Rightarrow> pending_put key info L | None \<Rightarrow> L)"

definition update_representative_cache :: "block_insert_instructions \<Rightarrow> ledger \<Rightarrow> ledger option" where
  "update_representative_cache ins L =
     (if ai_head (bi_old_account_info ins) \<noteq> 0 then
        representation_add_dual
          (ai_representative (bi_old_account_info ins))
          (amount_wrapping_sub 0 (ai_balance (bi_old_account_info ins)))
          (ai_representative (bi_set_account_info ins))
          (ai_balance (bi_set_account_info ins)) L
      else
        representation_add
          (ai_representative (bi_set_account_info ins))
          (ai_balance (bi_set_account_info ins)) L)"

definition insert_block ::
    "block \<Rightarrow> block_insert_instructions \<Rightarrow> ledger \<Rightarrow> (saved_block option \<times> ledger) option" where
  "insert_block b ins L =
     (if account_changed_since_validation ins L then Some (None, L)
      else do {
        let saved_block = saved_block_new b (bi_set_sideband ins);
        L \<leftarrow> block_put saved_block L;
        let L = (if saved_previous saved_block \<noteq> 0
          then successor_put (saved_previous saved_block) (saved_hash saved_block) L else L);
        L \<leftarrow> update_account (bi_account ins) (bi_old_account_info ins) (bi_set_account_info ins) L;
        L \<leftarrow> delete_old_pending_info ins L;
        let L = insert_new_pending_info ins L;
        L \<leftarrow> update_representative_cache ins L;
        let L = L\<lparr>cache_block_count := cache_block_count L + 1\<rparr>;
        Some (Some saved_block, L)
      })"

section \<open>Batches\<close>

type_synonym processed = "(block_error + unit) \<times> saved_block option"

text \<open>All blocks are validated against one snapshot before the first one is inserted.\<close>

definition validate_batch :: "verifier \<Rightarrow> ledger_constants \<Rightarrow> ledger \<Rightarrow>
    (block \<times> unix_millis_timestamp) list \<Rightarrow>
    ((block_error + block_insert_instructions) \<times> block) list" where
  "validate_batch verify C L batch =
     map (\<lambda>(b, now). (validate verify (create_validator C L now b), b)) batch"

definition batch_outcome :: "saved_block option \<Rightarrow> processed" where
  "batch_outcome saved =
     (case saved of Some sb \<Rightarrow> (Inr (), Some sb) | None \<Rightarrow> (Inl Conflict, None))"

fun insert_batch :: "((block_error + block_insert_instructions) \<times> block) list \<Rightarrow> ledger \<Rightarrow>
    (processed list \<times> ledger) option" where
  "insert_batch [] L = Some ([], L)"
| "insert_batch ((Inl err, b) # rest) L = do {
     (ps, L) \<leftarrow> insert_batch rest L;
     Some ((Inl err, None) # ps, L)
   }"
| "insert_batch ((Inr ins, b) # rest) L = do {
     (saved, L) \<leftarrow> insert_block b ins L;
     (ps, L) \<leftarrow> insert_batch rest L;
     Some (batch_outcome saved # ps, L)
   }"

definition process_batch :: "verifier \<Rightarrow> ledger_constants \<Rightarrow> (block \<times> unix_millis_timestamp) list \<Rightarrow>
    ledger \<Rightarrow> (processed list \<times> ledger) option" where
  "process_batch verify C batch L = insert_batch (validate_batch verify C L batch) L"

definition process_one :: "verifier \<Rightarrow> ledger_constants \<Rightarrow> unix_millis_timestamp \<Rightarrow> block \<Rightarrow> ledger \<Rightarrow>
    ((block_error + saved_block) \<times> ledger) option" where
  "process_one verify C now b L = do {
     (processed, L) \<leftarrow> process_batch verify C [(b, now)] L;
     (case processed of
        (Inr _, Some sb) # _ \<Rightarrow> Some (Inr sb, L)
      | (Inr _, None) # _ \<Rightarrow> None
      | (Inl e, _) # _ \<Rightarrow> Some (Inl e, L)
      | [] \<Rightarrow> None)
   }"

section \<open>Every block of a batch gets a result\<close>

lemma insert_batch_length:
  "insert_batch vs L = Some (ps, L') \<Longrightarrow> length ps = length vs"
  by (induction vs L arbitrary: ps L' rule: insert_batch.induct) (auto split: Option.bind_splits)

lemma insert_batch_errors:
  assumes "insert_batch vs L = Some (ps, L')" "i < length vs" "vs ! i = (Inl e, b)"
  shows "ps ! i = (Inl e, None)"
  using assms
proof (induction vs L arbitrary: ps L' i rule: insert_batch.induct)
  case (2 err b' rest L)
  then show ?case by (cases i) (auto split: Option.bind_splits)
next
  case (3 ins b' rest L)
  then show ?case by (cases i) (auto split: Option.bind_splits)
qed simp

end
