(* ===== verification/Ledger_Inv.thy ===== *)
theory Ledger_Inv
  imports Insertion
begin

text \<open>
  The invariant of the ledger. It is the conjunction of the structure of the account chains
  (\<open>blocks_inv\<close>, \<open>successors_inv\<close>, \<open>accounts_inv\<close>), the transfers
  between them (\<open>transfers_inv\<close>, \<open>pending_inv\<close>, \<open>links_inv\<close>), the conservation of the
  supply (\<open>supply_inv\<close>), the voting weights (\<open>weights_inv\<close>), the
  confirmation heights (\<open>conf_inv\<close>), the counters (\<open>counts_inv\<close>) and an order of
  the blocks (\<open>order_inv\<close>).
  Sums are over naturals, so no conjunct holds by wrap-around.
\<close>

section \<open>Chains\<close>

definition block_wf :: "'a lmdb_store_scheme \<Rightarrow> block_hash \<Rightarrow> saved_block \<Rightarrow> bool" where
  "block_wf L h b \<longleftrightarrow>
     h \<noteq> 0 \<and> saved_hash b = h \<and> reload b = b \<and> saved_account b \<noteq> 0 \<and>
     (is_open (svb_block b) \<longleftrightarrow> saved_previous b = 0) \<and>
     (saved_previous b = 0 \<longrightarrow> saved_height b = 1 \<and>
        (\<exists>i. tbl_get (st_account L) (saved_account b) = Some i \<and> ai_open_block i = h)) \<and>
     (saved_previous b \<noteq> 0 \<longrightarrow> tbl_get (st_successors L) (saved_previous b) = Some h \<and>
        (\<exists>p. tbl_get (st_block L) (saved_previous b) = Some p \<and> saved_account p = saved_account b \<and>
          unat (saved_height b) = unat (saved_height p) + 1)) \<and>
     (\<exists>i. tbl_get (st_account L) (saved_account b) = Some i \<and>
        (ai_head i = h \<or> tbl_get (st_successors L) h \<noteq> None))"

definition blocks_inv :: "'a lmdb_store_scheme \<Rightarrow> bool" where
  "blocks_inv L \<longleftrightarrow> (\<forall>h b. tbl_get (st_block L) h = Some b \<longrightarrow> block_wf L h b)"

definition successors_inv :: "'a lmdb_store_scheme \<Rightarrow> bool" where
  "successors_inv L \<longleftrightarrow> (\<forall>p h. tbl_get (st_successors L) p = Some h \<longrightarrow>
     p \<noteq> 0 \<and> (\<exists>b. tbl_get (st_block L) h = Some b \<and> saved_previous b = p))"

text \<open>The representative a chain has at a block: the one of the last block that names one.\<close>

inductive rep_at :: "(block_hash, saved_block) table \<Rightarrow> block_hash \<Rightarrow> public_key \<Rightarrow> bool" where
  own: "tbl_get t h = Some b \<Longrightarrow> representative_field (svb_block b) = Some r \<Longrightarrow> rep_at t h r"
| prev: "tbl_get t h = Some b \<Longrightarrow> representative_field (svb_block b) = None \<Longrightarrow>
    rep_at t (saved_previous b) r \<Longrightarrow> rep_at t h r"

inductive_cases rep_atE: "rep_at t h r"

definition account_wf :: "'a lmdb_store_scheme \<Rightarrow> account \<Rightarrow> account_info \<Rightarrow> bool" where
  "account_wf L a i \<longleftrightarrow>
     tbl_get (st_successors L) (ai_head i) = None \<and>
     (\<exists>b. tbl_get (st_block L) (ai_head i) = Some b \<and> saved_account b = a \<and>
        saved_balance b = ai_balance i \<and> saved_height b = ai_block_count i \<and>
        saved_epoch b = ai_epoch i) \<and>
     rep_at (st_block L) (ai_head i) (ai_representative i) \<and>
     (\<exists>b. tbl_get (st_block L) (ai_open_block i) = Some b \<and> saved_account b = a \<and> saved_previous b = 0)"

definition accounts_inv :: "'a lmdb_store_scheme \<Rightarrow> bool" where
  "accounts_inv L \<longleftrightarrow> (\<forall>a i. tbl_get (st_account L) a = Some i \<longrightarrow> account_wf L a i)"

section \<open>Transfers\<close>

definition prev_balance :: "(block_hash, saved_block) table \<Rightarrow> saved_block \<Rightarrow> amount" where
  "prev_balance t b =
     (if saved_previous b = 0 then 0
      else unwrap_or_zero (map_option saved_balance (tbl_get t (saved_previous b))))"

text \<open>The send a block receives; the genesis block has its supply from nowhere.\<close>

definition receives :: "ledger_constants \<Rightarrow> saved_block \<Rightarrow> block_hash option" where
  "receives C b = (if saved_hash b = saved_hash (lc_genesis_block C) then None else saved_source b)"

definition receive_wf :: "'a lmdb_store_scheme \<Rightarrow> saved_block \<Rightarrow> block_hash \<Rightarrow> bool" where
  "receive_wf L b s \<longleftrightarrow> \<not> saved_is_send b \<and>
     tbl_get (st_pending L) (PendingKey (saved_account b) s) = None \<and>
     (\<exists>sb. tbl_get (st_block L) s = Some sb \<and> saved_is_send sb \<and>
        destination_or_link (svb_block sb) = saved_account b \<and>
        saved_source_epoch b = saved_epoch sb \<and>
        unat (saved_balance b) + unat (saved_balance sb) =
          unat (prev_balance (st_block L) b) + unat (prev_balance (st_block L) sb))"

definition send_wf :: "ledger_constants \<Rightarrow> 'a lmdb_store_scheme \<Rightarrow> saved_block \<Rightarrow> bool" where
  "send_wf C L b \<longleftrightarrow> saved_previous b \<noteq> 0 \<and>
     saved_balance b \<le> prev_balance (st_block L) b \<and>
     (\<not> is_legacy (svb_block b) \<longrightarrow> saved_balance b < prev_balance (st_block L) b) \<and>
     (tbl_get (st_pending L) (PendingKey (destination_or_link (svb_block b)) (saved_hash b)) = None \<longrightarrow>
        (\<exists>h rb. tbl_get (st_block L) h = Some rb \<and> receives C rb = Some (saved_hash b)))"

definition transfer_wf :: "ledger_constants \<Rightarrow> 'a lmdb_store_scheme \<Rightarrow> saved_block \<Rightarrow> bool" where
  "transfer_wf C L b \<longleftrightarrow>
     (case receives C b of
        Some s \<Rightarrow> receive_wf L b s
      | None \<Rightarrow>
          if saved_is_send b then send_wf C L b
          else saved_hash b = saved_hash (lc_genesis_block C) \<or>
            saved_balance b = prev_balance (st_block L) b)"

definition transfers_inv :: "ledger_constants \<Rightarrow> 'a lmdb_store_scheme \<Rightarrow> bool" where
  "transfers_inv C L \<longleftrightarrow>
     (\<forall>h b. tbl_get (st_block L) h = Some b \<longrightarrow> transfer_wf C L b) \<and>
     (\<forall>h b h' b' s. tbl_get (st_block L) h = Some b \<longrightarrow> tbl_get (st_block L) h' = Some b' \<longrightarrow>
        receives C b = Some s \<longrightarrow> receives C b' = Some s \<longrightarrow> h = h')"

definition pending_wf :: "'a lmdb_store_scheme \<Rightarrow> pending_key \<Rightarrow> pending_info \<Rightarrow> bool" where
  "pending_wf L k p \<longleftrightarrow>
     (\<exists>b. tbl_get (st_block L) (send_block_hash k) = Some b \<and> saved_is_send b \<and>
        destination_or_link (svb_block b) = receiving_account k \<and> pi_source p = saved_account b \<and>
        pi_epoch p = saved_epoch b \<and>
        unat (pi_amount p) + unat (saved_balance b) = unat (prev_balance (st_block L) b))"

definition pending_inv :: "'a lmdb_store_scheme \<Rightarrow> bool" where
  "pending_inv L \<longleftrightarrow> (\<forall>k p. tbl_get (st_pending L) k = Some p \<longrightarrow> pending_wf L k p)"

section \<open>Supply, weights, confirmation heights, counters\<close>

definition balance_total :: "'a lmdb_store_scheme \<Rightarrow> nat" where
  "balance_total L = (\<Sum>(a, i)\<leftarrow>tbl_entries (st_account L). unat (ai_balance i))"

definition pending_total :: "'a lmdb_store_scheme \<Rightarrow> nat" where
  "pending_total L = (\<Sum>(k, p)\<leftarrow>tbl_entries (st_pending L). unat (pi_amount p))"

definition supply_inv :: "'a lmdb_store_scheme \<Rightarrow> bool" where
  "supply_inv L \<longleftrightarrow> balance_total L + pending_total L = 2 ^ 128 - 1"

definition weights_inv :: "ledger \<Rightarrow> bool" where
  "weights_inv L \<longleftrightarrow> tracks weights_ok table_weight L (st_account L)"

definition conf_inv :: "'a lmdb_store_scheme \<Rightarrow> bool" where
  "conf_inv L \<longleftrightarrow> (\<forall>a c. tbl_get (st_confirmation_height L) a = Some c \<longrightarrow>
     (\<exists>b. tbl_get (st_block L) (ch_frontier c) = Some b \<and> saved_account b = a \<and>
        saved_height b = ch_height c))"

definition counts_inv :: "'a lmdb_store_scheme \<Rightarrow> bool" where
  "counts_inv L \<longleftrightarrow>
     cache_block_count L = of_nat (length (tbl_entries (st_block L))) \<and>
     cache_account_count L = of_nat (length (tbl_entries (st_account L))) \<and>
     cache_confirmed_count L =
       of_nat (\<Sum>(a, c)\<leftarrow>tbl_entries (st_confirmation_height L). unat (ch_height c))"

text \<open>The genesis block is in the ledger and confirmed.\<close>

definition genesis_inv :: "ledger_constants \<Rightarrow> 'a lmdb_store_scheme \<Rightarrow> bool" where
  "genesis_inv C L \<longleftrightarrow>
     (\<exists>b c. tbl_get (st_block L) (saved_hash (lc_genesis_block C)) = Some b \<and>
        saved_account b = lc_genesis_account C \<and> saved_previous b = 0 \<and>
        (\<forall>s. receives C b \<noteq> Some s) \<and> \<not> saved_is_send b \<and> (\<exists>g. svb_block b = LegacyOpen g) \<and>
        tbl_get (st_confirmation_height L) (lc_genesis_account C) = Some c)"

text \<open>A state block that is neither a send nor an epoch block receives what its link names.\<close>

definition link_wf :: "ledger_constants \<Rightarrow> saved_block \<Rightarrow> bool" where
  "link_wf C b \<longleftrightarrow>
     (case svb_block b of
        State st \<Rightarrow>
          if bd_is_receive (sd_details (svb_sideband b))
          then \<not> saved_is_send b \<and> \<not> is_epoch_link (lc_epochs C) (sth_link (stb_hashables st))
          else saved_is_send b \<or> sth_link (stb_hashables st) = 0 \<or>
            is_epoch_link (lc_epochs C) (sth_link (stb_hashables st))
      | _ \<Rightarrow> True)"

definition links_inv :: "ledger_constants \<Rightarrow> 'a lmdb_store_scheme \<Rightarrow> bool" where
  "links_inv C L \<longleftrightarrow> (\<forall>h b. tbl_get (st_block L) h = Some b \<longrightarrow> link_wf C b)"

text \<open>
  The blocks can be ordered so that every block comes after its predecessor and after the send
  it receives.
\<close>

definition ranked :: "ledger_constants \<Rightarrow> (block_hash, saved_block) table \<Rightarrow> (block_hash \<Rightarrow> nat) \<Rightarrow> bool" where
  "ranked C t rank \<longleftrightarrow> (\<forall>h b. tbl_get t h = Some b \<longrightarrow>
     (saved_previous b \<noteq> 0 \<longrightarrow> rank (saved_previous b) < rank h) \<and>
     (\<forall>s. receives C b = Some s \<longrightarrow> rank s < rank h))"

definition order_inv :: "ledger_constants \<Rightarrow> 'a lmdb_store_scheme \<Rightarrow> bool" where
  "order_inv C L \<longleftrightarrow> (\<exists>rank. ranked C (st_block L) rank)"

text \<open>
  Every transfer moves an amount. This is no part of the invariant, since a legacy send of
  amount 0 is accepted, but the rollback relies on it.
\<close>

definition moves :: "ledger_constants \<Rightarrow> 'a lmdb_store_scheme \<Rightarrow> saved_block \<Rightarrow> bool" where
  "moves C L b \<longleftrightarrow>
     (saved_is_send b \<or> receives C b \<noteq> None \<longrightarrow> saved_balance b \<noteq> prev_balance (st_block L) b)"

definition all_move :: "ledger_constants \<Rightarrow> 'a lmdb_store_scheme \<Rightarrow> bool" where
  "all_move C L \<longleftrightarrow> (\<forall>h b. tbl_get (st_block L) h = Some b \<longrightarrow> moves C L b)"

definition ledger_inv :: "ledger_constants \<Rightarrow> ledger \<Rightarrow> bool" where
  "ledger_inv C L \<longleftrightarrow> blocks_inv L \<and> successors_inv L \<and> accounts_inv L \<and> transfers_inv C L \<and>
     pending_inv L \<and> supply_inv L \<and> weights_inv L \<and> conf_inv L \<and> counts_inv L \<and> genesis_inv C L \<and>
     order_inv C L \<and> links_inv C L"

lemma ledger_invD:
  assumes "ledger_inv C L"
  shows "blocks_inv L" "successors_inv L" "accounts_inv L" "transfers_inv C L" "pending_inv L"
    "supply_inv L" "weights_inv L" "conf_inv L" "counts_inv L" "genesis_inv C L" "order_inv C L"
    "links_inv C L"
  using assms by (simp_all add: ledger_inv_def)

section \<open>Facts of a chain\<close>

lemma blocks_invD: "blocks_inv L \<Longrightarrow> tbl_get (st_block L) h = Some b \<Longrightarrow> block_wf L h b"
  by (simp add: blocks_inv_def)

lemma accounts_invD: "accounts_inv L \<Longrightarrow> tbl_get (st_account L) a = Some i \<Longrightarrow> account_wf L a i"
  by (simp add: accounts_inv_def)

lemma block_wfD:
  assumes "block_wf L h b"
  shows "h \<noteq> 0" "saved_hash b = h" "reload b = b" "saved_account b \<noteq> 0"
    "is_open (svb_block b) \<longleftrightarrow> saved_previous b = 0"
    "saved_previous b = 0 \<Longrightarrow> saved_height b = 1"
    "saved_previous b \<noteq> 0 \<Longrightarrow> tbl_get (st_successors L) (saved_previous b) = Some h"
  using assms by (auto simp: block_wf_def)

lemma block_wf_prevE:
  assumes "block_wf L h b" "saved_previous b \<noteq> 0"
  obtains p where "tbl_get (st_block L) (saved_previous b) = Some p"
    "saved_account p = saved_account b" "unat (saved_height b) = unat (saved_height p) + 1"
  using assms by (auto simp: block_wf_def)

lemma block_wf_openE:
  assumes "block_wf L h b" "saved_previous b = 0"
  obtains i where "tbl_get (st_account L) (saved_account b) = Some i" "ai_open_block i = h"
  using assms by (auto simp: block_wf_def)

lemma block_wf_accountE:
  assumes "block_wf L h b"
  obtains i where "tbl_get (st_account L) (saved_account b) = Some i"
    "ai_head i = h \<or> tbl_get (st_successors L) h \<noteq> None"
  using assms by (auto simp: block_wf_def)

lemma account_wf_headE:
  assumes "account_wf L a i"
  obtains b where "tbl_get (st_block L) (ai_head i) = Some b" "saved_account b = a"
    "saved_balance b = ai_balance i" "saved_height b = ai_block_count i" "saved_epoch b = ai_epoch i"
  using assms by (auto simp: account_wf_def)

lemma height_pos:
  assumes "blocks_inv L" "tbl_get (st_block L) h = Some b"
  shows "0 < unat (saved_height b)"
proof (cases "saved_previous b = 0")
  case True
  then show ?thesis using block_wfD(6) [OF blocks_invD [OF assms]] by simp
next
  case False
  then show ?thesis using block_wf_prevE [OF blocks_invD [OF assms]] by fastforce
qed

text \<open>A chain has one block per height.\<close>

lemma height_unique:
  assumes inv: "blocks_inv L"
    and "tbl_get (st_block L) h = Some b" "tbl_get (st_block L) h' = Some b'"
    and "saved_account b = saved_account b'" "saved_height b = saved_height b'"
  shows "h = h'"
  using assms(2-)
proof (induction "unat (saved_height b)" arbitrary: h b h' b' rule: less_induct)
  case less
  note wf = blocks_invD [OF inv less.prems(1)] and wf' = blocks_invD [OF inv less.prems(2)]
  show ?case
  proof (cases "saved_previous b = 0")
    case True
    then have "saved_height b' = 1" using block_wfD(6) [OF wf] less.prems by simp
    then have "saved_previous b' = 0"
      using wf' height_pos [OF inv] by (metis block_wf_prevE add_diff_cancel_right' diff_is_0_eq'
          less_numeral_extra(3) order_refl unat_1)
    then show ?thesis
      using True wf wf' less.prems(3) by (metis block_wf_openE option.inject)
  next
    case False
    then obtain p where p: "tbl_get (st_block L) (saved_previous b) = Some p"
      "saved_account p = saved_account b" "unat (saved_height b) = unat (saved_height p) + 1"
      using wf by (metis block_wf_prevE)
    have "saved_previous b' \<noteq> 0"
      using block_wfD(6) [OF wf'] p(3) less.prems(4) height_pos [OF inv p(1)] by auto
    then obtain p' where p': "tbl_get (st_block L) (saved_previous b') = Some p'"
      "saved_account p' = saved_account b'" "unat (saved_height b') = unat (saved_height p') + 1"
      using wf' by (metis block_wf_prevE)
    have "saved_previous b = saved_previous b'"
    proof (rule less.hyps [OF _ p(1) p'(1)])
      show "unat (saved_height p) < unat (saved_height b)" using p(3) by simp
      show "saved_account p = saved_account p'" using p p' less.prems by simp
      show "saved_height p = saved_height p'"
        using p(3) p'(3) less.prems(4) by (simp add: word_unat_eq_iff)
    qed
    then show ?thesis
      using False \<open>saved_previous b' \<noteq> 0\<close> block_wfD(7) [OF wf] block_wfD(7) [OF wf'] by simp
  qed
qed

text \<open>Below every block of a chain there is a block of each smaller height.\<close>

lemma ancestor_at:
  assumes inv: "blocks_inv L" and "tbl_get (st_block L) h = Some b"
    and "0 < n" "n \<le> unat (saved_height b)"
  shows "\<exists>h' b'. tbl_get (st_block L) h' = Some b' \<and> saved_account b' = saved_account b \<and>
    unat (saved_height b') = n"
  using assms(2-)
proof (induction "unat (saved_height b)" arbitrary: h b rule: less_induct)
  case less
  note wf = blocks_invD [OF inv less.prems(1)]
  show ?case
  proof (cases "n = unat (saved_height b)")
    case False
    then have "saved_previous b \<noteq> 0"
      using less.prems block_wfD(6) [OF wf] by auto
    then obtain p where p: "tbl_get (st_block L) (saved_previous b) = Some p"
      "saved_account p = saved_account b" "unat (saved_height b) = unat (saved_height p) + 1"
      using wf by (metis block_wf_prevE)
    then show ?thesis
      using less.hyps [OF _ p(1)] less.prems False by simp
  qed (use less.prems in blast)
qed

text \<open>The head is the highest block of its account.\<close>

lemma height_le_head:
  assumes inv: "blocks_inv L" "accounts_inv L"
    and b: "tbl_get (st_block L) h = Some b" and i: "tbl_get (st_account L) (saved_account b) = Some i"
  shows "unat (saved_height b) \<le> unat (ai_block_count i)"
proof (rule ccontr)
  assume gt: "\<not> ?thesis"
  from accounts_invD [OF inv(2) i] obtain hb where
    hb: "tbl_get (st_block L) (ai_head i) = Some hb" "saved_account hb = saved_account b"
      "saved_height hb = ai_block_count i" by (metis account_wf_headE)
  have "0 < unat (ai_block_count i)"
    using height_pos [OF inv(1) hb(1)] hb(3) by simp
  with gt have "\<exists>h' b'. tbl_get (st_block L) h' = Some b' \<and> saved_account b' = saved_account b \<and>
      unat (saved_height b') = unat (ai_block_count i) + 1"
    by (intro ancestor_at [OF inv(1) b]) auto
  then obtain h' b' where b': "tbl_get (st_block L) h' = Some b'" "saved_account b' = saved_account b"
    "unat (saved_height b') = unat (ai_block_count i) + 1" by blast
  note wf = blocks_invD [OF inv(1) b'(1)]
  have "saved_previous b' \<noteq> 0"
    using block_wfD(6) [OF wf] b'(3) \<open>0 < unat (ai_block_count i)\<close> by auto
  then obtain p where p: "tbl_get (st_block L) (saved_previous b') = Some p"
    "saved_account p = saved_account b'" "unat (saved_height b') = unat (saved_height p) + 1"
    using wf by (metis block_wf_prevE)
  have "saved_previous b' = ai_head i"
    using height_unique [OF inv(1) p(1) hb(1)] p b' hb by (simp add: word_unat_eq_iff)
  then show False
    using block_wfD(7) [OF wf \<open>saved_previous b' \<noteq> 0\<close>] accounts_invD [OF inv(2) i]
    by (simp add: account_wf_def)
qed

text \<open>The number of blocks of an account is bounded by the size of the block table.\<close>

lemma block_count_le:
  assumes inv: "blocks_inv L" "accounts_inv L" and i: "tbl_get (st_account L) a = Some i"
  shows "unat (ai_block_count i) \<le> length (tbl_entries (st_block L))"
proof -
  from accounts_invD [OF inv(2) i] obtain hb where
    hb: "tbl_get (st_block L) (ai_head i) = Some hb" "saved_height hb = ai_block_count i"
    by (metis account_wf_headE)
  have "{1..unat (ai_block_count i)} \<subseteq>
      (\<lambda>r. unat (saved_height (snd r))) ` set (tbl_entries (st_block L))"
  proof
    fix n assume "n \<in> {1..unat (ai_block_count i)}"
    then obtain h b where "tbl_get (st_block L) h = Some b" "unat (saved_height b) = n"
      using ancestor_at [OF inv(1) hb(1), of n] hb(2) by auto
    then show "n \<in> (\<lambda>r. unat (saved_height (snd r))) ` set (tbl_entries (st_block L))"
      using lmdb.entries_get [of h b "st_block L"] by force
  qed
  then have "card {1..unat (ai_block_count i)} \<le> card (set (tbl_entries (st_block L)))"
    by (meson card_image_le card_mono finite_imageI finite_set order_trans)
  then show ?thesis using card_length [of "tbl_entries (st_block L)"] by simp
qed

text \<open>A finished chain always answers the search for the representative.\<close>

lemma rep_at_unique: "rep_at t h r \<Longrightarrow> rep_at t h r' \<Longrightarrow> r = r'"
proof (induction arbitrary: r' rule: rep_at.induct)
  case (own t h b r)
  from own(3) own(1,2) show ?case by (cases rule: rep_at.cases) auto
next
  case (prev t h b r)
  from prev(5) prev(1,2,4) show ?case by (cases rule: rep_at.cases) auto
qed

lemma rep_at_mono:
  "rep_at t h r \<Longrightarrow> (\<And>h b. tbl_get t h = Some b \<Longrightarrow> tbl_get t' h = Some b) \<Longrightarrow> rep_at t' h r"
  by (induction rule: rep_at.induct) (auto intro: rep_at.intros)

lemma rep_field_cases:
  "representative_field b = None \<longleftrightarrow> (\<exists>s. b = LegacySend s) \<or> (\<exists>r. b = LegacyReceive r)"
  by (cases b) auto

lemma rep_at_exists:
  assumes inv: "blocks_inv L" and "tbl_get (st_block L) h = Some b"
  shows "\<exists>r. rep_at (st_block L) h r"
  using assms(2)
proof (induction "unat (saved_height b)" arbitrary: h b rule: less_induct)
  case less
  note wf = blocks_invD [OF inv less.prems]
  show ?case
  proof (cases "representative_field (svb_block b)")
    case None
    then have "saved_previous b \<noteq> 0"
      using block_wfD(5) [OF wf] by (auto simp: rep_field_cases)
    then obtain p where p: "tbl_get (st_block L) (saved_previous b) = Some p"
      "unat (saved_height b) = unat (saved_height p) + 1"
      using wf by (metis block_wf_prevE)
    then show ?thesis
      using less.hyps [OF _ p(1)] less.prems None by (auto intro: rep_at.intros)
  qed (use less.prems in \<open>auto intro: rep_at.intros\<close>)
qed

lemma find_rep_block_rep_at:
  assumes "rep_at (st_block L) h r" "blocks_inv L"
  shows "\<exists>x b. find_rep_block L h = Some x \<and> x \<noteq> 0 \<and> tbl_get (st_block L) x = Some b \<and>
    representative_field (svb_block b) = Some r"
  using assms(1)
proof (induction "st_block L" h r rule: rep_at.induct)
  case (own h b r)
  note wf = blocks_invD [OF assms(2) own(1)]
  have "rep_step b = (0, h)"
    using own(2) block_wfD(2) [OF wf] by (auto simp: rep_step_def split: block.splits)
  then show ?case
    using own block_wfD(1) [OF wf] by (subst find_rep_block.simps) auto
next
  case (prev h b r)
  have "rep_step b = (saved_previous b, 0)"
    using prev(2) by (auto simp: rep_step_def split: block.splits)
  then show ?case
    using prev by (subst find_rep_block.simps) auto
qed

end
