(* ===== verification/Insertion_Inv.thy ===== *)
theory Insertion_Inv
  imports Ledger_Inv
begin

text \<open>
  Insertion keeps the invariant. \<open>insertable\<close> is the contract between validator and
  inserter: what the instructions of an accepted block say about the ledger. Validation
  establishes it, it survives the insertion of blocks of other accounts (so that a whole
  batch can be validated against one snapshot), and insertion under it succeeds and keeps
  the invariant.
\<close>

section \<open>The contract between validator and inserter\<close>

definition saved_of :: "block \<Rightarrow> block_insert_instructions \<Rightarrow> saved_block" where
  "saved_of b ins = reload (saved_block_new b (bi_set_sideband ins))"

definition insert_block_ok :: "'a lmdb_store_scheme \<Rightarrow> block \<Rightarrow> block_insert_instructions \<Rightarrow> bool" where
  "insert_block_ok L b ins \<longleftrightarrow>
     block_hash_of b \<noteq> 0 \<and> tbl_get (st_block L) (block_hash_of b) = None \<and> bi_account ins \<noteq> 0 \<and>
     saved_account (saved_of b ins) = bi_account ins \<and>
     saved_height (saved_of b ins) = ai_block_count (bi_set_account_info ins) \<and>
     saved_balance (saved_of b ins) = ai_balance (bi_set_account_info ins) \<and>
     saved_epoch (saved_of b ins) = ai_epoch (bi_set_account_info ins) \<and>
     ai_head (bi_set_account_info ins) = block_hash_of b"

definition insert_chain_ok :: "'a lmdb_store_scheme \<Rightarrow> block \<Rightarrow> block_insert_instructions \<Rightarrow> bool" where
  "insert_chain_ok L b ins \<longleftrightarrow>
     (is_open b \<longleftrightarrow> block_previous b = 0) \<and>
     (case tbl_get (st_account L) (bi_account ins) of
        None \<Rightarrow>
          bi_old_account_info ins = account_info_default \<and> block_previous b = 0 \<and>
          ai_open_block (bi_set_account_info ins) = block_hash_of b \<and>
          ai_block_count (bi_set_account_info ins) = 1 \<and>
          representative_field b = Some (ai_representative (bi_set_account_info ins))
      | Some i \<Rightarrow>
          bi_old_account_info ins = i \<and> block_previous b = ai_head i \<and> ai_head i \<noteq> 0 \<and>
          ai_open_block (bi_set_account_info ins) = ai_open_block i \<and>
          ai_block_count (bi_set_account_info ins) = ai_block_count i + 1 \<and>
          ai_representative (bi_set_account_info ins) =
            (case representative_field b of Some r \<Rightarrow> r | None \<Rightarrow> ai_representative i))"

definition old_amount :: "'a lmdb_store_scheme \<Rightarrow> block_insert_instructions \<Rightarrow> amount" where
  "old_amount L ins = unwrap_or_zero (map_option ai_balance (tbl_get (st_account L) (bi_account ins)))"

definition insert_transfer_ok ::
    "'a lmdb_store_scheme \<Rightarrow> block \<Rightarrow> block_insert_instructions \<Rightarrow> bool" where
  "insert_transfer_ok L b ins \<longleftrightarrow>
     (case saved_source (saved_of b ins) of
        Some s \<Rightarrow>
          \<not> saved_is_send (saved_of b ins) \<and> bi_insert_pending ins = None \<and>
          bi_delete_pending ins = Some (PendingKey (bi_account ins) s) \<and>
          (\<exists>p. tbl_get (st_pending L) (PendingKey (bi_account ins) s) = Some p \<and>
             saved_source_epoch (saved_of b ins) = pi_epoch p \<and>
             unat (ai_balance (bi_set_account_info ins)) =
               unat (old_amount L ins) + unat (pi_amount p))
      | None \<Rightarrow>
          bi_delete_pending ins = None \<and>
          (if saved_is_send (saved_of b ins) then
             block_previous b \<noteq> 0 \<and>
             ai_balance (bi_set_account_info ins) \<le> old_amount L ins \<and>
             (\<not> is_legacy b \<longrightarrow> ai_balance (bi_set_account_info ins) < old_amount L ins) \<and>
             bi_insert_pending ins = Some (PendingKey (destination_or_link b) (block_hash_of b),
               \<lparr>pi_source = bi_account ins,
                pi_amount = old_amount L ins - ai_balance (bi_set_account_info ins),
                pi_epoch = saved_epoch (saved_of b ins)\<rparr>)
           else
             bi_insert_pending ins = None \<and>
             ai_balance (bi_set_account_info ins) = old_amount L ins))"

definition insertable :: "ledger_constants \<Rightarrow> 'a lmdb_store_scheme \<Rightarrow> block \<Rightarrow> block_insert_instructions \<Rightarrow> bool" where
  "insertable C L b ins \<longleftrightarrow>
     insert_block_ok L b ins \<and> insert_chain_ok L b ins \<and> insert_transfer_ok L b ins \<and>
     link_wf C (saved_of b ins)"

text \<open>
  The one kind of accepted block that creates money: a state block with an epoch link whose
  balance is above the previous one. It is neither an epoch block (the balance changed) nor a
  receive (the link is an epoch link), so no pending entry is asked for.
\<close>

definition mints :: "ledger_constants \<Rightarrow> 'a lmdb_store_scheme \<Rightarrow> block \<Rightarrow> bool" where
  "mints C L b =
     (case b of
        State st \<Rightarrow> is_epoch_link (lc_epochs C) (sth_link (stb_hashables st)) \<and>
          sth_balance (stb_hashables st) >
            unwrap_or_zero (block_balance L (sth_previous (stb_hashables st)))
      | _ \<Rightarrow> False)"

section \<open>Validation establishes the contract\<close>

lemma create_validator_fields [simp]:
  "bv_block (create_validator C L now b) = b"
  "bv_epochs (create_validator C L now b) = lc_epochs C"
  "bv_work (create_validator C L now b) = lc_work C"
  "bv_now (create_validator C L now b) = now"
  "bv_block_exists (create_validator C L now b) = any_block_exists L (block_hash_of b)"
  "bv_previous_block (create_validator C L now b) = factory_load_previous_block L b"
  "bv_old_account_info (create_validator C L now b) =
     tbl_get (st_account L) (bv_account (create_validator C L now b))"
  "bv_pending_receive_info (create_validator C L now b) =
     (if source_or_link b = 0 then None
      else tbl_get (st_pending L) (PendingKey (bv_account (create_validator C L now b)) (source_or_link b)))"
  by (simp_all add: create_validator_def Let_def any_get_account_def get_pending_def)

lemma bv_account_field:
  "account_field b = Some a \<Longrightarrow> bv_account (create_validator C L now b) = a"
  by (simp add: create_validator_def Let_def factory_get_account_def)

lemma create_instructions_fields [simp]:
  "bi_account (create_instructions v) = bv_account v"
  "bi_old_account_info (create_instructions v) =
     (case bv_old_account_info v of Some i \<Rightarrow> i | None \<Rightarrow> account_info_default)"
  "bi_set_account_info (create_instructions v) = new_account_info v"
  "bi_delete_pending (create_instructions v) = delete_received_pending_info v"
  "bi_insert_pending (create_instructions v) = new_pending_info v"
  "bi_set_sideband (create_instructions v) = new_sideband v"
  by (simp_all add: create_instructions_def)

lemma new_account_info_fields [simp]:
  "ai_head (new_account_info v) = block_hash_of (bv_block v)"
  "ai_representative (new_account_info v) = new_representative v"
  "ai_open_block (new_account_info v) = validator_open_block v"
  "ai_balance (new_account_info v) = new_balance v"
  "ai_block_count (new_account_info v) = new_block_count v"
  "ai_epoch (new_account_info v) = validator_epoch v"
  by (simp_all add: new_account_info_def)

lemma is_open_previous: "is_open b \<Longrightarrow> block_previous b = 0"
  by (cases b) auto

lemma reload_legacy_epoch: "is_legacy (svb_block p) \<Longrightarrow> saved_epoch (reload p) = Epoch0"
  by (cases p) (auto simp: reload_def saved_epoch_def block_details_new_def split: block.splits)

lemma legacy_epoch: "reload p = p \<Longrightarrow> is_legacy (svb_block p) \<Longrightarrow> saved_epoch p = Epoch0"
  using reload_legacy_epoch [of p] by simp

lemma legacy_predecessor:
  "valid_predecessor b (block_type_of p) \<Longrightarrow> is_legacy b \<Longrightarrow> is_legacy p"
  by (cases b; cases p) auto

text \<open>The account of an accepted block is new and the block opens it, or the block follows its head.\<close>

lemma accepted_cases:
  assumes inv: "ledger_inv C L"
    and ok: "validate verify (create_validator C L now b) = Inr ins"
  obtains
    (new) "tbl_get (st_account L) (bi_account ins) = None" "block_previous b = 0" "is_open b"
      "factory_load_previous_block L b = None"
  | (follow) i p where "tbl_get (st_account L) (bi_account ins) = Some i" "block_previous b = ai_head i"
      "\<not> is_open b" "ai_head i \<noteq> 0" "tbl_get (st_block L) (ai_head i) = Some p"
      "factory_load_previous_block L b = Some p" "saved_account p = bi_account ins"
      "saved_balance p = ai_balance i" "saved_height p = ai_block_count i"
      "saved_epoch p = ai_epoch i" "reload p = p" "is_legacy b \<longrightarrow> is_legacy (svb_block p)"
proof (cases "tbl_get (st_account L) (bi_account ins)")
  case None
  note ck = validate_InrD [OF ok]
  have "is_open b" "block_previous b = 0"
    using None ck(1,7,9) by (auto simp: check_defs is_new_account_def split: if_splits)
  then show thesis using new None by (simp add: factory_load_previous_block_def)
next
  case (Some i)
  note ck = validate_InrD [OF ok]
  from Some obtain p where p: "tbl_get (st_block L) (ai_head i) = Some p" "saved_account p = bi_account ins"
    "saved_balance p = ai_balance i" "saved_height p = ai_block_count i" "saved_epoch p = ai_epoch i"
    using accounts_invD [OF ledger_invD(3) [OF inv]] by (metis account_wf_headE)
  note wf = blocks_invD [OF ledger_invD(1) [OF inv] p(1)]
  have head: "block_previous b = ai_head i" "\<not> is_open b"
    using Some ck(1,8,10) by (auto simp: check_defs account_exists_def split: if_splits)
  moreover have prev: "factory_load_previous_block L b = Some p"
    using head p(1) block_wfD(1) [OF wf] by (simp add: factory_load_previous_block_def any_get_block_def)
  moreover have "is_legacy b \<longrightarrow> is_legacy (svb_block p)"
    using ck(4) prev block_wfD(1) [OF wf] head(1)
    by (auto simp: check_defs intro: legacy_predecessor split: if_splits)
  ultimately show thesis
    using follow Some p block_wfD(1,3) [OF wf] by blast
qed

lemma accepted_fresh:
  assumes "validate verify (create_validator C L now b) = Inr ins" "block_hash_of b \<noteq> 0"
  shows "tbl_get (st_block L) (block_hash_of b) = None" "bi_account ins \<noteq> 0"
  using validate_InrD(1,3,6) [OF assms(1)] assms(2)
  by (auto simp: check_defs any_block_exists_def split: if_splits)

text \<open>The previous block and the account agree on the balance.\<close>

lemma accepted_previous_balance:
  assumes "ledger_inv C L" "validate verify (create_validator C L now b) = Inr ins"
  shows "previous_balance (create_validator C L now b) = old_balance (create_validator C L now b)"
    "old_balance (create_validator C L now b) = old_amount L ins"
  using assms
  by (cases rule: accepted_cases;
      simp add: previous_balance_def old_balance_def old_amount_def validate_InrD(1) [OF assms(2)])+

text \<open>Legacy blocks stay on epoch 0.\<close>

lemma accepted_legacy_epoch:
  assumes "ledger_inv C L" and ok: "validate verify (create_validator C L now b) = Inr ins"
    and leg: "is_legacy b"
  shows "validator_epoch (create_validator C L now b) = Epoch0"
proof -
  note ck = validate_InrD [OF ok]
  let ?v = "create_validator C L now b"
  have "old_epoch_version ?v = Epoch0"
    using assms(1) ok
  proof (cases rule: accepted_cases)
    case (follow i p)
    then show ?thesis using leg ck(1) legacy_epoch [of p] by (simp add: old_epoch_version_def)
  qed (simp add: old_epoch_version_def ck(1))
  moreover have "source_epoch ?v = Epoch0"
    using leg ck(14,15)
    by (cases b) (auto simp: source_epoch_def check_defs is_receive_def Let_def split: option.splits if_splits)
  moreover have "\<not> is_epoch_block ?v"
    using leg by (cases b) (simp_all add: is_epoch_block_def)
  ultimately show ?thesis by (simp add: validator_epoch_def)
qed

text \<open>The balance written to the account is the one the block states, where it states one.\<close>

lemma accepted_state_balance:
  assumes "ledger_inv C L" and ok: "validate verify (create_validator C L now (State st)) = Inr ins"
  shows "new_balance (create_validator C L now (State st)) = sth_balance (stb_hashables st)"
proof -
  note pb = accepted_previous_balance [OF assms]
  show ?thesis
    using assms pb(1) by (cases rule: accepted_cases)
      (auto simp: new_balance_def amount_received_def amount_sent_def amount_add_def amount_sub_def
        old_balance_def validate_InrD(1) [OF ok] not_less split: option.splits)
qed

lemma accepted_send_balance:
  assumes "ledger_inv C L" and ok: "validate verify (create_validator C L now (LegacySend sb)) = Inr ins"
  shows "new_balance (create_validator C L now (LegacySend sb)) = sh_balance (sb_hashables sb)"
    "sh_balance (sb_hashables sb) \<le> old_amount L ins"
proof -
  note pb = accepted_previous_balance [OF assms] and ck = validate_InrD(1,17) [OF ok]
  show le: "sh_balance (sb_hashables sb) \<le> old_amount L ins"
    using ck(2) pb by (auto simp: check_defs not_less split: if_splits)
  show "new_balance (create_validator C L now (LegacySend sb)) = sh_balance (sb_hashables sb)"
    using assms le by (cases rule: accepted_cases)
      (auto simp: new_balance_def amount_received_def amount_sent_def amount_add_def amount_sub_def
        old_balance_def old_amount_def ck(1) not_less split: option.splits)
qed

lemma accepted_block_ok:
  assumes inv: "ledger_inv C L" and ok: "validate verify (create_validator C L now b) = Inr ins"
    and nz: "block_hash_of b \<noteq> 0"
  shows "insert_block_ok L b ins"
proof -
  let ?v = "create_validator C L now b"
  note ins = validate_InrD(1) [OF ok]
  have acc: "account_field b = Some a \<Longrightarrow> bv_account ?v = a" for a
    by (rule bv_account_field)
  have "saved_account (saved_block_new b (bi_set_sideband ins)) = bi_account ins"
    using acc by (cases b) (auto simp: saved_account_def saved_block_new_def ins new_sideband_def)
  then have a: "saved_account (saved_of b ins) = bi_account ins"
    by (simp add: saved_of_def)
  have "saved_balance (saved_block_new b (bi_set_sideband ins)) = new_balance ?v"
    using accepted_state_balance [OF inv] accepted_send_balance(1) [OF inv] ok
    by (cases b) (auto simp: saved_balance_def saved_block_new_def ins new_sideband_def)
  then have bal: "saved_balance (saved_of b ins) = new_balance ?v"
    by (simp add: saved_of_def)
  have open_count: "is_open b \<Longrightarrow> new_block_count ?v = 1"
    using inv ok by (cases rule: accepted_cases) (auto simp: ins new_block_count_def)
  have height: "saved_height (saved_of b ins) = new_block_count ?v"
    using open_count by (cases b)
      (auto simp: saved_of_def saved_height_def reload_def saved_block_new_def ins new_sideband_def)
  have epoch: "saved_epoch (saved_of b ins) = validator_epoch ?v"
    using accepted_legacy_epoch [OF inv ok]
    by (cases b) (auto simp: saved_of_def saved_epoch_def reload_def saved_block_new_def ins
        new_sideband_def validator_block_details_def block_details_new_def)
  show ?thesis
    using accepted_fresh [OF ok nz] nz a bal height epoch by (simp add: insert_block_ok_def ins)
qed

lemma accepted_chain_ok:
  assumes inv: "ledger_inv C L" and ok: "validate verify (create_validator C L now b) = Inr ins"
  shows "insert_chain_ok L b ins"
  using inv ok
proof (cases rule: accepted_cases)
  case new
  moreover have "\<exists>r. representative_field b = Some r"
    using new(3) by (cases b) auto
  ultimately show ?thesis
    using validate_InrD(1) [OF ok]
    by (auto simp: insert_chain_ok_def validator_open_block_def new_block_count_def new_representative_def)
next
  case (follow i p)
  then show ?thesis
    using validate_InrD(1) [OF ok]
    by (auto simp: insert_chain_ok_def validator_open_block_def new_block_count_def
        new_representative_def old_representative_def split: option.splits)
qed

text \<open>The saved block is marked the way the validator classified it.\<close>

lemma saved_of_source:
  "saved_source (saved_of (bv_block v) (create_instructions v)) =
     (if is_receive v then Some (source_or_link (bv_block v)) else None)"
  by (cases "bv_block v") (auto simp: saved_of_def saved_source_def reload_def saved_block_new_def
      new_sideband_def validator_block_details_def block_details_new_def is_receive_def)

lemma saved_of_is_send:
  "saved_is_send (saved_of (bv_block v) (create_instructions v)) = is_send v"
  by (cases "bv_block v") (auto simp: saved_of_def saved_is_send_def reload_def saved_block_new_def
      new_sideband_def validator_block_details_def block_details_new_def is_send_def)

lemma receive_not_send: "is_receive v \<Longrightarrow> \<not> is_send v"
  by (auto simp: is_receive_def is_send_def split: block.splits option.splits if_splits)

text \<open>A balance and a pending amount are shares of the supply: their sum does not overflow.\<close>

lemma balance_pending_le:
  assumes "supply_inv L" "tbl_get (st_pending L) k = Some p"
  shows "unat (unwrap_or_zero (map_option ai_balance (tbl_get (st_account L) a))) + unat (pi_amount p)
    < 2 ^ 128"
proof -
  have "unat (pi_amount p) \<le> pending_total L"
    unfolding pending_total_def
    using lmdb.sum_member_le [OF assms(2), of "\<lambda>_ p. unat (pi_amount p)"] by simp
  moreover have "unat (unwrap_or_zero (map_option ai_balance (tbl_get (st_account L) a))) \<le> balance_total L"
    unfolding balance_total_def
    using lmdb.sum_member_le [of "st_account L" a _ "\<lambda>_ i. unat (ai_balance i)"]
    by (cases "tbl_get (st_account L) a") auto
  ultimately show ?thesis using assms(1) by (simp add: supply_inv_def)
qed

lemma accepted_receive:
  assumes inv: "ledger_inv C L" and ok: "validate verify (create_validator C L now b) = Inr ins"
    and rc: "is_receive (create_validator C L now b)"
  obtains p where "tbl_get (st_pending L) (PendingKey (bi_account ins) (source_or_link b)) = Some p"
    "source_or_link b \<noteq> 0" "source_epoch (create_validator C L now b) = pi_epoch p"
    "is_legacy b \<longrightarrow> pi_epoch p = Epoch0"
    "unat (new_balance (create_validator C L now b)) = unat (old_amount L ins) + unat (pi_amount p)"
proof -
  let ?v = "create_validator C L now b"
  note ck = validate_InrD [OF ok] and pb = accepted_previous_balance [OF inv ok]
  from ck(14) rc obtain p where p: "bv_pending_receive_info ?v = Some p" "amount_received ?v = pi_amount p"
    by (auto simp: check_defs split: option.splits if_splits)
  from p(1) have src: "source_or_link b \<noteq> 0"
    "tbl_get (st_pending L) (PendingKey (bi_account ins) (source_or_link b)) = Some p"
    by (auto simp: ck(1) split: if_splits)
  have ep: "source_epoch ?v = pi_epoch p" using p(1) by (simp add: source_epoch_def)
  have leg: "is_legacy b \<longrightarrow> pi_epoch p = Epoch0"
    using rc accepted_legacy_epoch [OF inv ok] ck(15) p(1)
    by (cases b) (auto simp: check_defs is_receive_def Let_def split: if_splits)
  have "amount_sent ?v = 0"
    using rc by (auto simp: is_receive_def amount_sent_def not_less split: block.splits option.splits if_splits)
  then have "new_balance ?v = old_amount L ins + pi_amount p"
    using p(2) pb(2) by (simp add: new_balance_def amount_add_def amount_sub_def)
  then have "unat (new_balance ?v) = unat (old_amount L ins) + unat (pi_amount p)"
    using balance_pending_le [OF ledger_invD(6) [OF inv] src(2), of "bi_account ins"]
    by (simp add: unat_word_ariths old_amount_def)
  then show thesis using that src ep leg by blast
qed

lemma mints_previous:
  "mints C L (State st) \<longleftrightarrow> is_epoch_link (lc_epochs C) (sth_link (stb_hashables st)) \<and>
     sth_balance (stb_hashables st) > previous_balance (create_validator C L now (State st))"
  by (auto simp: mints_def previous_balance_def factory_load_previous_block_def block_balance_def
      unwrap_or_zero_def)

text \<open>A state block that neither sends nor receives keeps the balance, unless it mints.\<close>

lemma accepted_neither:
  assumes inv: "ledger_inv C L" and ok: "validate verify (create_validator C L now b) = Inr ins"
    and nomint: "\<not> mints C L b"
    and n: "\<not> is_receive (create_validator C L now b)" "\<not> is_send (create_validator C L now b)"
  shows "new_balance (create_validator C L now b) = old_amount L ins"
proof (cases b)
  case (State st)
  let ?v = "create_validator C L now b" and ?bal = "sth_balance (stb_hashables st)"
  note pb = accepted_previous_balance [OF inv ok] and ck = validate_InrD [OF ok]
  have "?bal \<le> old_amount L ins"
  proof (cases "is_epoch_link (lc_epochs C) (sth_link (stb_hashables st))")
    case True
    then show ?thesis using nomint pb mints_previous [of C L st now] State by (simp add: not_less)
  next
    case False
    then have "sth_link (stb_hashables st) = 0"
      using n State by (auto simp: is_receive_def has_epoch_link_def is_send_def split: option.splits)
    then show ?thesis
      using ck(12) State pb by (auto simp: check_defs amount_received_def amount_sub_def not_less
          split: if_splits)
  qed
  moreover have "old_amount L ins \<le> ?bal"
    using n(2) State pb(2) by (auto simp: is_send_def old_balance_def not_less split: option.splits)
  ultimately show ?thesis
    using accepted_state_balance [OF inv ok [unfolded State]] State by simp
qed (use n accepted_previous_balance(2) [OF inv ok] in
    \<open>auto simp: is_receive_def is_send_def new_balance_def amount_received_def amount_sent_def
      amount_add_def amount_sub_def split: option.splits\<close>)

lemma accepted_send:
  assumes inv: "ledger_inv C L" and ok: "validate verify (create_validator C L now b) = Inr ins"
    and sd: "is_send (create_validator C L now b)"
  shows "block_previous b \<noteq> 0" "new_balance (create_validator C L now b) \<le> old_amount L ins"
    "\<not> is_legacy b \<longrightarrow> new_balance (create_validator C L now b) < old_amount L ins"
    "new_pending_info (create_validator C L now b) =
       Some (PendingKey (destination_or_link b) (block_hash_of b),
         \<lparr>pi_source = bi_account ins,
          pi_amount = old_amount L ins - new_balance (create_validator C L now b),
          pi_epoch = validator_epoch (create_validator C L now b)\<rparr>)"
proof -
  let ?v = "create_validator C L now b"
  note pb = accepted_previous_balance [OF inv ok] and ck = validate_InrD [OF ok]
  show prev: "block_previous b \<noteq> 0"
    using inv ok
  proof (cases rule: accepted_cases)
    case new
    then show ?thesis using sd ck(1) by (auto simp: is_send_def split: block.splits option.splits)
  qed auto
  show lt: "\<not> is_legacy b \<longrightarrow> new_balance ?v < old_amount L ins"
    using sd pb accepted_state_balance [OF inv] ok
    by (cases b) (auto simp: is_send_def old_balance_def split: option.splits)
  show le: "new_balance ?v \<le> old_amount L ins"
    using lt sd accepted_send_balance [OF inv] ok by (cases b) (auto simp: is_send_def)
  obtain i where i: "tbl_get (st_account L) (bi_account ins) = Some i"
    using inv ok prev by (cases rule: accepted_cases) auto
  show "new_pending_info ?v =
       Some (PendingKey (destination_or_link b) (block_hash_of b),
         \<lparr>pi_source = bi_account ins, pi_amount = old_amount L ins - new_balance ?v,
          pi_epoch = validator_epoch ?v\<rparr>)"
  proof (cases b)
    case (LegacySend sb)
    then show ?thesis
      using le i accepted_legacy_epoch [OF inv ok] accepted_send_balance [OF inv ok [unfolded LegacySend]]
      by (auto simp: new_pending_info_def ck(1) amount_sent_def amount_sub_def old_amount_def not_less)
  next
    case (State st)
    then show ?thesis
      using sd lt pb by (auto simp: new_pending_info_def ck(1) pending_key_for_send_block_def
          validator_amount_def amount_sub_def)
  qed (use sd in \<open>simp_all add: is_send_def\<close>)
qed

lemma accepted_transfer_ok:
  assumes inv: "ledger_inv C L" and ok: "validate verify (create_validator C L now b) = Inr ins"
    and nz: "block_hash_of b \<noteq> 0" and nomint: "\<not> mints C L b"
  shows "insert_transfer_ok L b ins"
proof -
  let ?v = "create_validator C L now b"
  have ins: "ins = create_instructions ?v" by (rule validate_InrD(1) [OF ok])
  have src: "saved_source (saved_of b ins) = (if is_receive ?v then Some (source_or_link b) else None)"
    and snd: "saved_is_send (saved_of b ins) = is_send ?v"
    using saved_of_source [of ?v] saved_of_is_send [of ?v] by (simp_all add: ins)
  have ep: "saved_epoch (saved_of b ins) = validator_epoch ?v"
    using accepted_block_ok [OF inv ok nz] by (simp add: insert_block_ok_def ins)
  have sep: "saved_source_epoch (saved_of b ins) = (if is_legacy b then Epoch0 else source_epoch ?v)"
    by (cases b) (simp_all add: saved_of_def saved_source_epoch_def reload_def saved_block_new_def ins
        new_sideband_def)
  have f: "bi_insert_pending ins = new_pending_info ?v"
    "bi_delete_pending ins = delete_received_pending_info ?v"
    "ai_balance (bi_set_account_info ins) = new_balance ?v" "bi_account ins = bv_account ?v"
    by (simp_all add: ins)
  show ?thesis
  proof (cases "is_receive ?v")
    case True
    then obtain p where "tbl_get (st_pending L) (PendingKey (bi_account ins) (source_or_link b)) = Some p"
      "source_epoch ?v = pi_epoch p" "is_legacy b \<longrightarrow> pi_epoch p = Epoch0"
      "unat (new_balance ?v) = unat (old_amount L ins) + unat (pi_amount p)"
      by (metis accepted_receive [OF inv ok])
    moreover have "new_pending_info ?v = None"
      using receive_not_send [OF True] True
      by (cases b) (auto simp: new_pending_info_def is_receive_def)
    ultimately show ?thesis
      using True receive_not_send [OF True]
      by (simp add: insert_transfer_ok_def src snd sep f delete_received_pending_info_def)
  next
    case False
    then show ?thesis
      using accepted_send [OF inv ok] accepted_neither [OF inv ok nomint False]
      by (cases "is_send ?v") (auto simp: insert_transfer_ok_def src snd ep f
          delete_received_pending_info_def new_pending_info_def is_send_def split: block.splits)
  qed
qed

lemma accepted_link_wf:
  assumes ok: "validate verify (create_validator C L now b) = Inr ins"
  shows "link_wf C (saved_of b ins)"
proof (cases b)
  case (State st)
  then show ?thesis
    using validate_InrD(1) [OF ok] receive_not_send [of "create_validator C L now b"]
    by (auto simp: link_wf_def saved_of_def saved_is_send_def reload_def saved_block_new_def
        new_sideband_def validator_block_details_def block_details_new_def is_receive_def is_send_def
        has_epoch_link_def not_le split: option.splits if_splits)
qed (simp_all add: link_wf_def saved_of_def saved_block_new_def)

lemma validate_insertable:
  assumes "ledger_inv C L" "validate verify (create_validator C L now b) = Inr ins"
    "block_hash_of b \<noteq> 0" "\<not> mints C L b"
  shows "insertable C L b ins"
  using accepted_block_ok [OF assms(1-3)] accepted_chain_ok [OF assms(1-2)] accepted_transfer_ok [OF assms]
    accepted_link_wf [OF assms(2)]
  by (simp add: insertable_def)

end
