(* ===== verification/Insertion_Keeps.thy ===== *)
theory Insertion_Keeps
  imports Insertion_Inv
begin

text \<open>
  Insertion of an insertable block: it does not panic, the tables afterwards
  (\<open>inserted\<close>), and each conjunct of the ledger invariant for them.
\<close>

section \<open>The tables after an insertion\<close>

definition pending_after :: "block_insert_instructions \<Rightarrow> (pending_key, pending_info) table \<Rightarrow>
    (pending_key, pending_info) table" where
  "pending_after ins t =
     (let t = (case bi_delete_pending ins of Some k \<Rightarrow> fmdrop k t | None \<Rightarrow> t) in
      case bi_insert_pending ins of Some (k, p) \<Rightarrow> tbl_put k p t | None \<Rightarrow> t)"

definition inserted :: "ledger \<Rightarrow> block \<Rightarrow> block_insert_instructions \<Rightarrow> ledger \<Rightarrow> bool" where
  "inserted L b ins L' \<longleftrightarrow>
     st_block L' = tbl_put (block_hash_of b) (saved_of b ins) (st_block L) \<and>
     st_successors L' = (if block_previous b \<noteq> 0
       then tbl_put (block_previous b) (block_hash_of b) (st_successors L) else st_successors L) \<and>
     st_account L' = tbl_put (bi_account ins) (bi_set_account_info ins) (st_account L) \<and>
     st_pending L' = pending_after ins (st_pending L) \<and>
     st_confirmation_height L' = st_confirmation_height L \<and>
     st_final_vote L' = st_final_vote L \<and>
     cache_confirmed_count L' = cache_confirmed_count L \<and>
     cache_block_count L' = cache_block_count L + 1 \<and>
     cache_account_count L' = cache_account_count L +
       (if tbl_get (st_account L) (bi_account ins) = None then 1 else 0) \<and>
     lg_min_weight L' = lg_min_weight L \<and>
     weights_inv L'"

lemma insertedD:
  assumes "inserted L b ins L'"
  shows "st_block L' = tbl_put (block_hash_of b) (saved_of b ins) (st_block L)"
    "st_successors L' = (if block_previous b \<noteq> 0
       then tbl_put (block_previous b) (block_hash_of b) (st_successors L) else st_successors L)"
    "st_account L' = tbl_put (bi_account ins) (bi_set_account_info ins) (st_account L)"
    "st_pending L' = pending_after ins (st_pending L)"
    "st_confirmation_height L' = st_confirmation_height L"
    "cache_confirmed_count L' = cache_confirmed_count L"
    "cache_block_count L' = cache_block_count L + 1"
    "cache_account_count L' = cache_account_count L +
       (if tbl_get (st_account L) (bi_account ins) = None then 1 else 0)"
    "weights_inv L'"
  using assms by (simp_all add: inserted_def)

lemma tracks_cong:
  assumes "st_rep_weight L1 = st_rep_weight L2" "lg_rep_weights L1 = lg_rep_weights L2"
    "lg_min_weight L1 = lg_min_weight L2"
  shows "tracks weights_ok table_weight L1 t = tracks weights_ok table_weight L2 t"
  using assms by (simp add: tracks_def weights_ok_def table_weight_def)

lemma representation_add_frame:
  assumes "weights_ok L" "representation_add r x L = Some L'"
  shows "\<exists>w c. L' = L\<lparr>st_rep_weight := w, lg_rep_weights := c\<rparr>"
  using assms set_weight_frame [of r "table_weight L r + x" L] by (auto simp: representation_add_eq)

lemma representation_add_dual_frame:
  assumes "weights_ok L" "representation_add_dual r1 x1 r2 x2 L = Some L'"
  shows "\<exists>w c. L' = L\<lparr>st_rep_weight := w, lg_rep_weights := c\<rparr>"
proof (cases "r1 = r2")
  case True
  then show ?thesis
    using assms representation_add_frame by (auto simp: representation_add_dual_def)
next
  case False
  then show ?thesis
    using assms set_weight_frame by (auto simp: representation_add_dual_eq set_weight_def cache_put_def)
qed

lemma fmupd_fmdrop [simp]: "fmupd k v (fmdrop k t) = fmupd k v t"
  by (rule fmap_ext) auto

lemma update_account_insert:
  assumes "insertable C L b ins" "st_account L1 = st_account L"
  shows "update_account (bi_account ins) (bi_old_account_info ins) (bi_set_account_info ins) L1 =
    Some (L1\<lparr>cache_account_count := cache_account_count L1 +
        (if tbl_get (st_account L) (bi_account ins) = None then 1 else 0),
      st_account := tbl_put (bi_account ins) (bi_set_account_info ins) (st_account L)\<rparr>)"
  using assms
  by (cases "tbl_get (st_account L) (bi_account ins)")
    (auto simp: insertable_def insert_chain_ok_def insert_block_ok_def update_account_def Let_def
      account_info_default_def account_del_def tbl_del_def)

lemma delete_pending_insert:
  assumes "insertable C L b ins" "st_pending L1 = st_pending L"
  shows "\<exists>L2. delete_old_pending_info ins L1 = Some L2 \<and>
    insert_new_pending_info ins L2 = L1\<lparr>st_pending := pending_after ins (st_pending L)\<rparr>"
  using assms
  by (auto simp: insertable_def insert_transfer_ok_def delete_old_pending_info_def
      insert_new_pending_info_def pending_after_def pending_del_def tbl_del_def
      split: option.splits if_splits)

lemma update_weights_insert:
  assumes ok: "insertable C L b ins" and w: "weights_inv L"
    and same: "st_rep_weight L1 = st_rep_weight L" "lg_rep_weights L1 = lg_rep_weights L"
      "lg_min_weight L1 = lg_min_weight L"
  shows "\<exists>w c. update_representative_cache ins L1 = Some (L1\<lparr>st_rep_weight := w, lg_rep_weights := c\<rparr>) \<and>
    tracks weights_ok table_weight (L1\<lparr>st_rep_weight := w, lg_rep_weights := c\<rparr>)
      (tbl_put (bi_account ins) (bi_set_account_info ins) (st_account L))"
proof -
  have tr: "tracks weights_ok table_weight L1 (st_account L)"
    using w tracks_cong [OF same] by (simp add: weights_inv_def)
  then have wok: "weights_ok L1" by (simp add: tracks_def)
  show ?thesis
  proof (cases "tbl_get (st_account L) (bi_account ins)")
    case None
    then have "ai_head (bi_old_account_info ins) = 0"
      using ok by (simp add: insertable_def insert_chain_ok_def account_info_default_def)
    then show ?thesis
      using rep_weights.add_new_account [OF tr None, of "bi_set_account_info ins"]
        representation_add_frame [OF wok]
      by (fastforce simp: update_representative_cache_def)
  next
    case (Some i)
    then have "bi_old_account_info ins = i" "ai_head i \<noteq> 0"
      using ok by (simp_all add: insertable_def insert_chain_ok_def)
    then show ?thesis
      using rep_weights.move_account [OF tr Some, of "bi_set_account_info ins"]
        representation_add_dual_frame [OF wok]
      by (fastforce simp: update_representative_cache_def amount_wrapping_sub_def)
  qed
qed

lemma saved_of_fields [simp]:
  "svb_block (saved_of b ins) = b" "reload (saved_of b ins) = saved_of b ins"
  by (simp_all add: saved_of_def saved_block_new_def)

lemma saved_block_new_block [simp]: "svb_block (saved_block_new b s) = b"
  by (simp add: saved_block_new_def)

lemma not_changed_insertable:
  assumes "insertable C L b ins"
  shows "\<not> account_changed_since_validation ins L"
  using assms by (auto simp: insertable_def insert_chain_ok_def account_changed_since_validation_def
      get_current_account_info_def split: option.splits)

lemma insert_block_inserted:
  assumes ok: "insertable C L b ins" and w: "weights_inv L"
  shows "\<exists>L'. insert_block b ins L = Some (Some (saved_block_new b (bi_set_sideband ins)), L') \<and>
    inserted L b ins L'"
proof -
  let ?sb = "saved_block_new b (bi_set_sideband ins)"
  let ?L1 = "L\<lparr>st_block := tbl_put (block_hash_of b) (saved_of b ins) (st_block L)\<rparr>"
  let ?L2 = "?L1\<lparr>st_successors := (if block_previous b \<noteq> 0
    then tbl_put (block_previous b) (block_hash_of b) (st_successors L) else st_successors L)\<rparr>"
  let ?L3 = "?L2\<lparr>cache_account_count := cache_account_count L +
        (if tbl_get (st_account L) (bi_account ins) = None then 1 else 0),
      st_account := tbl_put (bi_account ins) (bi_set_account_info ins) (st_account L)\<rparr>"
  let ?L4 = "?L3\<lparr>st_pending := pending_after ins (st_pending L)\<rparr>"
  have put: "block_put ?sb L = Some ?L1"
    using ok by (simp add: table_simps insertable_def insert_block_ok_def saved_of_def)
  have suc: "(if saved_previous ?sb \<noteq> 0 then successor_put (saved_previous ?sb) (saved_hash ?sb) ?L1
      else ?L1) = ?L2"
    by simp
  have acc: "update_account (bi_account ins) (bi_old_account_info ins) (bi_set_account_info ins) ?L2 = Some ?L3"
    using update_account_insert [OF ok, of ?L2] by simp
  obtain L' where pend: "delete_old_pending_info ins ?L3 = Some L'" "insert_new_pending_info ins L' = ?L4"
    using delete_pending_insert [OF ok, of ?L3] by auto
  obtain w c where wt: "update_representative_cache ins ?L4 = Some (?L4\<lparr>st_rep_weight := w, lg_rep_weights := c\<rparr>)"
    "tracks weights_ok table_weight (?L4\<lparr>st_rep_weight := w, lg_rep_weights := c\<rparr>)
      (tbl_put (bi_account ins) (bi_set_account_info ins) (st_account L))"
    using update_weights_insert [OF ok w, of ?L4] by auto
  let ?L5 = "?L4\<lparr>st_rep_weight := w, lg_rep_weights := c,
    cache_block_count := cache_block_count L + 1\<rparr>"
  have "insert_block b ins L = Some (Some ?sb, ?L5)"
    using not_changed_insertable [OF ok] wt(1)
    unfolding insert_block_def Let_def put suc acc pend bind.simps if_False by simp
  moreover have "weights_inv ?L5"
    using wt(2) tracks_cong [of ?L5 "?L4\<lparr>st_rep_weight := w, lg_rep_weights := c\<rparr>"]
    by (simp add: weights_inv_def)
  then have "inserted L b ins ?L5" by (simp add: inserted_def)
  ultimately show ?thesis by blast
qed

section \<open>What the contract says of the new block\<close>

lemma insertableD:
  assumes "insertable C L b ins"
  shows "block_hash_of b \<noteq> 0" "tbl_get (st_block L) (block_hash_of b) = None"
    "bi_account ins \<noteq> 0" "saved_account (saved_of b ins) = bi_account ins"
    "saved_height (saved_of b ins) = ai_block_count (bi_set_account_info ins)"
    "saved_balance (saved_of b ins) = ai_balance (bi_set_account_info ins)"
    "saved_epoch (saved_of b ins) = ai_epoch (bi_set_account_info ins)"
    "ai_head (bi_set_account_info ins) = block_hash_of b"
    "is_open b \<longleftrightarrow> block_previous b = 0" "link_wf C (saved_of b ins)"
  using assms by (simp_all add: insertable_def insert_block_ok_def insert_chain_ok_def)

lemma insertable_newD:
  assumes "insertable C L b ins" "tbl_get (st_account L) (bi_account ins) = None"
  shows "block_previous b = 0" "ai_open_block (bi_set_account_info ins) = block_hash_of b"
    "ai_block_count (bi_set_account_info ins) = 1"
    "representative_field b = Some (ai_representative (bi_set_account_info ins))"
    "old_amount L ins = 0"
  using assms by (simp_all add: insertable_def insert_chain_ok_def old_amount_def)

lemma insertable_followD:
  assumes "insertable C L b ins" "tbl_get (st_account L) (bi_account ins) = Some i"
  shows "block_previous b = ai_head i" "ai_head i \<noteq> 0"
    "ai_open_block (bi_set_account_info ins) = ai_open_block i"
    "ai_block_count (bi_set_account_info ins) = ai_block_count i + 1"
    "ai_representative (bi_set_account_info ins) =
       (case representative_field b of Some r \<Rightarrow> r | None \<Rightarrow> ai_representative i)"
    "old_amount L ins = ai_balance i"
  using assms by (simp_all add: insertable_def insert_chain_ok_def old_amount_def)

text \<open>The block before the new one is the head of its account.\<close>

lemma insertable_prevE:
  assumes "accounts_inv L" "insertable C L b ins" "block_previous b \<noteq> 0"
  obtains i p where "tbl_get (st_account L) (bi_account ins) = Some i" "block_previous b = ai_head i"
    "tbl_get (st_block L) (ai_head i) = Some p" "saved_account p = bi_account ins"
    "saved_balance p = ai_balance i" "saved_height p = ai_block_count i"
    "tbl_get (st_successors L) (ai_head i) = None"
proof (cases "tbl_get (st_account L) (bi_account ins)")
  case None
  then show thesis using insertable_newD(1) [OF assms(2)] assms(3) by simp
next
  case (Some i)
  note wf = accounts_invD [OF assms(1) Some]
  then obtain p where "tbl_get (st_block L) (ai_head i) = Some p" "saved_account p = bi_account ins"
    "saved_balance p = ai_balance i" "saved_height p = ai_block_count i" by (metis account_wf_headE)
  then show thesis
    using that [OF Some insertable_followD(1) [OF assms(2) Some]] wf by (simp add: account_wf_def)
qed

section \<open>Tables that grow\<close>

lemma inserted_block_get:
  assumes "inserted L b ins L'" "insertable C L b ins" "tbl_get (st_block L) h = Some x"
  shows "tbl_get (st_block L') h = Some x" "h \<noteq> block_hash_of b"
  using insertedD(1) [OF assms(1)] insertableD(2) [OF assms(2)] assms(3) by auto

lemma inserted_rep_at:
  assumes "inserted L b ins L'" "insertable C L b ins" "rep_at (st_block L) h r"
  shows "rep_at (st_block L') h r"
  using assms(3) inserted_block_get(1) [OF assms(1,2)] by (rule rep_at_mono)

lemma prev_balance_old:
  assumes "inserted L b ins L'" "insertable C L b ins" "blocks_inv L" "tbl_get (st_block L) h = Some x"
  shows "prev_balance (st_block L') x = prev_balance (st_block L) x"
proof (cases "saved_previous x = 0")
  case False
  then obtain p where "tbl_get (st_block L) (saved_previous x) = Some p"
    using blocks_invD [OF assms(3,4)] by (metis block_wf_prevE)
  then show ?thesis
    using inserted_block_get(1) [OF assms(1,2)] by (simp add: prev_balance_def)
qed (simp add: prev_balance_def)

lemma prev_balance_new:
  assumes "inserted L b ins L'" "insertable C L b ins" "accounts_inv L"
  shows "prev_balance (st_block L') (saved_of b ins) = old_amount L ins"
proof (cases "block_previous b = 0")
  case True
  then have "tbl_get (st_account L) (bi_account ins) = None"
    using insertable_followD(1,2) [OF assms(2)] by (cases "tbl_get (st_account L) (bi_account ins)") auto
  then show ?thesis using True insertable_newD(5) [OF assms(2)] by (simp add: prev_balance_def)
next
  case False
  then obtain i p where "tbl_get (st_account L) (bi_account ins) = Some i" "block_previous b = ai_head i"
    "tbl_get (st_block L) (ai_head i) = Some p" "saved_balance p = ai_balance i"
    by (metis insertable_prevE [OF assms(3,2)])
  then show ?thesis
    using False inserted_block_get(1) [OF assms(1,2)] insertable_followD(6) [OF assms(2)]
    by (simp add: prev_balance_def)
qed

section \<open>Chains\<close>

lemma block_wf_new:
  assumes inv: "blocks_inv L" "accounts_inv L" and ok: "insertable C L b ins"
    and L': "inserted L b ins L'" and room: "length (tbl_entries (st_block L)) < 2 ^ 64 - 1"
  shows "block_wf L' (block_hash_of b) (saved_of b ins)"
proof (cases "block_previous b = 0")
  case True
  then have "tbl_get (st_account L) (bi_account ins) = None"
    using insertable_followD(1,2) [OF ok] by (cases "tbl_get (st_account L) (bi_account ins)") auto
  then show ?thesis
    using True insertableD [OF ok] insertable_newD [OF ok] insertedD(3) [OF L']
    by (simp add: block_wf_def)
next
  case False
  then obtain i p where p: "tbl_get (st_account L) (bi_account ins) = Some i" "block_previous b = ai_head i"
    "tbl_get (st_block L) (ai_head i) = Some p" "saved_account p = bi_account ins"
    "saved_height p = ai_block_count i"
    by (metis insertable_prevE [OF inv(2) ok])
  have "unat (ai_block_count i) < 2 ^ 64 - 1"
    using block_count_le [OF inv p(1)] room by simp
  then have "unat (ai_block_count i + 1) = unat (ai_block_count i) + 1"
    by (simp add: unat_word_ariths)
  moreover have "block_hash_of b \<noteq> ai_head i"
    using p(3) insertableD(2) [OF ok] by auto
  ultimately show ?thesis
    using False p insertableD [OF ok] insertable_followD [OF ok p(1)] insertedD [OF L']
    by (simp add: block_wf_def)
qed

lemma block_wf_old:
  assumes inv: "blocks_inv L" "accounts_inv L" "successors_inv L" and ok: "insertable C L b ins"
    and L': "inserted L b ins L'" and x: "tbl_get (st_block L) h = Some x"
  shows "block_wf L' h x"
proof -
  note wf = blocks_invD [OF inv(1) x]
  have acc: "\<exists>i'. tbl_get (st_account L') (saved_account x) = Some i' \<and> ai_open_block i' = ai_open_block i"
    if "tbl_get (st_account L) (saved_account x) = Some i" for i
    using that insertedD(3) [OF L'] insertable_followD(3) [OF ok] by auto
  have suc: "tbl_get (st_successors L') p = Some n" if "tbl_get (st_successors L) p = Some n" for p n
  proof (cases "block_previous b = 0")
    case False
    then have "p \<noteq> block_previous b"
      using that by (metis insertable_prevE [OF inv(2) ok] option.distinct(1))
    then show ?thesis using that insertedD(2) [OF L'] by simp
  qed (use that insertedD(2) [OF L'] in simp)
  obtain i where i: "tbl_get (st_account L) (saved_account x) = Some i"
    "ai_head i = h \<or> tbl_get (st_successors L) h \<noteq> None"
    using wf by (rule block_wf_accountE)
  have head: "ai_head (bi_set_account_info ins) = h \<or> tbl_get (st_successors L') h \<noteq> None"
    if "saved_account x = bi_account ins"
    using that i insertable_followD(1,2) [OF ok] insertedD(2) [OF L'] suc by auto
  have "\<exists>i'. tbl_get (st_account L') (saved_account x) = Some i' \<and>
      (ai_head i' = h \<or> tbl_get (st_successors L') h \<noteq> None)"
    using i head insertedD(3) [OF L'] suc by auto
  moreover have "saved_previous x \<noteq> 0 \<Longrightarrow> \<exists>p. tbl_get (st_block L') (saved_previous x) = Some p \<and>
      saved_account p = saved_account x \<and> unat (saved_height x) = unat (saved_height p) + 1"
    using wf inserted_block_get(1) [OF L' ok] by (metis block_wf_prevE)
  ultimately show ?thesis
    using wf acc suc by (auto simp: block_wf_def)
qed

lemma blocks_inv_insert:
  assumes "blocks_inv L" "accounts_inv L" "successors_inv L" "insertable C L b ins"
    "inserted L b ins L'" "length (tbl_entries (st_block L)) < 2 ^ 64 - 1"
  shows "blocks_inv L'"
  using block_wf_new [OF assms(1,2,4,5,6)] block_wf_old [OF assms(1-5)] insertedD(1) [OF assms(5)]
  by (auto simp: blocks_inv_def)

lemma successors_inv_insert:
  assumes "successors_inv L" "insertable C L b ins" "inserted L b ins L'"
  shows "successors_inv L'"
  using assms(1) insertedD(1,2) [OF assms(3)] inserted_block_get(1) [OF assms(3,2)]
  by (fastforce simp: successors_inv_def split: if_splits)

lemma no_successor_new:
  assumes inv: "blocks_inv L" "accounts_inv L" "successors_inv L" and ok: "insertable C L b ins"
    and L': "inserted L b ins L'"
  shows "tbl_get (st_successors L') (block_hash_of b) = None"
proof -
  have "tbl_get (st_successors L) (block_hash_of b) = None"
  proof (rule ccontr)
    assume "\<not> ?thesis"
    then obtain h x where "tbl_get (st_block L) h = Some x" "saved_previous x = block_hash_of b"
      using inv(3) unfolding successors_inv_def by blast
    then show False
      using blocks_invD [OF inv(1)] insertableD(1,2) [OF ok] by (metis block_wf_prevE option.distinct(1))
  qed
  moreover have "block_previous b \<noteq> 0 \<Longrightarrow> block_previous b \<noteq> block_hash_of b"
    using insertableD(2) [OF ok] by (metis insertable_prevE [OF inv(2) ok] option.distinct(1))
  ultimately show ?thesis using insertedD(2) [OF L'] by auto
qed

lemma account_wf_new:
  assumes inv: "blocks_inv L" "accounts_inv L" "successors_inv L" and ok: "insertable C L b ins"
    and L': "inserted L b ins L'"
  shows "account_wf L' (bi_account ins) (bi_set_account_info ins)"
proof -
  note D = insertableD [OF ok] and T = insertedD [OF L']
  have new: "tbl_get (st_block L') (block_hash_of b) = Some (saved_of b ins)" using T(1) by simp
  show ?thesis
  proof (cases "tbl_get (st_account L) (bi_account ins)")
    case None
    note N = insertable_newD [OF ok None]
    have "rep_at (st_block L') (block_hash_of b) (ai_representative (bi_set_account_info ins))"
      using new N(4) by (auto intro: rep_at.own)
    then show ?thesis
      using no_successor_new [OF assms] new D N by (simp add: account_wf_def)
  next
    case (Some i)
    note F = insertable_followD [OF ok Some] and wf = accounts_invD [OF inv(2) Some]
    have "rep_at (st_block L') (ai_head i) (ai_representative i)"
      using wf inserted_rep_at [OF L' ok] by (simp add: account_wf_def)
    then have "rep_at (st_block L') (block_hash_of b) (ai_representative (bi_set_account_info ins))"
      using new F(1,5) by (cases "representative_field b") (auto intro: rep_at.intros)
    moreover obtain ob where "tbl_get (st_block L) (ai_open_block i) = Some ob"
      "saved_account ob = bi_account ins" "saved_previous ob = 0"
      using wf by (auto simp: account_wf_def)
    ultimately show ?thesis
      using no_successor_new [OF assms] new D F inserted_block_get(1) [OF L' ok]
      by (auto simp: account_wf_def)
  qed
qed

lemma accounts_inv_insert:
  assumes inv: "blocks_inv L" "accounts_inv L" "successors_inv L" and ok: "insertable C L b ins"
    and L': "inserted L b ins L'"
  shows "accounts_inv L'"
  unfolding accounts_inv_def
proof (intro allI impI)
  fix a i assume a: "tbl_get (st_account L') a = Some i"
  show "account_wf L' a i"
  proof (cases "a = bi_account ins")
    case True
    then show ?thesis using a insertedD(3) [OF L'] account_wf_new [OF assms] by simp
  next
    case False
    then have i: "tbl_get (st_account L) a = Some i" using a insertedD(3) [OF L'] by simp
    note wf = accounts_invD [OF inv(2) i]
    obtain hb where hb: "tbl_get (st_block L) (ai_head i) = Some hb" "saved_account hb = a"
      using wf by (metis account_wf_headE)
    have "block_previous b \<noteq> 0 \<Longrightarrow> block_previous b \<noteq> ai_head i"
      using hb False by (metis insertable_prevE [OF inv(2) ok] option.inject)
    then have "tbl_get (st_successors L') (ai_head i) = None"
      using wf insertedD(2) [OF L'] by (auto simp: account_wf_def)
    then show ?thesis
      using wf inserted_block_get(1) [OF L' ok] inserted_rep_at [OF L' ok]
      by (auto simp: account_wf_def)
  qed
qed

section \<open>Transfers\<close>

lemma insertable_receiveE:
  assumes "insertable C L b ins" "saved_source (saved_of b ins) = Some s"
  obtains p where "\<not> saved_is_send (saved_of b ins)" "bi_insert_pending ins = None"
    "bi_delete_pending ins = Some (PendingKey (bi_account ins) s)"
    "tbl_get (st_pending L) (PendingKey (bi_account ins) s) = Some p"
    "saved_source_epoch (saved_of b ins) = pi_epoch p"
    "unat (ai_balance (bi_set_account_info ins)) = unat (old_amount L ins) + unat (pi_amount p)"
  using assms by (auto simp: insertable_def insert_transfer_ok_def)

lemma insertable_sendD:
  assumes "insertable C L b ins" "saved_source (saved_of b ins) = None" "saved_is_send (saved_of b ins)"
  shows "bi_delete_pending ins = None" "block_previous b \<noteq> 0"
    "ai_balance (bi_set_account_info ins) \<le> old_amount L ins"
    "\<not> is_legacy b \<longrightarrow> ai_balance (bi_set_account_info ins) < old_amount L ins"
    "bi_insert_pending ins = Some (PendingKey (destination_or_link b) (block_hash_of b),
       \<lparr>pi_source = bi_account ins,
        pi_amount = old_amount L ins - ai_balance (bi_set_account_info ins),
        pi_epoch = saved_epoch (saved_of b ins)\<rparr>)"
  using assms by (simp_all add: insertable_def insert_transfer_ok_def)

lemma insertable_neitherD:
  assumes "insertable C L b ins" "saved_source (saved_of b ins) = None" "\<not> saved_is_send (saved_of b ins)"
  shows "bi_delete_pending ins = None" "bi_insert_pending ins = None"
    "ai_balance (bi_set_account_info ins) = old_amount L ins"
  using assms by (simp_all add: insertable_def insert_transfer_ok_def)

text \<open>The pending table changes at one key.\<close>

lemma pending_after_get:
  assumes "insertable C L b ins"
  shows "tbl_get (pending_after ins (st_pending L)) k =
    (case saved_source (saved_of b ins) of
       Some s \<Rightarrow> if k = PendingKey (bi_account ins) s then None else tbl_get (st_pending L) k
     | None \<Rightarrow>
         if saved_is_send (saved_of b ins) \<and> k = PendingKey (destination_or_link b) (block_hash_of b)
         then Some \<lparr>pi_source = bi_account ins,
           pi_amount = old_amount L ins - ai_balance (bi_set_account_info ins),
           pi_epoch = saved_epoch (saved_of b ins)\<rparr>
         else tbl_get (st_pending L) k)"
  using assms by (auto simp: insertable_def insert_transfer_ok_def pending_after_def
      split: option.splits if_splits)

lemma receives_new:
  assumes "genesis_inv C L" "insertable C L b ins"
  shows "receives C (saved_of b ins) = saved_source (saved_of b ins)"
    "block_hash_of b \<noteq> saved_hash (lc_genesis_block C)"
  using assms insertableD(2) [OF assms(2)] by (auto simp: receives_def genesis_inv_def)

lemma pending_invE:
  assumes "pending_inv L" "tbl_get (st_pending L) (PendingKey a s) = Some p"
  obtains sb where "tbl_get (st_block L) s = Some sb" "saved_is_send sb"
    "destination_or_link (svb_block sb) = a" "pi_source p = saved_account sb"
    "pi_epoch p = saved_epoch sb"
    "unat (pi_amount p) + unat (saved_balance sb) = unat (prev_balance (st_block L) sb)"
  using assms by (force simp: pending_inv_def pending_wf_def)

lemma transfer_wf_new:
  assumes inv: "ledger_inv C L" and ok: "insertable C L b ins" and L': "inserted L b ins L'"
  shows "transfer_wf C L' (saved_of b ins)"
proof -
  note I = ledger_invD [OF inv] and D = insertableD [OF ok] and P = pending_after_get [OF ok]
  note rc = receives_new [OF I(10) ok] and pb = prev_balance_new [OF L' ok I(3)]
  show ?thesis
  proof (cases "saved_source (saved_of b ins)")
    case (Some s)
    obtain p where p: "\<not> saved_is_send (saved_of b ins)"
      "tbl_get (st_pending L) (PendingKey (bi_account ins) s) = Some p"
      "saved_source_epoch (saved_of b ins) = pi_epoch p"
      "unat (ai_balance (bi_set_account_info ins)) = unat (old_amount L ins) + unat (pi_amount p)"
      by (metis insertable_receiveE [OF ok Some])
    obtain sb where sb: "tbl_get (st_block L) s = Some sb" "saved_is_send sb"
      "destination_or_link (svb_block sb) = bi_account ins" "pi_epoch p = saved_epoch sb"
      "unat (pi_amount p) + unat (saved_balance sb) = unat (prev_balance (st_block L) sb)"
      by (metis pending_invE [OF I(5) p(2)])
    have "prev_balance (st_block L') sb = prev_balance (st_block L) sb"
      by (rule prev_balance_old [OF L' ok I(1) sb(1)])
    moreover have "tbl_get (st_block L') s = Some sb"
      by (rule inserted_block_get(1) [OF L' ok sb(1)])
    ultimately have "receive_wf L' (saved_of b ins) s"
      using p sb D pb P Some insertedD(4) [OF L'] by (simp add: receive_wf_def)
    then show ?thesis using Some rc by (simp add: transfer_wf_def)
  next
    case None
    then show ?thesis
      using rc D pb P insertedD(4) [OF L'] insertable_sendD [OF ok None] insertable_neitherD [OF ok None]
      by (simp add: transfer_wf_def send_wf_def)
  qed
qed

lemma receive_wf_old:
  assumes inv: "ledger_inv C L" and ok: "insertable C L b ins" and L': "inserted L b ins L'"
    and x: "tbl_get (st_block L) h = Some x" and wf: "receive_wf L x s"
  shows "receive_wf L' x s"
proof -
  note I = ledger_invD [OF inv]
  obtain sb where sb: "tbl_get (st_block L) s = Some sb" "saved_is_send sb"
    "destination_or_link (svb_block sb) = saved_account x" "saved_source_epoch x = saved_epoch sb"
    "unat (saved_balance x) + unat (saved_balance sb) =
       unat (prev_balance (st_block L) x) + unat (prev_balance (st_block L) sb)"
    using wf by (auto simp: receive_wf_def)
  moreover have "s \<noteq> block_hash_of b" using inserted_block_get(2) [OF L' ok sb(1)] .
  moreover have "tbl_get (st_pending L') (PendingKey (saved_account x) s) = None"
    using wf \<open>s \<noteq> block_hash_of b\<close> pending_after_get [OF ok] insertedD(4) [OF L']
    by (auto simp: receive_wf_def split: option.splits)
  ultimately show ?thesis
    using wf inserted_block_get(1) [OF L' ok sb(1)] prev_balance_old [OF L' ok I(1) sb(1)]
      prev_balance_old [OF L' ok I(1) x] by (simp add: receive_wf_def)
qed

lemma send_wf_old:
  assumes inv: "ledger_inv C L" and ok: "insertable C L b ins" and L': "inserted L b ins L'"
    and x: "tbl_get (st_block L) h = Some x" and wf: "send_wf C L x"
  shows "send_wf C L' x"
proof -
  note I = ledger_invD [OF inv]
  let ?k = "PendingKey (destination_or_link (svb_block x)) (saved_hash x)"
  have "\<exists>h rb. tbl_get (st_block L') h = Some rb \<and> receives C rb = Some (saved_hash x)"
    if none: "tbl_get (st_pending L') ?k = None"
  proof (cases "tbl_get (st_pending L) ?k")
    case None
    then show ?thesis using wf inserted_block_get(1) [OF L' ok] by (auto simp: send_wf_def)
  next
    case (Some p)
    then have "saved_source (saved_of b ins) = Some (saved_hash x)"
      using none pending_after_get [OF ok] insertedD(4) [OF L'] by (auto split: option.splits if_splits)
    then show ?thesis using receives_new(1) [OF I(10) ok] insertedD(1) [OF L'] by auto
  qed
  then show ?thesis
    using wf prev_balance_old [OF L' ok I(1) x] by (simp add: send_wf_def)
qed

lemma transfers_inv_insert:
  assumes inv: "ledger_inv C L" and ok: "insertable C L b ins" and L': "inserted L b ins L'"
  shows "transfers_inv C L'"
proof -
  note I = ledger_invD [OF inv]
  have old: "transfer_wf C L' x" if x: "tbl_get (st_block L) h = Some x" for h x
  proof -
    have "transfer_wf C L x" using I(4) x by (auto simp: transfers_inv_def)
    then show ?thesis
      using receive_wf_old [OF inv ok L' x] send_wf_old [OF inv ok L' x] prev_balance_old [OF L' ok I(1) x]
      by (auto simp: transfer_wf_def split: option.splits if_splits)
  qed
  have uniq: "False" if x: "tbl_get (st_block L) h = Some x" "receives C x = Some s"
    "receives C (saved_of b ins) = Some s" for h x s
  proof -
    have src: "saved_source (saved_of b ins) = Some s"
      using that(3) receives_new(1) [OF I(10) ok] by simp
    obtain p where p: "tbl_get (st_pending L) (PendingKey (bi_account ins) s) = Some p"
      by (metis insertable_receiveE [OF ok src])
    obtain sb where "tbl_get (st_block L) s = Some sb" "destination_or_link (svb_block sb) = bi_account ins"
      by (metis pending_invE [OF I(5) p])
    moreover have "receive_wf L x s"
      using I(4) x(1,2) by (auto simp: transfers_inv_def transfer_wf_def split: option.splits)
    ultimately show False using p by (auto simp: receive_wf_def)
  qed
  show ?thesis
    unfolding transfers_inv_def
  proof (intro conjI allI impI)
    fix h x assume "tbl_get (st_block L') h = Some x"
    then show "transfer_wf C L' x"
      using insertedD(1) [OF L'] old transfer_wf_new [OF inv ok L'] by (auto split: if_splits)
  next
    fix h x h' x' s
    assume "tbl_get (st_block L') h = Some x" "tbl_get (st_block L') h' = Some x'"
      "receives C x = Some s" "receives C x' = Some s"
    then show "h = h'"
      using insertedD(1) [OF L'] uniq I(4) by (auto simp: transfers_inv_def split: if_splits)
  qed
qed

lemma pending_inv_insert:
  assumes inv: "ledger_inv C L" and ok: "insertable C L b ins" and L': "inserted L b ins L'"
  shows "pending_inv L'"
  unfolding pending_inv_def
proof (intro allI impI)
  note I = ledger_invD [OF inv] and D = insertableD [OF ok]
  fix k p assume k: "tbl_get (st_pending L') k = Some p"
  show "pending_wf L' k p"
  proof (cases "tbl_get (st_pending L) k = Some p")
    case True
    then have wf: "pending_wf L k p" using I(5) by (simp add: pending_inv_def)
    then obtain sb where sb: "tbl_get (st_block L) (send_block_hash k) = Some sb"
      by (auto simp: pending_wf_def)
    then show ?thesis
      using wf inserted_block_get(1) [OF L' ok sb] prev_balance_old [OF L' ok I(1) sb]
      by (simp add: pending_wf_def)
  next
    case False
    then have new: "saved_source (saved_of b ins) = None" "saved_is_send (saved_of b ins)"
      "k = PendingKey (destination_or_link b) (block_hash_of b)"
      "p = \<lparr>pi_source = bi_account ins, pi_amount = old_amount L ins - ai_balance (bi_set_account_info ins),
        pi_epoch = saved_epoch (saved_of b ins)\<rparr>"
      using k pending_after_get [OF ok] insertedD(4) [OF L'] by (auto split: option.splits if_splits)
    then show ?thesis
      using insertable_sendD(3) [OF ok] insertedD(1) [OF L'] D prev_balance_new [OF L' ok I(3)]
      by (simp add: pending_wf_def unat_sub word_le_nat_alt)
  qed
qed

section \<open>Supply and counters\<close>

lemma balance_total_insert:
  assumes "inserted L b ins L'"
  shows "balance_total L' + unat (old_amount L ins) =
    balance_total L + unat (ai_balance (bi_set_account_info ins))"
  using lmdb.sum_put_new [of "st_account L" "bi_account ins" "\<lambda>_ i. unat (ai_balance i)"]
    lmdb.sum_put_old [of "st_account L" "bi_account ins" _ "\<lambda>_ i. unat (ai_balance i)"]
  by (cases "tbl_get (st_account L) (bi_account ins)")
    (simp_all add: balance_total_def old_amount_def insertedD(3) [OF assms])

lemma pending_total_insert:
  assumes inv: "ledger_inv C L" and ok: "insertable C L b ins" and L': "inserted L b ins L'"
  shows "pending_total L' + unat (ai_balance (bi_set_account_info ins)) =
    pending_total L + unat (old_amount L ins)"
proof (cases "saved_source (saved_of b ins)")
  case (Some s)
  obtain p where p: "bi_insert_pending ins = None" "bi_delete_pending ins = Some (PendingKey (bi_account ins) s)"
    "tbl_get (st_pending L) (PendingKey (bi_account ins) s) = Some p"
    "unat (ai_balance (bi_set_account_info ins)) = unat (old_amount L ins) + unat (pi_amount p)"
    by (metis insertable_receiveE [OF ok Some])
  then show ?thesis
    using lmdb.sum_del [OF p(3), of "\<lambda>_ p. unat (pi_amount p)"]
    by (simp add: pending_total_def insertedD(4) [OF L'] pending_after_def)
next
  case None
  show ?thesis
  proof (cases "saved_is_send (saved_of b ins)")
    case True
    note S = insertable_sendD [OF ok None True]
    let ?k = "PendingKey (destination_or_link b) (block_hash_of b)"
    have "tbl_get (st_pending L) ?k = None"
      using insertableD(2) [OF ok]
      by (metis pending_invE [OF ledger_invD(5) [OF inv]] not_None_eq)
    then show ?thesis
      using S lmdb.sum_put_new [of "st_pending L" ?k "\<lambda>_ p. unat (pi_amount p)"]
      by (simp add: pending_total_def insertedD(4) [OF L'] pending_after_def unat_sub word_le_nat_alt)
  next
    case False
    then show ?thesis
      using insertable_neitherD [OF ok None False]
      by (simp add: pending_total_def insertedD(4) [OF L'] pending_after_def)
  qed
qed

lemma supply_inv_insert:
  assumes "ledger_inv C L" "insertable C L b ins" "inserted L b ins L'"
  shows "supply_inv L'"
  using balance_total_insert [OF assms(3)] pending_total_insert [OF assms] ledger_invD(6) [OF assms(1)]
  by (simp add: supply_inv_def)

lemma length_entries:
  "length (tbl_entries t) = (\<Sum>(k, v)\<leftarrow>tbl_entries t. (\<lambda>_ _. 1 :: nat) k v)"
  by (simp add: case_prod_unfold sum_list_triv)

lemma length_entries_put_new:
  "tbl_get t k = None \<Longrightarrow> length (tbl_entries (tbl_put k v t)) = length (tbl_entries t) + 1"
  by (subst (1 2) length_entries) (rule lmdb.sum_put_new)

lemma length_entries_put_old:
  "tbl_get t k = Some w \<Longrightarrow> length (tbl_entries (tbl_put k v t)) = length (tbl_entries t)"
  using lmdb.sum_put_old [of t k w "\<lambda>_ _. 1 :: nat" v] by (simp add: length_entries)

lemma counts_inv_insert:
  assumes "counts_inv L" "insertable C L b ins" "inserted L b ins L'"
  shows "counts_inv L'"
  using assms(1) insertableD(2) [OF assms(2)] insertedD [OF assms(3)]
  by (cases "tbl_get (st_account L) (bi_account ins)")
    (simp_all add: counts_inv_def length_entries_put_new length_entries_put_old)

lemma conf_inv_insert:
  assumes "conf_inv L" "insertable C L b ins" "inserted L b ins L'"
  shows "conf_inv L'"
  using assms(1) insertedD(5) [OF assms(3)] inserted_block_get(1) [OF assms(3,2)]
  by (fastforce simp: conf_inv_def)

lemma genesis_inv_insert:
  assumes "genesis_inv C L" "insertable C L b ins" "inserted L b ins L'"
  shows "genesis_inv C L'"
  using assms(1) insertedD(5) [OF assms(3)] inserted_block_get(1) [OF assms(3,2)]
  by (fastforce simp: genesis_inv_def)

lemma order_inv_insert:
  assumes inv: "ledger_inv C L" and ok: "insertable C L b ins" and L': "inserted L b ins L'"
  shows "order_inv C L'"
proof -
  note I = ledger_invD [OF inv]
  let ?h = "block_hash_of b" and ?b = "saved_of b ins"
  obtain rank where rk: "ranked C (st_block L) rank" using I(11) by (auto simp: order_inv_def)
  have new: "tbl_get (st_block L) ?h = None" using insertableD(2) [OF ok] .
  have old: "saved_previous x \<noteq> ?h" "receives C x \<noteq> Some ?h" if x: "tbl_get (st_block L) h = Some x" for h x
  proof -
    show "saved_previous x \<noteq> ?h"
      using block_wf_prevE [OF blocks_invD [OF I(1) x]] insertableD(1) [OF ok] new by force
    have "transfer_wf C L x" using I(4) x by (auto simp: transfers_inv_def)
    then show "receives C x \<noteq> Some ?h" using new by (auto simp: transfer_wf_def receive_wf_def)
  qed
  have "block_previous b \<noteq> ?h"
    using insertable_prevE [OF I(3) ok] new insertableD(1) [OF ok] by (metis option.distinct(1))
  moreover have "receives C ?b \<noteq> Some ?h"
  proof
    assume "receives C ?b = Some ?h"
    then obtain p where "tbl_get (st_pending L) (PendingKey (bi_account ins) ?h) = Some p"
      using insertable_receiveE [OF ok, of ?h] receives_new(1) [OF I(10) ok] by metis
    then show False using pending_invE [OF I(5)] new by (metis option.distinct(1) pending_key.sel(2))
  qed
  ultimately have "ranked C (st_block L') (rank(?h := Suc (rank (block_previous b) +
      (case receives C ?b of Some s \<Rightarrow> rank s | None \<Rightarrow> 0))))"
    using rk old unfolding ranked_def insertedD(1) [OF L'] by auto
  then show ?thesis by (auto simp: order_inv_def)
qed

lemma links_inv_insert:
  assumes "links_inv C L" "insertable C L b ins" "inserted L b ins L'"
  shows "links_inv C L'"
  using assms(1) insertableD(10) [OF assms(2)] by (auto simp: links_inv_def insertedD(1) [OF assms(3)])

lemma ledger_inv_insert:
  assumes "ledger_inv C L" "insertable C L b ins" "inserted L b ins L'"
    "length (tbl_entries (st_block L)) < 2 ^ 64 - 1"
  shows "ledger_inv C L'"
proof -
  note I = ledger_invD [OF assms(1)]
  show ?thesis
    unfolding ledger_inv_def
    using blocks_inv_insert [OF I(1,3,2) assms(2-4)] successors_inv_insert [OF I(2) assms(2,3)]
      accounts_inv_insert [OF I(1,3,2) assms(2,3)] transfers_inv_insert [OF assms(1-3)]
      pending_inv_insert [OF assms(1-3)] supply_inv_insert [OF assms(1-3)] insertedD(9) [OF assms(3)]
      conf_inv_insert [OF I(8) assms(2,3)] counts_inv_insert [OF I(9) assms(2,3)]
      genesis_inv_insert [OF I(10) assms(2,3)] order_inv_insert [OF assms(1-3)]
      links_inv_insert [OF I(12) assms(2,3)] by blast
qed

section \<open>Transfers that move an amount\<close>

definition send_moves :: "'a lmdb_store_scheme \<Rightarrow> block \<Rightarrow> block_insert_instructions \<Rightarrow> bool" where
  "send_moves L b ins \<longleftrightarrow>
     (saved_is_send (saved_of b ins) \<longrightarrow> ai_balance (bi_set_account_info ins) \<noteq> old_amount L ins)"

lemma all_move_insert:
  assumes inv: "ledger_inv C L" and ok: "insertable C L b ins" and L': "inserted L b ins L'"
    and mv: "all_move C L" and sm: "send_moves L b ins"
  shows "all_move C L'"
proof -
  note I = ledger_invD [OF inv]
  have new: "moves C L' (saved_of b ins)"
  proof (cases "receives C (saved_of b ins)")
    case None
    then show ?thesis
      using sm insertableD(6) [OF ok] prev_balance_new [OF L' ok I(3)] by (simp add: moves_def send_moves_def)
  next
    case (Some s)
    then have src: "saved_source (saved_of b ins) = Some s" using receives_new(1) [OF I(10) ok] by simp
    obtain p where p: "tbl_get (st_pending L) (PendingKey (bi_account ins) s) = Some p"
      "unat (ai_balance (bi_set_account_info ins)) = unat (old_amount L ins) + unat (pi_amount p)"
      by (metis insertable_receiveE [OF ok src])
    then have "pending_wf L (PendingKey (bi_account ins) s) p" using I(5) by (simp add: pending_inv_def)
    then obtain sb where sb: "tbl_get (st_block L) s = Some sb" "saved_is_send sb"
      "unat (pi_amount p) + unat (saved_balance sb) = unat (prev_balance (st_block L) sb)"
      by (auto simp: pending_wf_def)
    have "saved_balance sb \<noteq> prev_balance (st_block L) sb" using mv sb(1,2) by (simp add: all_move_def moves_def)
    then have "pi_amount p \<noteq> 0" using sb(3) by (auto simp: word_unat_eq_iff)
    then show ?thesis
      using p(2) insertableD(6) [OF ok] prev_balance_new [OF L' ok I(3)]
      by (auto simp: moves_def unat_eq_zero)
  qed
  have "moves C L' x" if "tbl_get (st_block L) h = Some x" for h x
    using mv that prev_balance_old [OF L' ok I(1) that] by (simp add: all_move_def moves_def)
  then show ?thesis using new insertedD(1) [OF L'] by (auto simp: all_move_def)
qed

end
