(* ===== verification/Batch.thy ===== *)
theory Batch
  imports Insertion_Keeps
begin

text \<open>
  \<^verbatim>\<open>process_batch\<close>: all blocks of a batch are validated against one snapshot and
  inserted afterwards, where the inserter only compares the head of the account. The contract
  of a validated block survives the insertions before it, or the head has changed and the
  block is reported as \<^verbatim>\<open>Conflict\<close>.
\<close>

type_synonym accepted = "(block_insert_instructions \<times> block) set"

text \<open>How the ledger grows from the snapshot while accepted blocks are inserted.\<close>

definition grown :: "accepted \<Rightarrow> ledger \<Rightarrow> ledger \<Rightarrow> bool" where
  "grown V L K \<longleftrightarrow>
     (\<forall>h x. tbl_get (st_block L) h = Some x \<longrightarrow> tbl_get (st_block K) h = Some x) \<and>
     (\<forall>a. tbl_get (st_account K) a = tbl_get (st_account L) a \<or>
        (\<exists>i. tbl_get (st_account K) a = Some i \<and> ai_head i \<noteq> 0 \<and>
           tbl_get (st_block L) (ai_head i) = None)) \<and>
     (\<forall>a s p. tbl_get (st_account K) a = tbl_get (st_account L) a \<longrightarrow>
        tbl_get (st_pending L) (PendingKey a s) = Some p \<longrightarrow>
        tbl_get (st_pending K) (PendingKey a s) = Some p) \<and>
     (\<forall>h x. tbl_get (st_block K) h = Some x \<longrightarrow> tbl_get (st_block L) h = None \<longrightarrow>
        tbl_get (st_account K) (saved_account x) \<noteq> tbl_get (st_account L) (saved_account x) \<and>
        (\<exists>(ins, b)\<in>V. block_hash_of b = h \<and> bi_account ins = saved_account x))"

text \<open>Accepted blocks with the same hash belong to the same account.\<close>

definition coherent :: "accepted \<Rightarrow> bool" where
  "coherent V \<longleftrightarrow> (\<forall>(ins, b)\<in>V. \<forall>(ins', b')\<in>V. block_hash_of b = block_hash_of b' \<longrightarrow>
     bi_account ins = bi_account ins')"

lemma grown_refl: "grown V L L"
  by (simp add: grown_def)

lemma grownD:
  assumes "grown V L K"
  shows "tbl_get (st_block L) h = Some x \<Longrightarrow> tbl_get (st_block K) h = Some x"
    "tbl_get (st_account K) a = tbl_get (st_account L) a \<or>
        (\<exists>i. tbl_get (st_account K) a = Some i \<and> ai_head i \<noteq> 0 \<and> tbl_get (st_block L) (ai_head i) = None)"
    "tbl_get (st_account K) a = tbl_get (st_account L) a \<Longrightarrow>
        tbl_get (st_pending L) (PendingKey a s) = Some p \<Longrightarrow>
        tbl_get (st_pending K) (PendingKey a s) = Some p"
    "tbl_get (st_block K) h = Some x \<Longrightarrow> tbl_get (st_block L) h = None \<Longrightarrow>
        tbl_get (st_account K) (saved_account x) \<noteq> tbl_get (st_account L) (saved_account x)"
    "tbl_get (st_block K) h = Some x \<Longrightarrow> tbl_get (st_block L) h = None \<Longrightarrow>
        \<exists>(ins, b)\<in>V. block_hash_of b = h \<and> bi_account ins = saved_account x"
  using assms unfolding grown_def by auto

section \<open>The contract survives\<close>

lemma unchanged_account:
  assumes inv: "accounts_inv L" and ok: "insertable C L b ins" and g: "grown V L K"
    and nc: "\<not> account_changed_since_validation ins K"
  shows "tbl_get (st_account K) (bi_account ins) = tbl_get (st_account L) (bi_account ins)"
proof (rule ccontr)
  assume "\<not> ?thesis"
  then obtain i where i: "tbl_get (st_account K) (bi_account ins) = Some i" "ai_head i \<noteq> 0"
    "tbl_get (st_block L) (ai_head i) = None"
    using grownD(2) [OF g, of "bi_account ins"] by auto
  have head: "ai_head i = ai_head (bi_old_account_info ins)"
    using nc i(1) by (simp add: account_changed_since_validation_def get_current_account_info_def)
  show False
  proof (cases "tbl_get (st_account L) (bi_account ins)")
    case None
    then show ?thesis
      using ok head i(2) by (simp add: insertable_def insert_chain_ok_def account_info_default_def)
  next
    case (Some j)
    then have "ai_head i = ai_head j"
      using ok head by (simp add: insertable_def insert_chain_ok_def)
    then show ?thesis
      using accounts_invD [OF inv Some] i(3) by (auto elim: account_wf_headE)
  qed
qed

lemma insertable_stable:
  assumes inv: "accounts_inv L" and ok: "insertable C L b ins" and g: "grown V L K"
    and V: "coherent V" "(ins, b) \<in> V"
    and nc: "\<not> account_changed_since_validation ins K"
  shows "insertable C K b ins"
proof -
  note acc = unchanged_account [OF inv ok g nc]
  have fresh: "tbl_get (st_block K) (block_hash_of b) = None"
  proof (rule ccontr)
    assume "\<not> ?thesis"
    then obtain x where x: "tbl_get (st_block K) (block_hash_of b) = Some x" by auto
    note old = insertableD(2) [OF ok]
    obtain ins' b' where "(ins', b') \<in> V" "block_hash_of b' = block_hash_of b"
      "bi_account ins' = saved_account x"
      using grownD(5) [OF g x old] by auto
    then have "saved_account x = bi_account ins"
      using V unfolding coherent_def by fastforce
    then show False using grownD(4) [OF g x old] acc by simp
  qed
  have amt: "old_amount K ins = old_amount L ins" using acc by (simp add: old_amount_def)
  have pend: "tbl_get (st_pending L) (PendingKey (bi_account ins) s) = Some p \<Longrightarrow>
      tbl_get (st_pending K) (PendingKey (bi_account ins) s) = Some p" for s p
    using grownD(3) [OF g acc] .
  have "insert_transfer_ok K b ins"
    using ok pend by (auto simp: insertable_def insert_transfer_ok_def amt split: option.splits)
  then show ?thesis
    using ok fresh acc by (simp add: insertable_def insert_block_ok_def insert_chain_ok_def)
qed

section \<open>One insertion\<close>

lemma account_changed_new:
  assumes inv: "accounts_inv L" and g: "grown V L K" and ok: "insertable C K b ins"
    and K': "inserted K b ins K'"
  shows "tbl_get (st_account K') (bi_account ins) \<noteq> tbl_get (st_account L) (bi_account ins)"
    "tbl_get (st_block L) (block_hash_of b) = None"
proof -
  show fresh: "tbl_get (st_block L) (block_hash_of b) = None"
    using insertableD(2) [OF ok] grownD(1) [OF g] by (cases "tbl_get (st_block L) (block_hash_of b)") auto
  show "tbl_get (st_account K') (bi_account ins) \<noteq> tbl_get (st_account L) (bi_account ins)"
  proof
    assume "tbl_get (st_account K') (bi_account ins) = tbl_get (st_account L) (bi_account ins)"
    then have "tbl_get (st_account L) (bi_account ins) = Some (bi_set_account_info ins)"
      using insertedD(3) [OF K'] by simp
    then show False
      using accounts_invD [OF inv] insertableD(8) [OF ok] fresh by (fastforce elim: account_wf_headE)
  qed
qed

lemma grown_insert:
  assumes inv: "ledger_inv C L" and g: "grown V L K" and ok: "insertable C K b ins"
    and K': "inserted K b ins K'" and V: "(ins, b) \<in> V"
  shows "grown V L K'"
proof -
  note I = ledger_invD [OF inv] and T = insertedD [OF K'] and D = insertableD [OF ok]
  note ch = account_changed_new [OF I(3) g ok K']
  have blk: "tbl_get (st_block L) h = Some x \<Longrightarrow> tbl_get (st_block K') h = Some x" for h x
    using grownD(1) [OF g] inserted_block_get(1) [OF K' ok] by blast
  have acc: "tbl_get (st_account K') a = tbl_get (st_account L) a \<or>
      (\<exists>i. tbl_get (st_account K') a = Some i \<and> ai_head i \<noteq> 0 \<and> tbl_get (st_block L) (ai_head i) = None)" for a
    using grownD(2) [OF g, of a] T(3) D(1,8) ch(2) by auto
  have pend: "tbl_get (st_pending K') (PendingKey a s) = Some p"
    if a: "tbl_get (st_account K') a = tbl_get (st_account L) a"
      and p: "tbl_get (st_pending L) (PendingKey a s) = Some p" for a s p
  proof -
    have ne: "a \<noteq> bi_account ins" using a ch(1) by auto
    then have "tbl_get (st_account K) a = tbl_get (st_account L) a" using a T(3) by simp
    then have "tbl_get (st_pending K) (PendingKey a s) = Some p" using grownD(3) [OF g] p by blast
    moreover have "s \<noteq> block_hash_of b"
      using ch(2) by (metis pending_invE [OF I(5) p] option.distinct(1))
    ultimately show ?thesis
      using ne T(4) pending_after_get [OF ok] by (auto split: option.splits)
  qed
  have new: "tbl_get (st_account K') (saved_account x) \<noteq> tbl_get (st_account L) (saved_account x) \<and>
      (\<exists>(ins, b)\<in>V. block_hash_of b = h \<and> bi_account ins = saved_account x)"
    if x: "tbl_get (st_block K') h = Some x" "tbl_get (st_block L) h = None" for h x
  proof (cases "h = block_hash_of b")
    case True
    then show ?thesis using x T(1) D(4) ch(1) V by auto
  next
    case False
    then have "tbl_get (st_block K) h = Some x" using x T(1) by simp
    then show ?thesis
      using grownD(4,5) [OF g _ x(2)] T(3) ch(1) by (cases "saved_account x = bi_account ins") auto
  qed
  show ?thesis
    unfolding grown_def using blk acc pend new by blast
qed

section \<open>The batch\<close>

definition processed_in :: "ledger \<Rightarrow> processed \<Rightarrow> bool" where
  "processed_in L p \<longleftrightarrow>
     (case p of
        (Inr _, Some sb) \<Rightarrow> tbl_get (st_block L) (saved_hash sb) = Some (reload sb)
      | (Inr _, None) \<Rightarrow> False
      | (Inl _, r) \<Rightarrow> r = None)"

text \<open>Insertion only adds blocks, and leaves confirmation heights and final votes alone.\<close>

definition extends :: "ledger \<Rightarrow> ledger \<Rightarrow> bool" where
  "extends L L' \<longleftrightarrow>
     (\<forall>h x. tbl_get (st_block L) h = Some x \<longrightarrow> tbl_get (st_block L') h = Some x) \<and>
     st_confirmation_height L' = st_confirmation_height L \<and> st_final_vote L' = st_final_vote L"

lemma extends_refl [simp]: "extends L L"
  by (simp add: extends_def)

lemma extends_trans: "extends L L1 \<Longrightarrow> extends L1 L2 \<Longrightarrow> extends L L2"
  unfolding extends_def by metis

lemma extends_insert: "insertable C L b ins \<Longrightarrow> inserted L b ins L' \<Longrightarrow> extends L L'"
  using inserted_block_get(1) [of L b ins L' C] by (simp add: extends_def inserted_def)

lemma insert_batch_ok:
  assumes inv: "ledger_inv C L" and V: "coherent V"
  shows "grown V L K \<Longrightarrow> ledger_inv C K \<Longrightarrow>
    length (tbl_entries (st_block K)) + length vs \<le> 2 ^ 64 - 1 \<Longrightarrow>
    (\<And>ins b. (Inr ins, b) \<in> set vs \<Longrightarrow> (ins, b) \<in> V \<and> insertable C L b ins) \<Longrightarrow>
    \<exists>ps K'. insert_batch vs K = Some (ps, K') \<and> ledger_inv C K' \<and> grown V L K' \<and> extends K K' \<and>
      list_all (processed_in K') ps \<and>
      (all_move C K \<longrightarrow> (\<forall>ins b. (Inr ins, b) \<in> set vs \<longrightarrow> send_moves L b ins) \<longrightarrow> all_move C K')"
proof (induction vs arbitrary: K)
  case (Cons v vs)
  obtain r b where v: "v = (r, b)" by (cases v)
  have vs: "(Inr ins, b) \<in> set vs \<Longrightarrow> (ins, b) \<in> V \<and> insertable C L b ins" for ins b
    using Cons.prems(4) by simp
  show ?case
  proof (cases r)
    case (Inl e)
    have "length (tbl_entries (st_block K)) + length vs \<le> 2 ^ 64 - 1" using Cons.prems(3) by simp
    from Cons.IH [OF Cons.prems(1,2) this vs] show ?thesis
      using v Inl by (auto simp: processed_in_def)
  next
    case (Inr ins)
    then have mem: "(ins, b) \<in> V" "insertable C L b ins" using Cons.prems(4) v by auto
    show ?thesis
    proof (cases "account_changed_since_validation ins K")
      case True
      have "length (tbl_entries (st_block K)) + length vs \<le> 2 ^ 64 - 1" using Cons.prems(3) by simp
      from Cons.IH [OF Cons.prems(1,2) this vs] show ?thesis
        using v Inr True by (auto simp: processed_in_def insert_block_def batch_outcome_def)
    next
      case False
      note ok = insertable_stable [OF ledger_invD(3) [OF inv] mem(2) Cons.prems(1) V mem(1) False]
      obtain K1 where K1: "insert_block b ins K = Some (Some (saved_block_new b (bi_set_sideband ins)), K1)"
        "inserted K b ins K1"
        using insert_block_inserted [OF ok ledger_invD(7) [OF Cons.prems(2)]] by blast
      have len: "length (tbl_entries (st_block K1)) + length vs \<le> 2 ^ 64 - 1"
        using Cons.prems(3) insertedD(1) [OF K1(2)] insertableD(2) [OF ok]
        by (simp add: length_entries_put_new)
      have inv1: "ledger_inv C K1"
        using Cons.prems(3) by (intro ledger_inv_insert [OF Cons.prems(2) ok K1(2)]) simp
      obtain ps K' where IH: "insert_batch vs K1 = Some (ps, K')" "ledger_inv C K'" "grown V L K'"
        "extends K1 K'" "list_all (processed_in K') ps"
        "all_move C K1 \<longrightarrow> (\<forall>ins b. (Inr ins, b) \<in> set vs \<longrightarrow> send_moves L b ins) \<longrightarrow> all_move C K'"
        using Cons.IH [OF grown_insert [OF inv Cons.prems(1) ok K1(2) mem(1)] inv1 len vs] by blast
      have "tbl_get (st_block K') (block_hash_of b) = Some (saved_of b ins)"
        using IH(4) insertedD(1) [OF K1(2)] by (simp add: extends_def)
      then have "processed_in K' (batch_outcome (Some (saved_block_new b (bi_set_sideband ins))))"
        by (simp add: processed_in_def batch_outcome_def saved_of_def)
      moreover have "old_amount K ins = old_amount L ins"
        using unchanged_account [OF ledger_invD(3) [OF inv] mem(2) Cons.prems(1) False] by (simp add: old_amount_def)
      then have "send_moves L b ins \<Longrightarrow> all_move C K \<Longrightarrow> all_move C K1"
        using all_move_insert [OF Cons.prems(2) ok K1(2)] by (simp add: send_moves_def)
      moreover have "extends K K'" by (rule extends_trans [OF extends_insert [OF ok K1(2)] IH(4)])
      ultimately show ?thesis
        using IH v Inr K1(1) by auto
    qed
  qed
qed auto

text \<open>
  A batch the ledger can process: hashes are not zero, blocks with the same hash agree on
  account and previous block (the hash function does not collide), no block mints.
\<close>

definition batch_ok :: "ledger_constants \<Rightarrow> ledger \<Rightarrow> (block \<times> unix_millis_timestamp) list \<Rightarrow> bool" where
  "batch_ok C L batch \<longleftrightarrow>
     (\<forall>(b, now)\<in>set batch. block_hash_of b \<noteq> 0 \<and> \<not> mints C L b \<and>
        (\<forall>(b', now')\<in>set batch. block_hash_of b = block_hash_of b' \<longrightarrow>
           account_field b = account_field b' \<and> block_previous b = block_previous b')) \<and>
     length (tbl_entries (st_block L)) + length batch \<le> 2 ^ 64 - 1"

lemma same_account:
  assumes "account_field b = account_field b'" "block_previous b = block_previous b'"
  shows "bv_account (create_validator C L now b) = bv_account (create_validator C L now' b')"
  unfolding create_validator_def Let_def factory_get_account_def factory_load_previous_block_def assms
  by simp

text \<open>A legacy send of amount 0.\<close>

definition zero_send :: "ledger \<Rightarrow> block \<Rightarrow> bool" where
  "zero_send L b =
     (case b of
        LegacySend x \<Rightarrow> block_balance L (sh_previous (sb_hashables x)) = Some (sh_balance (sb_hashables x))
      | _ \<Rightarrow> False)"

lemma accepted_send_moves:
  assumes inv: "ledger_inv C L" and ok: "insertable C L b ins" and nz: "\<not> zero_send L b"
  shows "send_moves L b ins"
  unfolding send_moves_def
proof
  assume sd: "saved_is_send (saved_of b ins)"
  show "ai_balance (bi_set_account_info ins) \<noteq> old_amount L ins"
  proof (cases b)
    case (LegacySend x)
    have none: "saved_source (saved_of b ins) = None"
      using LegacySend by (simp add: saved_source_def)
    have prev: "block_previous b \<noteq> 0" using insertable_sendD [OF ok none sd] by simp
    obtain i p where "tbl_get (st_account L) (bi_account ins) = Some i" "block_previous b = ai_head i"
      "tbl_get (st_block L) (ai_head i) = Some p" "saved_balance p = ai_balance i"
      by (metis insertable_prevE [OF ledger_invD(3) [OF inv] ok prev])
    moreover have "saved_balance (saved_of b ins) = sh_balance (sb_hashables x)"
      using LegacySend by (simp add: saved_balance_def)
    ultimately show ?thesis
      using nz LegacySend prev insertableD(6) [OF ok]
      by (auto simp: zero_send_def block_balance_def any_get_block_def old_amount_def)
  next
    case (State st)
    then have "\<not> is_legacy b" by simp
    then show ?thesis
      using ok sd by (auto simp: insertable_def insert_transfer_ok_def split: option.splits)
  qed (use sd in \<open>auto simp: saved_is_send_def\<close>)
qed

lemma process_batch_ok:
  assumes inv: "ledger_inv C L" and ok: "batch_ok C L batch"
  shows "\<exists>ps L'. process_batch verify C batch L = Some (ps, L') \<and> ledger_inv C L' \<and>
    length ps = length batch \<and> list_all (processed_in L') ps \<and>
    extends L L' \<and>
    (all_move C L \<longrightarrow> (\<forall>(b, now) \<in> set batch. \<not> zero_send L b) \<longrightarrow> all_move C L')"
proof -
  let ?vs = "validate_batch verify C L batch"
  let ?V = "{(ins, b). (Inr ins, b) \<in> set ?vs}"
  have acc: "\<exists>now. (b, now) \<in> set batch \<and> validate verify (create_validator C L now b) = Inr ins"
    if "(Inr ins, b) \<in> set ?vs" for ins b
    using that by (auto simp: validate_batch_def)
  have "coherent ?V"
    unfolding coherent_def
  proof (clarify)
    fix ins b ins' b'
    assume v: "(Inr ins, b) \<in> set ?vs" "(Inr ins', b') \<in> set ?vs" and h: "block_hash_of b = block_hash_of b'"
    obtain now where now: "(b, now) \<in> set batch" "validate verify (create_validator C L now b) = Inr ins"
      using acc [OF v(1)] by blast
    obtain now' where now': "(b', now') \<in> set batch"
      "validate verify (create_validator C L now' b') = Inr ins'"
      using acc [OF v(2)] by blast
    have "account_field b = account_field b'" "block_previous b = block_previous b'"
      using ok now(1) now'(1) h unfolding batch_ok_def by blast+
    then show "bi_account ins = bi_account ins'"
      using same_account validate_InrD(1) [OF now(2)] validate_InrD(1) [OF now'(2)] by simp
  qed
  moreover have "insertable C L b ins" if v: "(Inr ins, b) \<in> set ?vs" for ins b
  proof -
    obtain now where now: "(b, now) \<in> set batch" "validate verify (create_validator C L now b) = Inr ins"
      using acc [OF v] by blast
    have "block_hash_of b \<noteq> 0" "\<not> mints C L b"
      using ok now(1) unfolding batch_ok_def by blast+
    then show ?thesis by (rule validate_insertable [OF inv now(2)])
  qed
  moreover have "length (tbl_entries (st_block L)) + length ?vs \<le> 2 ^ 64 - 1"
    using ok by (simp add: batch_ok_def validate_batch_def)
  ultimately obtain ps L' where L': "insert_batch ?vs L = Some (ps, L')" "ledger_inv C L'"
    "extends L L'" "list_all (processed_in L') ps"
    "all_move C L \<longrightarrow> (\<forall>ins b. (Inr ins, b) \<in> set ?vs \<longrightarrow> send_moves L b ins) \<longrightarrow> all_move C L'"
    and ins: "\<And>ins b. (Inr ins, b) \<in> set ?vs \<Longrightarrow> insertable C L b ins"
    using insert_batch_ok [OF inv _ grown_refl inv, of ?V ?vs] by blast
  have "send_moves L b ins" if "\<forall>(b, now) \<in> set batch. \<not> zero_send L b" "(Inr ins, b) \<in> set ?vs" for ins b
    using that acc [OF that(2)] accepted_send_moves [OF inv ins [OF that(2)]] by blast
  then show ?thesis
    using L' insert_batch_length [of ?vs L ps L'] by (auto simp: process_batch_def validate_batch_def)
qed

text \<open>A block on its own: the verdict of the validator decides.\<close>

lemma process_batch_accepted:
  assumes "ledger_inv C L" "validate verify (create_validator C L now b) = Inr ins"
    and "block_hash_of b \<noteq> 0" "\<not> mints C L b"
  obtains L' where "process_batch verify C [(b, now)] L =
      Some ([(Inr (), Some (saved_block_new b (bi_set_sideband ins)))], L')" "inserted L b ins L'"
    "process_one verify C now b L = Some (Inr (saved_block_new b (bi_set_sideband ins)), L')"
proof -
  note ok = validate_insertable [OF assms]
  obtain L' where L': "insert_block b ins L = Some (Some (saved_block_new b (bi_set_sideband ins)), L')"
    "inserted L b ins L'"
    using insert_block_inserted [OF ok ledger_invD(7) [OF assms(1)]] by blast
  have "process_batch verify C [(b, now)] L =
      Some ([(Inr (), Some (saved_block_new b (bi_set_sideband ins)))], L')"
    using assms(2) L'(1) by (simp add: process_batch_def validate_batch_def batch_outcome_def)
  then show thesis using that L'(2) by (simp add: process_one_def)
qed

lemma process_one_rejected:
  assumes "validate verify (create_validator C L now b) = Inl e"
  shows "process_one verify C now b L = Some (Inl e, L)"
  using assms by (simp add: process_one_def process_batch_def validate_batch_def)

end
