(* ===== verification/Startup.thy ===== *)
theory Startup
  imports Insertion_Keeps "HOL-Library.Multiset"
begin

text \<open>
  Opening a ledger: \<^verbatim>\<open>add_genesis_block\<close> and \<^verbatim>\<open>initialize\<close> of
  \<^verbatim>\<open>ledger/src/ledger.rs\<close>, with \<^verbatim>\<open>parallel_traversal\<close> of
  \<^verbatim>\<open>store_lmdb/src/lib.rs\<close>. The worker threads each read one share of the key
  space and add their result to the caches under a lock, so a run is a sequence of shares:
  the \<open>schedule\<close>, a permutation of the splits.
\<close>

section \<open>Shares of a table\<close>

type_synonym key_split = "u256 \<times> u256 \<times> bool"

definition parallel_splits :: "nat \<Rightarrow> key_split list" where
  "parallel_splits thread_count =
     (let split = (2 ^ 256 - 1) div thread_count in
      map (\<lambda>i. (of_nat (split * i), of_nat (split * (i + 1)), i = thread_count - 1)) [0..<thread_count])"

definition share_of :: "(u256, 'v) table \<Rightarrow> key_split \<Rightarrow> (u256 \<times> 'v) list" where
  "share_of t = (\<lambda>(start, fin, is_last).
     case range_iter (Included start) (if is_last then Unbounded else Excluded fin) t of
       Some rs \<Rightarrow> rs | None \<Rightarrow> [])"

section \<open>Genesis and the caches\<close>

definition add_genesis_block :: "ledger_constants \<Rightarrow> ledger \<Rightarrow> ledger option" where
  "add_genesis_block C L = do {
     let genesis_hash = saved_hash (lc_genesis_block C);
     let genesis_account = lc_genesis_account C;
     L \<leftarrow> block_put (lc_genesis_block C) L;
     let L = conf_height_put genesis_account \<lparr>ch_height = 1, ch_frontier = genesis_hash\<rparr> L;
     let L = account_put genesis_account \<lparr>ai_head = genesis_hash,
       ai_representative = genesis_account, ai_open_block = genesis_hash, ai_balance = amount_MAX,
       ai_modified = 0, ai_block_count = 1, ai_epoch = Epoch0\<rparr> L;
     Some (rep_weight_put genesis_account amount_MAX L)
   }"

text \<open>The closure that is run on one share of the account table.\<close>

definition share_weights :: "(account \<times> account_info) list \<Rightarrow> rep_weights" where
  "share_weights share = fold (\<lambda>(_, info) m.
     if ai_balance info \<noteq> 0 then tbl_put (ai_representative info)
       (amount_add (unwrap_or_zero (tbl_get m (ai_representative info))) (ai_balance info)) m
     else m) share fmempty"

definition count_account_share :: "(account \<times> account_info) list \<Rightarrow> ledger \<Rightarrow> ledger" where
  "count_account_share share L =
     copy_from (tbl_entries (share_weights share))
       (L\<lparr>cache_block_count := cache_block_count L + fold (\<lambda>(_, info) n. n + ai_block_count info) share 0,
         cache_account_count := cache_account_count L + fold (\<lambda>_ n. n + 1) share 0\<rparr>)"

definition count_confirmed_share ::
    "(account \<times> confirmation_height_info) list \<Rightarrow> ledger \<Rightarrow> ledger" where
  "count_confirmed_share share L = L\<lparr>cache_confirmed_count := cache_confirmed_count L +
     fold (\<lambda>(_, info) n. n + ch_height info) share 0\<rparr>"

definition initialize :: "ledger_constants \<Rightarrow> key_split list \<Rightarrow> key_split list \<Rightarrow> ledger \<Rightarrow> ledger option" where
  "initialize C schedule1 schedule2 L = do {
     L \<leftarrow> (if tbl_entries (st_account L) = [] then add_genesis_block C L else Some L);
     let L = fold count_account_share (map (share_of (st_account L)) schedule1) L;
     let L = fold count_confirmed_share (map (share_of (st_confirmation_height L)) schedule2) L;
     Some L
   }"

definition empty_ledger :: "amount \<Rightarrow> ledger" where
  "empty_ledger min_weight = \<lparr>st_block = fmempty, st_account = fmempty, st_pending = fmempty,
     st_rep_weight = fmempty, st_confirmation_height = fmempty, st_successors = fmempty,
     st_final_vote = fmempty, cache_confirmed_count = 0, cache_block_count = 0,
     cache_account_count = 0, lg_rep_weights = rep_weight_cache_new, lg_min_weight = min_weight\<rparr>"

section \<open>The shares are a partition\<close>

lemma share_of_eq:
  "share_of t (s, e, l) = filter (\<lambda>r. s \<le> fst r \<and> (l \<or> fst r < e)) (tbl_entries t)"
  by (cases l) (simp_all add: share_of_def range_iter_Included del: range_iter.simps)

lemma split_bound:
  assumes "0 < n" "i \<le> n"
  shows "(2 ^ 256 - 1) div n * i < (2 :: nat) ^ 256"
proof -
  have "(2 ^ 256 - 1) div n * i \<le> (2 ^ 256 - 1) div n * (n :: nat)"
    using assms(2) by (rule mult_le_mono2)
  also have "\<dots> \<le> 2 ^ 256 - 1" by (simp add: mult.commute)
  finally show ?thesis by simp
qed

lemma unat_of_nat_u256: "x < 2 ^ 256 \<Longrightarrow> unat (of_nat x :: u256) = x"
  by (simp add: unat_of_nat)

lemma shares_below:
  assumes n: "0 < n" and m: "m < n"
  shows "mset (concat (map (share_of t) (map (\<lambda>i. (of_nat ((2 ^ 256 - 1) div n * i),
      of_nat ((2 ^ 256 - 1) div n * (i + 1)), i = n - 1)) [0..<m]))) =
    mset (filter (\<lambda>r. unat (fst r) < (2 ^ 256 - 1) div n * m) (tbl_entries t))"
  using m
proof (induction m)
  case (Suc m)
  let ?s = "(2 ^ 256 - 1) div n"
  have unats: "unat (of_nat (?s * m) :: u256) = ?s * m" "unat (of_nat (?s * (m + 1)) :: u256) = ?s * (m + 1)"
    using split_bound [OF n, of m] split_bound [OF n, of "m + 1"] Suc.prems
    by (simp_all only: unat_of_nat_u256)
  have last: "(m = n - 1) = False" using Suc.prems by simp
  have "mset (share_of t (of_nat (?s * m), of_nat (?s * (m + 1)), m = n - 1)) =
      filter_mset (\<lambda>r. ?s * m \<le> unat (fst r) \<and> unat (fst r) < ?s * (m + 1)) (mset (tbl_entries t))"
    using last unfolding share_of_eq word_le_nat_alt word_less_nat_alt unats
    by simp
  moreover have "filter_mset (\<lambda>r. unat (fst r) < ?s * Suc m) (mset (tbl_entries t)) =
      filter_mset (\<lambda>r. unat (fst r) < ?s * m) (mset (tbl_entries t)) +
      filter_mset (\<lambda>r. ?s * m \<le> unat (fst r) \<and> unat (fst r) < ?s * (m + 1)) (mset (tbl_entries t))"
    by (subst multiset_partition [of _ "\<lambda>r. unat (fst r) < ?s * m"])
      (auto simp: filter_filter_mset not_less intro!: arg_cong2 [where f = "(+)"] filter_mset_cong)
  ultimately show ?case
    using Suc by simp
qed simp

lemma shares_partition:
  assumes n: "0 < n"
  shows "mset (concat (map (share_of t) (parallel_splits n))) = mset (tbl_entries t)"
proof -
  let ?s = "(2 ^ 256 - 1) div n"
  let ?sp = "\<lambda>i. (of_nat (?s * i) :: u256, of_nat (?s * (i + 1)) :: u256, i = n - 1)"
  have "[0..<n] = [0..<n - 1] @ [n - 1]"
    using n by (metis Suc_pred' upt_Suc_append zero_le)
  then have "mset (concat (map (share_of t) (parallel_splits n))) =
      mset (concat (map (share_of t) (map ?sp [0..<n - 1]))) + mset (share_of t (?sp (n - 1)))"
    by (simp add: parallel_splits_def Let_def)
  also have "\<dots> = filter_mset (\<lambda>r. unat (fst r) < ?s * (n - 1)) (mset (tbl_entries t)) +
      filter_mset (\<lambda>r. \<not> unat (fst r) < ?s * (n - 1)) (mset (tbl_entries t))"
  proof -
    have "unat (of_nat (?s * (n - 1)) :: u256) = ?s * (n - 1)"
      using split_bound [OF n, of "n - 1"] by (intro unat_of_nat_u256) simp
    then show ?thesis
      using shares_below [OF n, of "n - 1" t] n
      by (simp add: share_of_eq word_le_nat_alt not_less del: of_nat_mult)
  qed
  also have "\<dots> = mset (tbl_entries t)" by (rule multiset_partition [symmetric])
  finally show ?thesis .
qed

lemma sum_list_perm:
  fixes f :: "'x \<Rightarrow> nat"
  assumes "mset xs = mset ys"
  shows "(\<Sum>x\<leftarrow>xs. f x) = (\<Sum>x\<leftarrow>ys. f x)"
proof -
  have "sum_mset (mset (map f xs)) = sum_mset (mset (map f ys))"
    using assms by simp
  then show ?thesis by (simp only: sum_mset_sum_list)
qed

lemma sum_list_concat_map:
  "(\<Sum>x\<leftarrow>concat xss. f x) = (\<Sum>xs\<leftarrow>xss. \<Sum>x\<leftarrow>xs. (f x :: nat))"
  by (induction xss) simp_all

lemma shares_sum:
  assumes "0 < n" "mset schedule = mset (parallel_splits n)"
  shows "(\<Sum>share\<leftarrow>map (share_of t) schedule. \<Sum>r\<leftarrow>share. f r) = (\<Sum>r\<leftarrow>tbl_entries t. (f r :: nat))"
proof -
  have "(\<Sum>share\<leftarrow>map (share_of t) schedule. \<Sum>r\<leftarrow>share. f r) =
      (\<Sum>share\<leftarrow>map (share_of t) (parallel_splits n). \<Sum>r\<leftarrow>share. f r)"
    using assms(2) by (intro sum_list_perm) simp
  also have "\<dots> = (\<Sum>r\<leftarrow>concat (map (share_of t) (parallel_splits n)). f r)"
    by (simp only: sum_list_concat_map)
  also have "\<dots> = (\<Sum>r\<leftarrow>tbl_entries t. f r)"
    using shares_partition [OF assms(1)] by (rule sum_list_perm)
  finally show ?thesis .
qed

section \<open>Weights that the cache collects\<close>

abbreviation cached :: "ledger \<Rightarrow> public_key \<Rightarrow> amount" where
  "cached L \<equiv> rep_weights_weight (rwc_weights (lg_rep_weights L))"

lemma share_weights_get:
  "unwrap_or_zero (tbl_get (share_weights share) r) =
     of_nat (\<Sum>(a, i)\<leftarrow>share. if ai_representative i = r then unat (ai_balance i) else 0)"
proof -
  have "unwrap_or_zero (tbl_get (fold (\<lambda>(_, info) m.
      if ai_balance info \<noteq> 0 then tbl_put (ai_representative info)
        (amount_add (unwrap_or_zero (tbl_get m (ai_representative info))) (ai_balance info)) m
      else m) share m) r) = unwrap_or_zero (tbl_get m r) +
     of_nat (\<Sum>(a, i)\<leftarrow>share. if ai_representative i = r then unat (ai_balance i) else 0)" for m
    by (induction share arbitrary: m) (auto simp: amount_add_def)
  from this [of fmempty] show ?thesis by (simp add: share_weights_def)
qed

lemma cached_put_min_0:
  "lg_min_weight L = 0 \<Longrightarrow> cached (cache_put r w L) q = (if q = r then w else cached L q)"
  by (simp add: cache_put_def put_cache_def rep_weights_weight_def)

lemma cache_put_fields [simp]:
  "lg_min_weight (cache_put r w L) = lg_min_weight L"
  "cache_block_count (cache_put r w L) = cache_block_count L"
  "cache_account_count (cache_put r w L) = cache_account_count L"
  "cache_confirmed_count (cache_put r w L) = cache_confirmed_count L"
  "st_account (cache_put r w L) = st_account L" "st_block (cache_put r w L) = st_block L"
  "st_rep_weight (cache_put r w L) = st_rep_weight L"
  "st_confirmation_height (cache_put r w L) = st_confirmation_height L"
  "st_pending (cache_put r w L) = st_pending L" "st_successors (cache_put r w L) = st_successors L"
  by (simp_all add: cache_put_def)

lemma copy_from_fields [simp]:
  "lg_min_weight (copy_from ws L) = lg_min_weight L"
  "cache_block_count (copy_from ws L) = cache_block_count L"
  "cache_account_count (copy_from ws L) = cache_account_count L"
  "cache_confirmed_count (copy_from ws L) = cache_confirmed_count L"
  "st_account (copy_from ws L) = st_account L" "st_block (copy_from ws L) = st_block L"
  "st_rep_weight (copy_from ws L) = st_rep_weight L"
  "st_confirmation_height (copy_from ws L) = st_confirmation_height L"
  "st_pending (copy_from ws L) = st_pending L" "st_successors (copy_from ws L) = st_successors L"
  by (induction ws arbitrary: L) (auto simp: copy_from_def)

lemma cached_copy_from_list:
  "lg_min_weight L = 0 \<Longrightarrow> cached (copy_from ws L) q =
     cached L q + of_nat (\<Sum>(r, w)\<leftarrow>ws. if r = q then unat w else 0)"
  by (induction ws arbitrary: L)
    (auto simp: copy_from_def cached_put_min_0 amount_wrapping_add_def algebra_simps)

lemma sum_entries_at:
  fixes t :: rep_weights
  shows "(\<Sum>(r, w)\<leftarrow>tbl_entries t. if r = q then unat w else 0) = unat (unwrap_or_zero (tbl_get t q))"
proof -
  have "(\<Sum>r\<in>dom (tbl_get t). if r = q then unat (the (tbl_get t r)) else 0) =
      (if q \<in> dom (tbl_get t) then unat (the (tbl_get t q)) else 0)"
    by (simp add: lmdb.finite_keys)
  then show ?thesis
    using lmdb.sum_entries [of "\<lambda>r w. if r = q then unat w else 0" t] by (cases "tbl_get t q") (auto simp: fmlookup_dom'_iff)
qed

lemma cached_count_share:
  assumes "lg_min_weight L = 0"
  shows "cached (count_account_share share L) q = cached L q +
    of_nat (\<Sum>(a, i)\<leftarrow>share. if ai_representative i = q then unat (ai_balance i) else 0)"
  using assms
  by (simp add: count_account_share_def cached_copy_from_list sum_entries_at share_weights_get)

lemma fold_count_words:
  "fold (\<lambda>(_, info) n. n + ai_block_count info) share (n0 :: u64) =
     n0 + of_nat (\<Sum>r\<leftarrow>share. unat (ai_block_count (snd r)))"
  "fold (\<lambda>_ n. n + 1) share (m0 :: u64) = m0 + of_nat (length share)"
  by (induction share arbitrary: n0 m0) (auto simp: algebra_simps)

lemma fold_height_words:
  "fold (\<lambda>(_, info) n. n + ch_height info) cs (n0 :: u64) =
     n0 + of_nat (\<Sum>r\<leftarrow>cs. unat (ch_height (snd r)))"
  by (induction cs arbitrary: n0) (auto simp: algebra_simps)

lemma count_account_share_fields [simp]:
  "lg_min_weight (count_account_share share L) = lg_min_weight L"
  "st_account (count_account_share share L) = st_account L"
  "st_block (count_account_share share L) = st_block L"
  "st_rep_weight (count_account_share share L) = st_rep_weight L"
  "st_confirmation_height (count_account_share share L) = st_confirmation_height L"
  "st_pending (count_account_share share L) = st_pending L"
  "st_successors (count_account_share share L) = st_successors L"
  "cache_confirmed_count (count_account_share share L) = cache_confirmed_count L"
  "cache_block_count (count_account_share share L) =
     cache_block_count L + of_nat (\<Sum>r\<leftarrow>share. unat (ai_block_count (snd r)))"
  "cache_account_count (count_account_share share L) = cache_account_count L + of_nat (length share)"
  by (simp_all add: count_account_share_def fold_count_words)

lemma fold_count_account:
  "cache_block_count (fold count_account_share shares L) = cache_block_count L +
     of_nat (\<Sum>share\<leftarrow>shares. \<Sum>r\<leftarrow>share. unat (ai_block_count (snd r)))"
  "cache_account_count (fold count_account_share shares L) = cache_account_count L +
     of_nat (\<Sum>share\<leftarrow>shares. length share)"
  "lg_min_weight L = 0 \<Longrightarrow> cached (fold count_account_share shares L) q = cached L q +
     of_nat (\<Sum>share\<leftarrow>shares. \<Sum>(a, i)\<leftarrow>share.
       if ai_representative i = q then unat (ai_balance i) else 0)"
  by (induction shares arbitrary: L) (auto simp: cached_count_share algebra_simps)

section \<open>The caches after start-up\<close>

definition caches_reset :: "ledger \<Rightarrow> bool" where
  "caches_reset L \<longleftrightarrow> cache_block_count L = 0 \<and> cache_account_count L = 0 \<and>
     cache_confirmed_count L = 0 \<and> rwc_weights (lg_rep_weights L) = fmempty"

definition total_block_count :: "'a lmdb_store_scheme \<Rightarrow> nat" where
  "total_block_count L = (\<Sum>r\<leftarrow>tbl_entries (st_account L). unat (ai_block_count (snd r)))"

definition total_confirmed :: "'a lmdb_store_scheme \<Rightarrow> nat" where
  "total_confirmed L = (\<Sum>r\<leftarrow>tbl_entries (st_confirmation_height L). unat (ch_height (snd r)))"

lemma fold_count_confirmed:
  "fold count_confirmed_share shares L = L\<lparr>cache_confirmed_count := cache_confirmed_count L +
     of_nat (\<Sum>share\<leftarrow>shares. \<Sum>r\<leftarrow>share. unat (ch_height (snd r)))\<rparr>"
  by (induction shares arbitrary: L)
    (simp_all add: count_confirmed_share_def fold_height_words algebra_simps)

lemma fold_count_account_tables [simp]:
  "st_confirmation_height (fold count_account_share shares L) = st_confirmation_height L"
  "cache_confirmed_count (fold count_account_share shares L) = cache_confirmed_count L"
  "st_block (fold count_account_share shares L) = st_block L"
  "st_account (fold count_account_share shares L) = st_account L"
  "st_rep_weight (fold count_account_share shares L) = st_rep_weight L"
  "st_pending (fold count_account_share shares L) = st_pending L"
  "st_successors (fold count_account_share shares L) = st_successors L"
  "lg_min_weight (fold count_account_share shares L) = lg_min_weight L"
  by (induction shares arbitrary: L) simp_all

lemma cached_shares:
  assumes "0 < n" "mset schedule = mset (parallel_splits n)" "lg_min_weight L = 0"
    "rwc_weights (lg_rep_weights L) = fmempty"
  shows "cached (fold count_account_share (map (share_of t) schedule) L) q = of_nat (delegated t q)"
proof -
  let ?f = "\<lambda>r. if ai_representative (snd r) = q then unat (ai_balance (snd r)) else 0"
  have "cached (fold count_account_share (map (share_of t) schedule) L) q =
      cached L q + of_nat (\<Sum>share\<leftarrow>map (share_of t) schedule. \<Sum>r\<leftarrow>share. ?f r)"
    using fold_count_account(3) [OF assms(3)] by (simp add: case_prod_unfold)
  also have "\<dots> = of_nat (delegated t q)"
    unfolding shares_sum [OF assms(1,2)]
    by (simp add: assms(4) rep_weights_weight_def delegated_def case_prod_unfold)
  finally show ?thesis .
qed

lemma initialize_counts:
  assumes "tbl_entries (st_account L) \<noteq> []" "caches_reset L" "0 < n"
    "mset schedule1 = mset (parallel_splits n)" "mset schedule2 = mset (parallel_splits n)"
  shows "\<exists>L'. initialize C schedule1 schedule2 L = Some L' \<and>
    cache_block_count L' = of_nat (total_block_count L) \<and>
    cache_account_count L' = of_nat (length (tbl_entries (st_account L))) \<and>
    cache_confirmed_count L' = of_nat (total_confirmed L) \<and>
    (lg_min_weight L = 0 \<longrightarrow> (\<forall>r. cached L' r = of_nat (delegated (st_account L) r)))"
proof -
  let ?L = "fold count_account_share (map (share_of (st_account L)) schedule1) L"
  have len: "(\<Sum>share\<leftarrow>map (share_of (st_account L)) schedule1. length share) =
      length (tbl_entries (st_account L))"
    using shares_sum [OF assms(3,4), where t = "st_account L" and f = "\<lambda>_. 1"]
    by (simp add: sum_list_triv comp_def)
  have w: "lg_min_weight L = 0 \<Longrightarrow> cached ?L r = of_nat (delegated (st_account L) r)" for r
    using assms(2) by (intro cached_shares [OF assms(3,4)]) (simp_all add: caches_reset_def)
  have "initialize C schedule1 schedule2 L = Some
      (fold count_confirmed_share (map (share_of (st_confirmation_height L)) schedule2) ?L)"
    using assms(1) by (simp add: initialize_def Let_def)
  then show ?thesis
    using assms(2) w len unfolding fold_count_confirmed shares_sum [OF assms(3,5)]
    by (simp add: fold_count_account shares_sum [OF assms(3,4)] total_block_count_def
        total_confirmed_def caches_reset_def del: map_map)
qed

text \<open>With one thread the cache holds exactly the weights of at least the minimum.\<close>

lemma copy_from_distinct:
  assumes "distinct (map fst ws)" "\<And>r w. (r, w) \<in> set ws \<Longrightarrow> tbl_get (rwc_weights (lg_rep_weights L)) r = None"
  shows "tbl_get (rwc_weights (lg_rep_weights (copy_from ws L))) q =
    (case map_of ws q of
       Some w \<Rightarrow> if w < lg_min_weight L \<or> w = 0 then None else Some w
     | None \<Rightarrow> tbl_get (rwc_weights (lg_rep_weights L)) q)"
  using assms
proof (induction ws arbitrary: L)
  case (Cons rw ws)
  obtain r w where rw: "rw = (r, w)" by (cases rw)
  let ?L = "cache_put r w L"
  have cut: "tbl_get (rwc_weights (lg_rep_weights ?L)) q =
      (if q = r then if w < lg_min_weight L \<or> w = 0 then None else Some w
       else tbl_get (rwc_weights (lg_rep_weights L)) q)" for q
    by (simp add: cache_put_def put_cache_def)
  have "copy_from (rw # ws) L = copy_from ws ?L"
    using Cons.prems(2) [of r w] rw
    by (simp add: copy_from_def rep_weights_weight_def amount_wrapping_add_def)
  moreover have "tbl_get (rwc_weights (lg_rep_weights (copy_from ws ?L))) q =
    (case map_of ws q of
       Some w \<Rightarrow> if w < lg_min_weight ?L \<or> w = 0 then None else Some w
     | None \<Rightarrow> tbl_get (rwc_weights (lg_rep_weights ?L)) q)"
  proof (rule Cons.IH)
    show "distinct (map fst ws)" using Cons.prems(1) by simp
    fix r' w' assume "(r', w') \<in> set ws"
    then show "tbl_get (rwc_weights (lg_rep_weights ?L)) r' = None"
      using Cons.prems rw cut by force
  qed
  moreover have "map_of ws r = None"
    using Cons.prems(1) rw by (simp add: map_of_eq_None_iff)
  moreover have "lg_min_weight ?L = lg_min_weight L" by simp
  ultimately show ?case
    using cut [of q] rw by (cases "q = r") (simp_all split: option.split)
qed (simp add: copy_from_def)

section \<open>A fresh ledger\<close>

text \<open>
  What the genesis blocks of the four networks have in common: an open block of a nonzero
  account that represents itself.
\<close>

definition genesis_ok :: "ledger_constants \<Rightarrow> bool" where
  "genesis_ok C =
     (case svb_block (lc_genesis_block C) of
        LegacyOpen g \<Rightarrow>
          lc_genesis_block C = saved_block_new (LegacyOpen g) (genesis_sideband (oh_account (ob_hashables g))) \<and>
          lc_genesis_account C = oh_account (ob_hashables g) \<and>
          oh_representative (ob_hashables g) = oh_account (ob_hashables g) \<and>
          oh_account (ob_hashables g) \<noteq> 0 \<and> ob_hash g \<noteq> 0
      | _ \<Rightarrow> False)"

lemma entries_empty [simp]: "tbl_entries fmempty = []"
  by (simp add: tbl_entries_def sorted_list_of_fmap_def sorted_list_of_fset.rep_eq)

lemma entries_single [simp]: "tbl_entries (fmupd k v fmempty) = [(k, v)]"
  by (simp add: tbl_entries_def sorted_list_of_fmap_def sorted_list_of_fset.rep_eq)

definition genesis_ledger :: "ledger_constants \<Rightarrow> amount \<Rightarrow> ledger" where
  "genesis_ledger C m =
     (let a = lc_genesis_account C; h = saved_hash (lc_genesis_block C) in
      \<lparr>st_block = fmupd h (reload (lc_genesis_block C)) fmempty,
       st_account = fmupd a \<lparr>ai_head = h, ai_representative = a, ai_open_block = h,
         ai_balance = amount_MAX, ai_modified = 0, ai_block_count = 1, ai_epoch = Epoch0\<rparr> fmempty,
       st_pending = fmempty, st_rep_weight = fmupd a amount_MAX fmempty,
       st_confirmation_height = fmupd a \<lparr>ch_height = 1, ch_frontier = h\<rparr> fmempty,
       st_successors = fmempty, st_final_vote = fmempty, cache_confirmed_count = 1,
       cache_block_count = 1, cache_account_count = 1,
       lg_rep_weights = rep_weight_cache_new\<lparr>rwc_weights := fmupd a amount_MAX fmempty\<rparr>,
       lg_min_weight = m\<rparr>)"

lemma parallel_splits_1: "parallel_splits (Suc 0) = [(0, - 1, True)]"
  by (simp add: parallel_splits_def)

lemma amount_MAX_props [simp]: "amount_MAX \<noteq> 0" "\<not> amount_MAX < m"
  by (simp_all add: amount_MAX_def not_less)

lemma initialize_empty:
  "initialize C (parallel_splits 1) (parallel_splits 1) (empty_ledger m) = Some (genesis_ledger C m)"
  by (simp add: initialize_def empty_ledger_def add_genesis_block_def block_put_def tbl_put_new_def
      Let_def parallel_splits_1 share_of_eq count_account_share_def count_confirmed_share_def
      share_weights_def copy_from_def cache_put_def put_cache_def genesis_ledger_def
      rep_weight_cache_new_def rep_weights_weight_def amount_wrapping_add_def amount_add_def)

lemma genesis_ledger_inv:
  assumes "genesis_ok C"
  shows "ledger_inv C (genesis_ledger C m)"
proof -
  from assms obtain g where g: "lc_genesis_block C = saved_block_new (LegacyOpen g)
      (genesis_sideband (oh_account (ob_hashables g)))" "lc_genesis_account C = oh_account (ob_hashables g)"
    "oh_representative (ob_hashables g) = oh_account (ob_hashables g)"
    "oh_account (ob_hashables g) \<noteq> 0" "ob_hash g \<noteq> 0"
    by (auto simp: genesis_ok_def split: block.splits)
  define gb where "gb = reload (lc_genesis_block C)"
  let ?L = "genesis_ledger C m"
  have b: "svb_block gb = LegacyOpen g" "saved_height gb = 1" "saved_account gb = oh_account (ob_hashables g)"
    "saved_balance gb = amount_MAX" "saved_epoch gb = Epoch0" "\<not> saved_is_send gb"
    "reload gb = gb"
    by (simp_all add: gb_def g(1) saved_block_new_def reload_def saved_height_def saved_account_def
        saved_balance_def saved_epoch_def saved_is_send_def genesis_sideband_def block_details_new_def)
  have h: "saved_hash (lc_genesis_block C) = ob_hash g" using g(1) by simp
  have blk: "tbl_get (st_block ?L) x = (if x = ob_hash g then Some gb else None)" for x
    by (simp add: genesis_ledger_def Let_def h gb_def)
  have "blocks_inv ?L"
    unfolding blocks_inv_def blk
    by (auto simp: block_wf_def b g(2-5) h genesis_ledger_def Let_def split: if_splits)
  moreover have "rep_at (st_block ?L) (ob_hash g) (oh_account (ob_hashables g))"
    by (rule rep_at.own [where b = gb]) (simp_all add: blk b g(3))
  then have "accounts_inv ?L"
    unfolding accounts_inv_def account_wf_def blk
    by (auto simp: genesis_ledger_def Let_def b g(2-5) h split: if_splits)
  moreover have "transfers_inv C ?L"
    unfolding transfers_inv_def blk by (auto simp: transfer_wf_def receives_def b h split: if_splits)
  moreover have "weights_inv ?L"
    by (auto simp: weights_inv_def tracks_def weights_ok_def table_weight_def genesis_ledger_def Let_def
        delegated_def)
  moreover have "supply_inv ?L"
    by (simp add: supply_inv_def balance_total_def pending_total_def genesis_ledger_def Let_def
        unat_amount_MAX)
  moreover have "successors_inv ?L" "pending_inv ?L" "counts_inv ?L"
    by (simp_all add: successors_inv_def pending_inv_def counts_inv_def genesis_ledger_def Let_def)
  moreover have "conf_inv ?L"
    unfolding conf_inv_def blk by (auto simp: genesis_ledger_def Let_def b g(2-5) h split: if_splits)
  moreover have "genesis_inv C ?L"
    unfolding genesis_inv_def blk h
    by (auto simp: b g(2-5) receives_def h genesis_ledger_def Let_def)
  moreover have "order_inv C ?L"
    unfolding order_inv_def ranked_def blk by (auto simp: b receives_def h split: if_splits)
  moreover have "links_inv C ?L"
    unfolding links_inv_def blk by (auto simp: b link_wf_def split: if_splits)
  ultimately show ?thesis by (simp add: ledger_inv_def)
qed

end
