(* ===== verification/Rollback.thy ===== *)
theory Rollback
  imports Insertion
begin

text \<open>
  Rollback of blocks: \<^verbatim>\<open>ledger/src/block_rollback\<close> and the rollback functions of
  \<^verbatim>\<open>ledger.rs\<close>. A planner describes how the head block of an account is undone,
  the executor changes the tables, and the performer keeps a stack of targets: a send that is
  already received asks for the rollback of the head of the receiving account first.

  A panic or a loop that does not end is \<open>None\<close>. The stack is a list with its top first.
\<close>

section \<open>Planning\<close>

datatype rollback_error = BlockNotFound | BlockConfirmed | PreviousBlockMissing
  | RepresentativeBlockMissing | Rejected

record rollback_instructions =
  rbi_block_hash :: block_hash
  rbi_block_sub_type :: block_sub_type
  rbi_account :: account
  rbi_remove_pending :: "pending_key option"
  rbi_add_pending :: "(pending_key \<times> pending_info) option"
  rbi_set_account_info :: account_info
  rbi_old_account_info :: account_info
  rbi_clear_successor :: "block_hash option"
  rbi_new_balance :: amount
  rbi_new_representative :: "public_key option"

datatype rollback_step =
    RollBackBlock rollback_instructions
  | RequestDependencyRollback block_hash

record rollback_planner =
  rp_epochs :: epochs
  rp_head_block :: saved_block
  rp_account :: account
  rp_current_account_info :: account_info
  rp_previous_representative :: "public_key option"
  rp_previous :: "saved_block option"
  rp_linked_account :: account
  rp_pending_receive :: "pending_info option"
  rp_latest_block_for_destination :: "block_hash option"
  rp_confirmation_height :: confirmation_height_info
  rp_now :: unix_timestamp

definition planner_previous_balance :: "rollback_planner \<Rightarrow> amount" where
  "planner_previous_balance p =
     (case rp_previous p of Some previous \<Rightarrow> saved_balance previous | None \<Rightarrow> 0)"

definition planner_previous_epoch :: "rollback_planner \<Rightarrow> epoch" where
  "planner_previous_epoch p =
     (case rp_previous p of Some previous \<Rightarrow> saved_epoch previous | None \<Rightarrow> Epoch0)"

definition planner_previous_representative :: "rollback_planner \<Rightarrow> public_key" where
  "planner_previous_representative p =
     (case rp_previous_representative p of
        Some r \<Rightarrow> r | None \<Rightarrow> ai_representative (rp_current_account_info p))"

definition planner_block_sub_type :: "rollback_planner \<Rightarrow> block_sub_type" where
  "planner_block_sub_type p =
     (if ai_balance (rp_current_account_info p) < planner_previous_balance p then Send
      else if ai_balance (rp_current_account_info p) > planner_previous_balance p then
        if is_open (svb_block (rp_head_block p)) then Open else Receive
      else if is_epoch_link (rp_epochs p) (unwrap_or_zero (link_field (svb_block (rp_head_block p))))
      then Epoch
      else Change)"

definition previous_account_info :: "rollback_planner \<Rightarrow> account_info" where
  "previous_account_info p =
     (if saved_previous (rp_head_block p) = 0 then account_info_default
      else \<lparr>ai_head = saved_previous (rp_head_block p),
        ai_representative = planner_previous_representative p,
        ai_open_block = ai_open_block (rp_current_account_info p),
        ai_balance = planner_previous_balance p,
        ai_modified = rp_now p,
        ai_block_count = ai_block_count (rp_current_account_info p) - 1,
        ai_epoch = planner_previous_epoch p\<rparr>)"

definition planner_remove_pending :: "rollback_planner \<Rightarrow> pending_key option" where
  "planner_remove_pending p =
     (if planner_block_sub_type p = Send
      then Some (PendingKey (destination_or_link (svb_block (rp_head_block p)))
        (saved_hash (rp_head_block p)))
      else None)"

definition planner_add_pending :: "rollback_planner \<Rightarrow> (pending_key \<times> pending_info) option" where
  "planner_add_pending p =
     (if planner_block_sub_type p = Open \<or> planner_block_sub_type p = Receive then
        Some (PendingKey (rp_account p) (source_or_link (svb_block (rp_head_block p))),
          \<lparr>pi_source = rp_linked_account p,
           pi_amount = amount_sub (ai_balance (rp_current_account_info p)) (planner_previous_balance p),
           pi_epoch = saved_source_epoch (rp_head_block p)\<rparr>)
      else None)"

definition ensure_block_is_not_confirmed :: "rollback_planner \<Rightarrow> rollback_error + unit" where
  "ensure_block_is_not_confirmed p =
     (if saved_height (rp_head_block p) \<le> ch_height (rp_confirmation_height p)
      then Inl BlockConfirmed else Inr ())"

text \<open>The outer option is the panic \<^verbatim>\<open>no latest block for destination\<close>.\<close>

definition roll_back_destination_account_if_send_block_is_received ::
    "rollback_planner \<Rightarrow> rollback_step option option" where
  "roll_back_destination_account_if_send_block_is_received p =
     (if rp_pending_receive p \<noteq> None then Some None
      else map_option (\<lambda>h. Some (RequestDependencyRollback h)) (rp_latest_block_for_destination p))"

definition planner_instructions :: "rollback_planner \<Rightarrow> rollback_instructions" where
  "planner_instructions p = \<lparr>
     rbi_block_hash = saved_hash (rp_head_block p),
     rbi_block_sub_type = planner_block_sub_type p,
     rbi_account = rp_account p,
     rbi_remove_pending = planner_remove_pending p,
     rbi_add_pending = planner_add_pending p,
     rbi_set_account_info = previous_account_info p,
     rbi_old_account_info = rp_current_account_info p,
     rbi_clear_successor = map_option saved_hash (rp_previous p),
     rbi_new_balance = planner_previous_balance p,
     rbi_new_representative = rp_previous_representative p\<rparr>"

definition plan_roll_back_head_block :: "rollback_planner \<Rightarrow> (rollback_error + rollback_step) option" where
  "plan_roll_back_head_block p =
     (case ensure_block_is_not_confirmed p of
        Inl e \<Rightarrow> Some (Inl e)
      | Inr _ \<Rightarrow> do {
          dep \<leftarrow> (if planner_block_sub_type p = Send
            then roll_back_destination_account_if_send_block_is_received p else Some None);
          (case dep of
             Some step \<Rightarrow> Some (Inr step)
           | None \<Rightarrow>
               if rp_previous_representative p = None \<and>
                 block_type_of (svb_block (rp_head_block p)) \<in> {BT_LegacyChange, BT_State} \<and>
                 \<not> is_open (svb_block (rp_head_block p))
               then Some (Inl RepresentativeBlockMissing)
               else Some (Inr (RollBackBlock (planner_instructions p))))
        })"

section \<open>The planner of a head block\<close>

definition get_previous_representative ::
    "'a lmdb_store_scheme \<Rightarrow> saved_block \<Rightarrow> public_key option option" where
  "get_previous_representative L head_block = do {
     rep_block_hash \<leftarrow> (if saved_previous head_block \<noteq> 0
       then find_rep_block L (saved_previous head_block) else Some 0);
     (if rep_block_hash \<noteq> 0 then
        map_option (\<lambda>b. Some (unwrap_or_zero (representative_field (svb_block b))))
          (any_get_block L rep_block_hash)
      else Some None)
   }"

definition planner_load_previous_block ::
    "'a lmdb_store_scheme \<Rightarrow> saved_block \<Rightarrow> rollback_error + saved_block option" where
  "planner_load_previous_block L head_block =
     (if saved_previous head_block = 0 then Inr None
      else (case any_get_block L (saved_previous head_block) of
          None \<Rightarrow> Inl PreviousBlockMissing
        | Some previous \<Rightarrow> Inr (Some previous)))"

definition account_confirmation_height ::
    "'a lmdb_store_scheme \<Rightarrow> saved_block \<Rightarrow> confirmation_height_info" where
  "account_confirmation_height L head_block =
     (case get_conf_info L (saved_account head_block) of
        Some i \<Rightarrow> i | None \<Rightarrow> confirmation_height_info_default)"

definition create_planner :: "ledger_constants \<Rightarrow> 'a lmdb_store_scheme \<Rightarrow> unix_timestamp \<Rightarrow> saved_block \<Rightarrow>
    (rollback_error + rollback_planner) option" where
  "create_planner C L now head_block = do {
     account \<leftarrow> block_account L (saved_hash head_block);
     previous_representative \<leftarrow> get_previous_representative L head_block;
     (case planner_load_previous_block L head_block of
        Inl e \<Rightarrow> Some (Inl e)
      | Inr previous \<Rightarrow> Some (Inr \<lparr>
          rp_epochs = lc_epochs C,
          rp_head_block = head_block,
          rp_account = account,
          rp_current_account_info =
            (case any_get_account L account of Some i \<Rightarrow> i | None \<Rightarrow> account_info_default),
          rp_previous_representative = previous_representative,
          rp_previous = previous,
          rp_linked_account =
            unwrap_or_zero (block_account L (source_or_link (svb_block head_block))),
          rp_pending_receive =
            get_pending L (PendingKey (destination_or_link (svb_block head_block)) (saved_hash head_block)),
          rp_latest_block_for_destination =
            account_head L (destination_or_link (svb_block head_block)),
          rp_confirmation_height = account_confirmation_height L head_block,
          rp_now = now\<rparr>))
   }"

section \<open>Execution\<close>

definition rollback_pending_table :: "rollback_instructions \<Rightarrow> ledger \<Rightarrow> ledger option" where
  "rollback_pending_table ins L = do {
     L \<leftarrow> (case rbi_remove_pending ins of Some k \<Rightarrow> pending_del k L | None \<Rightarrow> Some L);
     Some (case rbi_add_pending ins of Some (k, i) \<Rightarrow> pending_put k i L | None \<Rightarrow> L)
   }"

definition rollback_account_table :: "rollback_instructions \<Rightarrow> ledger \<Rightarrow> ledger option" where
  "rollback_account_table ins L =
     update_account (rbi_account ins) (rbi_old_account_info ins) (rbi_set_account_info ins) L"

definition rollback_block_table :: "rollback_instructions \<Rightarrow> ledger \<Rightarrow> ledger option" where
  "rollback_block_table ins L =
     (let L = block_del (rbi_block_hash ins) L in
      case rbi_clear_successor ins of Some h \<Rightarrow> successor_del h L | None \<Rightarrow> Some L)"

definition roll_back_representative_cache :: "rollback_instructions \<Rightarrow> ledger \<Rightarrow> ledger option" where
  "roll_back_representative_cache ins L =
     (case rbi_new_representative ins of
        Some previous_rep \<Rightarrow>
          representation_add_dual
            (ai_representative (rbi_old_account_info ins))
            (amount_wrapping_sub 0 (ai_balance (rbi_old_account_info ins)))
            previous_rep (rbi_new_balance ins) L
      | None \<Rightarrow>
          representation_add
            (ai_representative (rbi_old_account_info ins))
            (amount_wrapping_sub 0 (ai_balance (rbi_old_account_info ins))) L)"

definition execute_rollback :: "rollback_instructions \<Rightarrow> ledger \<Rightarrow> ledger option" where
  "execute_rollback ins L = do {
     L \<leftarrow> rollback_pending_table ins L;
     L \<leftarrow> rollback_account_table ins L;
     L \<leftarrow> rollback_block_table ins L;
     L \<leftarrow> roll_back_representative_cache ins L;
     Some (L\<lparr>cache_block_count := cache_block_count L - 1\<rparr>)
   }"

section \<open>The performer\<close>

record performer =
  pf_targets :: "(saved_block \<times> saved_block) list"
  pf_rolled_back :: "saved_block list"
  pf_ledger :: ledger

definition performer_load_block :: "ledger \<Rightarrow> block_hash \<Rightarrow> rollback_error + saved_block" where
  "performer_load_block L h =
     (case any_get_block L h of Some b \<Rightarrow> Inr b | None \<Rightarrow> Inl BlockNotFound)"

definition load_account_head :: "ledger \<Rightarrow> saved_block \<Rightarrow> (rollback_error + saved_block) option" where
  "load_account_head L b =
     map_option (\<lambda>i. performer_load_block L (ai_head i)) (any_get_account L (saved_account b))"

definition performer_plan :: "ledger_constants \<Rightarrow> unix_timestamp \<Rightarrow> ledger \<Rightarrow> saved_block \<Rightarrow>
    (rollback_error + rollback_step) option" where
  "performer_plan C now L head_block = do {
     r \<leftarrow> create_planner C L now head_block;
     (case r of Inl e \<Rightarrow> Some (Inl e) | Inr p \<Rightarrow> plan_roll_back_head_block p)
   }"

text \<open>
  One round of the loop of \<^verbatim>\<open>roll_back_impl\<close>. \<open>Inl\<close> leaves the loop with an
  error; the changes made so far stay in the transaction.
\<close>

definition performer_round :: "ledger_constants \<Rightarrow> unix_timestamp \<Rightarrow> saved_block \<Rightarrow> saved_block \<Rightarrow>
    (saved_block \<times> saved_block) list \<Rightarrow> performer \<Rightarrow> ((rollback_error \<times> performer) + performer) option" where
  "performer_round C now target_block head_block rest s =
     (let L = pf_ledger s in
      if any_block_exists L (saved_hash target_block) then do {
        plan \<leftarrow> performer_plan C now L head_block;
        (case plan of
           Inl e \<Rightarrow> Some (Inl (e, s))
         | Inr (RollBackBlock ins) \<Rightarrow> do {
             L' \<leftarrow> execute_rollback ins L;
             let s = s\<lparr>pf_ledger := L', pf_rolled_back := pf_rolled_back s @ [head_block]\<rparr>;
             (if saved_hash head_block \<noteq> saved_hash target_block then do {
                r \<leftarrow> load_account_head L' target_block;
                (case r of
                   Inl e \<Rightarrow> Some (Inl (e, s))
                 | Inr head' \<Rightarrow> Some (Inr (s\<lparr>pf_targets := (target_block, head') # rest\<rparr>)))
              }
              else Some (Inr s))
           }
         | Inr (RequestDependencyRollback dependency_hash) \<Rightarrow>
             (case performer_load_block L dependency_hash of
                Inl e \<Rightarrow> Some (Inl (e, s))
              | Inr dep_block \<Rightarrow> do {
                  r \<leftarrow> load_account_head L target_block;
                  (case r of
                     Inl e \<Rightarrow> Some (Inl (e, s))
                   | Inr dep_head \<Rightarrow>
                       Some (Inr (s\<lparr>pf_targets := (dep_block, dep_head) # pf_targets s\<rparr>)))
                }))
      }
      else Some (Inr (s\<lparr>pf_targets := rest\<rparr>)))"

partial_function (option) roll_back_impl ::
    "ledger_constants \<Rightarrow> unix_timestamp \<Rightarrow> performer \<Rightarrow> (rollback_error option \<times> performer) option" where
  "roll_back_impl C now s =
     (case pf_targets s of
        [] \<Rightarrow> Some (None, s)
      | (target_block, head_block) # rest \<Rightarrow>
          (case performer_round C now target_block head_block rest s of
             None \<Rightarrow> None
           | Some (Inl (e, s')) \<Rightarrow> Some (Some e, s')
           | Some (Inr s') \<Rightarrow> roll_back_impl C now s'))"

definition performer_roll_back :: "ledger_constants \<Rightarrow> unix_timestamp \<Rightarrow> block_hash \<Rightarrow> ledger \<Rightarrow>
    (rollback_error option \<times> performer) option" where
  "performer_roll_back C now h L =
     (let s = \<lparr>pf_targets = [], pf_rolled_back = [], pf_ledger = L\<rparr> in
      case performer_load_block L h of
        Inl e \<Rightarrow> Some (Some e, s)
      | Inr target_block \<Rightarrow> do {
          r \<leftarrow> load_account_head L target_block;
          (case r of
             Inl e \<Rightarrow> Some (Some e, s)
           | Inr head_block \<Rightarrow>
               roll_back_impl C now (s\<lparr>pf_targets := [(target_block, head_block)]\<rparr>))
        })"

definition roll_back_with_tx :: "ledger_constants \<Rightarrow> unix_timestamp \<Rightarrow> block_hash \<Rightarrow> ledger \<Rightarrow>
    (saved_block list \<times> rollback_error option \<times> ledger) option" where
  "roll_back_with_tx C now h L =
     map_option (\<lambda>(e, s). (pf_rolled_back s, e, pf_ledger s)) (performer_roll_back C now h L)"

section \<open>Batches of rollbacks\<close>

record rollback_result =
  rr_target_hash :: block_hash
  rr_target_root :: qualified_root
  rr_rolled_back :: "saved_block list"
  rr_error :: "rollback_error option"

text \<open>
  The statistics are left out; \<open>can_roll_back\<close> is the closure of the caller and
  \<open>max_rollbacks\<close> a \<^verbatim>\<open>usize\<close>.
\<close>

fun roll_back_batch_loop :: "ledger_constants \<Rightarrow> unix_timestamp \<Rightarrow> nat \<Rightarrow> (block_hash \<Rightarrow> bool) \<Rightarrow>
    block_hash list \<Rightarrow> nat \<Rightarrow> ledger \<Rightarrow> (rollback_result list \<times> ledger) option" where
  "roll_back_batch_loop C now max_rollbacks can_roll_back [] count L = Some ([], L)"
| "roll_back_batch_loop C now max_rollbacks can_roll_back (h # hs) count L =
     (if \<not> can_roll_back h then
        map_option (\<lambda>(rs, L). (\<lparr>rr_target_hash = h, rr_target_root = qualified_root_ZERO,
            rr_rolled_back = [], rr_error = Some Rejected\<rparr> # rs, L))
          (roll_back_batch_loop C now max_rollbacks can_roll_back hs count L)
      else (case block_get L h of
          Some b \<Rightarrow> do {
            (rollback_list, error, L') \<leftarrow> roll_back_with_tx C now (saved_hash b) L;
            let count' = count + length rollback_list;
            let r = \<lparr>rr_target_hash = h, rr_target_root = qualified_root_of (svb_block b),
              rr_rolled_back = rollback_list, rr_error = error\<rparr>;
            (if count' \<ge> max_rollbacks then Some ([r], L')
             else map_option (\<lambda>(rs, L). (r # rs, L))
               (roll_back_batch_loop C now max_rollbacks can_roll_back hs count' L'))
          }
        | None \<Rightarrow>
            map_option (\<lambda>(rs, L). (\<lparr>rr_target_hash = h, rr_target_root = qualified_root_ZERO,
                rr_rolled_back = [], rr_error = Some BlockNotFound\<rparr> # rs, L))
              (roll_back_batch_loop C now max_rollbacks can_roll_back hs (count + 1) L)))"

definition roll_back_batch :: "ledger_constants \<Rightarrow> unix_timestamp \<Rightarrow> block_hash list \<Rightarrow> nat \<Rightarrow>
    (block_hash \<Rightarrow> bool) \<Rightarrow> ledger \<Rightarrow> (rollback_result list \<times> ledger) option" where
  "roll_back_batch C now targets max_rollbacks can_roll_back L =
     roll_back_batch_loop C now max_rollbacks can_roll_back targets 0 L"

definition roll_back :: "ledger_constants \<Rightarrow> unix_timestamp \<Rightarrow> block_hash \<Rightarrow> ledger \<Rightarrow>
    ((rollback_error + nat) \<times> ledger) option" where
  "roll_back C now h L = do {
     (rs, L') \<leftarrow> roll_back_batch C now [h] (2 ^ 64 - 1) (\<lambda>_. True) L;
     (case rs of
        r # _ \<Rightarrow> Some (case rr_error r of
            Some e \<Rightarrow> (Inl e, L') | None \<Rightarrow> (Inr (length (rr_rolled_back r)), L'))
      | [] \<Rightarrow> None)
   }"

definition rollback_competitor :: "ledger_constants \<Rightarrow> unix_timestamp \<Rightarrow> block \<Rightarrow> ledger \<Rightarrow>
    (saved_block list \<times> ledger) option" where
  "rollback_competitor C now fork_block L =
     (case block_successor_by_qualified_root L (qualified_root_of fork_block) of
        Some successor \<Rightarrow>
          if successor \<noteq> block_hash_of fork_block then
            map_option (\<lambda>(rolled, _, L'). (rolled, L')) (roll_back_with_tx C now successor L)
          else Some ([], L)
      | None \<Rightarrow> Some ([], L))"

text \<open>The results are passed to the callback in groups, at each refresh of the transaction.\<close>

fun roll_back_competitors :: "ledger_constants \<Rightarrow> unix_timestamp \<Rightarrow> block list \<Rightarrow> ledger \<Rightarrow>
    (rollback_result list \<times> ledger) option" where
  "roll_back_competitors C now [] L = Some ([], L)"
| "roll_back_competitors C now (b # bs) L = do {
     (rolled, L) \<leftarrow> rollback_competitor C now b L;
     (rs, L) \<leftarrow> roll_back_competitors C now bs L;
     Some (if rolled = [] then (rs, L)
       else (\<lparr>rr_target_hash = block_hash_of b, rr_target_root = qualified_root_of b,
         rr_rolled_back = rolled, rr_error = None\<rparr> # rs, L))
   }"

end
