(* ===== verification/Rollback_Keeps.thy ===== *)
theory Rollback_Keeps
  imports Rollback Insertion_Keeps
begin

text \<open>
  Rolling back the head block of an account keeps the ledger invariant. As for insertion there
  is a contract between planner and executor (\<open>undoes\<close>), the tables after the
  execution (\<open>rolled\<close>), and a lemma per conjunct of the invariant.

  Excluded are blocks that transfer nothing (\<open>moves\<close>): a legacy send of amount 0 is
  accepted, but the planner classifies blocks by the change of the balance alone, so it would
  leave the pending entry of such a send behind.
\<close>

section \<open>The contract between planner and executor\<close>

definition is_head :: "'a lmdb_store_scheme \<Rightarrow> saved_block \<Rightarrow> account_info \<Rightarrow> bool" where
  "is_head L b i \<longleftrightarrow> tbl_get (st_block L) (saved_hash b) = Some b \<and>
     tbl_get (st_account L) (saved_account b) = Some i \<and> ai_head i = saved_hash b"

definition unconfirmed :: "'a lmdb_store_scheme \<Rightarrow> saved_block \<Rightarrow> bool" where
  "unconfirmed L b \<longleftrightarrow>
     (\<forall>c. tbl_get (st_confirmation_height L) (saved_account b) = Some c \<longrightarrow> ch_height c < saved_height b)"

definition undo_chain :: "'a lmdb_store_scheme \<Rightarrow> saved_block \<Rightarrow> account_info \<Rightarrow>
    rollback_instructions \<Rightarrow> bool" where
  "undo_chain L hb i ins \<longleftrightarrow>
     rbi_block_hash ins = saved_hash hb \<and> rbi_account ins = saved_account hb \<and>
     rbi_old_account_info ins = i \<and>
     (if saved_previous hb = 0 then
        rbi_set_account_info ins = account_info_default \<and> rbi_clear_successor ins = None \<and>
        rbi_new_representative ins = None
      else \<exists>p r. tbl_get (st_block L) (saved_previous hb) = Some p \<and>
        rep_at (st_block L) (saved_previous hb) r \<and>
        rbi_clear_successor ins = Some (saved_previous hb) \<and>
        rbi_new_representative ins = Some r \<and> rbi_new_balance ins = saved_balance p \<and>
        ai_head (rbi_set_account_info ins) = saved_previous hb \<and>
        ai_representative (rbi_set_account_info ins) = r \<and>
        ai_open_block (rbi_set_account_info ins) = ai_open_block i \<and>
        ai_balance (rbi_set_account_info ins) = saved_balance p \<and>
        ai_block_count (rbi_set_account_info ins) = ai_block_count i - 1 \<and>
        ai_epoch (rbi_set_account_info ins) = saved_epoch p)"

definition undo_transfer :: "ledger_constants \<Rightarrow> 'a lmdb_store_scheme \<Rightarrow> saved_block \<Rightarrow>
    rollback_instructions \<Rightarrow> bool" where
  "undo_transfer C L hb ins \<longleftrightarrow>
     (case receives C hb of
        Some s \<Rightarrow> rbi_remove_pending ins = None \<and>
          (\<exists>sb p. tbl_get (st_block L) s = Some sb \<and> rbi_add_pending ins = Some (PendingKey (saved_account hb) s, p) \<and>
             pi_source p = saved_account sb \<and> pi_epoch p = saved_epoch sb \<and>
             unat (pi_amount p) + unat (prev_balance (st_block L) hb) = unat (saved_balance hb))
      | None \<Rightarrow> rbi_add_pending ins = None \<and>
          (if saved_is_send hb then
             rbi_remove_pending ins =
               Some (PendingKey (destination_or_link (svb_block hb)) (saved_hash hb)) \<and>
             tbl_get (st_pending L) (PendingKey (destination_or_link (svb_block hb)) (saved_hash hb)) \<noteq> None
           else rbi_remove_pending ins = None \<and> saved_balance hb = prev_balance (st_block L) hb))"

definition undoes :: "ledger_constants \<Rightarrow> 'a lmdb_store_scheme \<Rightarrow> saved_block \<Rightarrow> account_info \<Rightarrow>
    rollback_instructions \<Rightarrow> bool" where
  "undoes C L hb i ins \<longleftrightarrow> is_head L hb i \<and> unconfirmed L hb \<and>
     saved_hash hb \<noteq> saved_hash (lc_genesis_block C) \<and>
     undo_chain L hb i ins \<and> undo_transfer C L hb ins"

section \<open>Planning establishes the contract\<close>

lemma head_facts:
  assumes inv: "ledger_inv C L" and hd: "is_head L hb i"
  shows "block_wf L (saved_hash hb) hb" "account_wf L (saved_account hb) i"
    "saved_balance hb = ai_balance i" "saved_height hb = ai_block_count i" "saved_hash hb \<noteq> 0"
    "tbl_get (st_successors L) (saved_hash hb) = None"
proof -
  have b: "tbl_get (st_block L) (saved_hash hb) = Some hb"
    "tbl_get (st_account L) (saved_account hb) = Some i" "ai_head i = saved_hash hb"
    using hd by (simp_all add: is_head_def)
  show wf: "block_wf L (saved_hash hb) hb" by (rule blocks_invD [OF ledger_invD(1) [OF inv] b(1)])
  show awf: "account_wf L (saved_account hb) i" by (rule accounts_invD [OF ledger_invD(3) [OF inv] b(2)])
  show "saved_balance hb = ai_balance i" "saved_height hb = ai_block_count i"
    using awf b by (auto simp: account_wf_def)
  show "saved_hash hb \<noteq> 0" using block_wfD(1) [OF wf] .
  show "tbl_get (st_successors L) (saved_hash hb) = None" using awf b(3) by (auto simp: account_wf_def)
qed

lemma plan_prev_rep:
  assumes inv: "ledger_inv C L" and hd: "is_head L hb i"
  shows "(if saved_previous hb = 0 then get_previous_representative L hb = Some None
    else \<exists>r. rep_at (st_block L) (saved_previous hb) r \<and> get_previous_representative L hb = Some (Some r))"
proof (cases "saved_previous hb = 0")
  case False
  then obtain p where p: "tbl_get (st_block L) (saved_previous hb) = Some p"
    using head_facts(1) [OF assms] by (metis block_wf_prevE)
  obtain r where r: "rep_at (st_block L) (saved_previous hb) r"
    using rep_at_exists [OF ledger_invD(1) [OF inv] p] by blast
  obtain x b where "find_rep_block L (saved_previous hb) = Some x" "x \<noteq> 0"
    "tbl_get (st_block L) x = Some b" "representative_field (svb_block b) = Some r"
    using find_rep_block_rep_at [OF r ledger_invD(1) [OF inv]] by blast
  then have "get_previous_representative L hb = Some (Some r)"
    using False by (simp add: get_previous_representative_def any_get_block_def)
  then show ?thesis using False r by auto
qed (simp add: get_previous_representative_def)

text \<open>The planner of a head block, with its fields spelled out.\<close>

lemma create_planner_head:
  assumes inv: "ledger_inv C L" and hd: "is_head L hb i" and cp: "create_planner C L now hb = Some (Inr p)"
  shows "rp_head_block p = hb" "rp_account p = saved_account hb" "rp_current_account_info p = i"
    "planner_previous_balance p = prev_balance (st_block L) hb" "rp_epochs p = lc_epochs C"
    "rp_pending_receive p =
       tbl_get (st_pending L) (PendingKey (destination_or_link (svb_block hb)) (saved_hash hb))"
    "rp_linked_account p = unwrap_or_zero (block_account L (source_or_link (svb_block hb)))"
    "rp_confirmation_height p = account_confirmation_height L hb"
    "get_previous_representative L hb = Some (rp_previous_representative p)"
    "rp_previous p = (if saved_previous hb = 0 then None else tbl_get (st_block L) (saved_previous hb))"
    "saved_previous hb \<noteq> 0 \<Longrightarrow> rp_previous p \<noteq> None"
proof -
  note H = head_facts [OF inv hd]
  have acc: "block_account L (saved_hash hb) = Some (saved_account hb)"
    using H(5) hd by (simp add: block_account_def any_get_block_def is_head_def)
  have prev: "planner_load_previous_block L hb =
      Inr (if saved_previous hb = 0 then None else tbl_get (st_block L) (saved_previous hb))"
    and ex: "saved_previous hb \<noteq> 0 \<Longrightarrow> tbl_get (st_block L) (saved_previous hb) \<noteq> None"
  proof -
    show ex: "saved_previous hb \<noteq> 0 \<Longrightarrow> tbl_get (st_block L) (saved_previous hb) \<noteq> None"
      using H(1) by (metis block_wf_prevE option.distinct(1))
    show "planner_load_previous_block L hb =
        Inr (if saved_previous hb = 0 then None else tbl_get (st_block L) (saved_previous hb))"
      using ex by (auto simp: planner_load_previous_block_def any_get_block_def)
  qed
  have i: "tbl_get (st_account L) (saved_account hb) = Some i" using hd by (simp add: is_head_def)
  obtain r where r: "get_previous_representative L hb = Some r"
    using cp acc by (auto simp: create_planner_def split: Option.bind_splits)
  note p = cp [unfolded create_planner_def acc r prev bind.simps sum.case, simplified, symmetric]
  show "rp_head_block p = hb" "rp_account p = saved_account hb" "rp_current_account_info p = i"
    "planner_previous_balance p = prev_balance (st_block L) hb" "rp_epochs p = lc_epochs C"
    "rp_pending_receive p =
       tbl_get (st_pending L) (PendingKey (destination_or_link (svb_block hb)) (saved_hash hb))"
    "rp_linked_account p = unwrap_or_zero (block_account L (source_or_link (svb_block hb)))"
    "rp_confirmation_height p = account_confirmation_height L hb"
    "get_previous_representative L hb = Some (rp_previous_representative p)"
    "rp_previous p = (if saved_previous hb = 0 then None else tbl_get (st_block L) (saved_previous hb))"
    "saved_previous hb \<noteq> 0 \<Longrightarrow> rp_previous p \<noteq> None"
    using ex by (auto simp: p i r any_get_account_def get_pending_def planner_previous_balance_def
        prev_balance_def unwrap_or_zero_def split: option.splits)
qed

lemma plan_undo_chain:
  assumes inv: "ledger_inv C L" and hd: "is_head L hb i" and cp: "create_planner C L now hb = Some (Inr p)"
  shows "undo_chain L hb i (planner_instructions p)"
proof -
  note P = create_planner_head [OF assms] and rep = plan_prev_rep [OF inv hd]
  show ?thesis
  proof (cases "saved_previous hb = 0")
    case True
    then show ?thesis
      using P rep by (simp add: undo_chain_def planner_instructions_def previous_account_info_def)
  next
    case False
    then obtain pb where pb: "tbl_get (st_block L) (saved_previous hb) = Some pb" "rp_previous p = Some pb"
      using P(10,11) by auto
    have "saved_hash pb = saved_previous hb"
      using block_wfD(2) [OF blocks_invD [OF ledger_invD(1) [OF inv] pb(1)]] .
    then show ?thesis
      using False P rep pb
      by (auto simp: undo_chain_def planner_instructions_def previous_account_info_def
          planner_previous_representative_def planner_previous_epoch_def planner_previous_balance_def)
  qed
qed

lemma source_receives:
  assumes "receives C b = Some s"
  shows "source_or_link (svb_block b) = s"
  using assms by (auto simp: receives_def saved_source_def split: block.splits if_splits)

lemma transfers_invD: "transfers_inv C L \<Longrightarrow> tbl_get (st_block L) h = Some b \<Longrightarrow> transfer_wf C L b"
  by (simp add: transfers_inv_def)

lemma send_facts:
  assumes "transfers_inv C L" "tbl_get (st_block L) h = Some b" "saved_is_send b"
  shows "receives C b = None" "send_wf C L b"
proof -
  note wf = transfers_invD [OF assms(1,2)]
  show rc: "receives C b = None"
    using wf assms(3) by (cases "receives C b") (simp_all add: transfer_wf_def receive_wf_def)
  show "send_wf C L b" using wf rc assms(3) by (simp add: transfer_wf_def)
qed

lemma transfer_wf_head:
  assumes "ledger_inv C L" "is_head L hb i"
  shows "transfer_wf C L hb"
  using ledger_invD(4) [OF assms(1)] assms(2) by (auto simp: transfers_inv_def is_head_def)

lemma plan_undo_transfer:
  assumes inv: "ledger_inv C L" and hd: "is_head L hb i" and cp: "create_planner C L now hb = Some (Inr p)"
    and mv: "moves C L hb" and ng: "saved_hash hb \<noteq> saved_hash (lc_genesis_block C)"
    and pend: "planner_block_sub_type p = Send \<Longrightarrow> rp_pending_receive p \<noteq> None"
  shows "undo_transfer C L hb (planner_instructions p)"
proof -
  note P = create_planner_head [OF inv hd cp] and H = head_facts [OF inv hd]
  note T = transfer_wf_head [OF inv hd]
  show ?thesis
  proof (cases "receives C hb")
    case (Some s)
    then have wf: "receive_wf L hb s" using T by (simp add: transfer_wf_def)
    then obtain sb where sb: "tbl_get (st_block L) s = Some sb" "saved_source_epoch hb = saved_epoch sb"
      "unat (saved_balance hb) + unat (saved_balance sb) =
         unat (prev_balance (st_block L) hb) + unat (prev_balance (st_block L) sb)" "saved_is_send sb"
      by (auto simp: receive_wf_def)
    have "saved_balance sb \<le> prev_balance (st_block L) sb"
      using send_facts(2) [OF ledger_invD(4) [OF inv] sb(1,4)] by (simp add: send_wf_def)
    then have gt: "prev_balance (st_block L) hb < saved_balance hb"
      using sb(3) mv Some by (auto simp: moves_def word_le_nat_alt word_less_nat_alt word_unat_eq_iff)
    have "planner_block_sub_type p \<in> {Open, Receive}"
      using gt P H by (auto simp: planner_block_sub_type_def)
    moreover have "s \<noteq> 0" using sb(1) block_wfD(1) [OF blocks_invD [OF ledger_invD(1) [OF inv]]] by blast
    ultimately show ?thesis
      using Some gt P H sb source_receives [OF Some]
      by (auto simp: undo_transfer_def planner_instructions_def planner_add_pending_def
          planner_remove_pending_def block_account_def any_get_block_def amount_sub_def unat_sub
          word_le_nat_alt word_less_nat_alt)
  next
    case None
    show ?thesis
    proof (cases "saved_is_send hb")
      case True
      then have "saved_balance hb < prev_balance (st_block L) hb"
        using T None mv by (auto simp: transfer_wf_def send_wf_def moves_def)
      then have "planner_block_sub_type p = Send" using P H by (simp add: planner_block_sub_type_def)
      then show ?thesis
        using None True P pend by (simp add: undo_transfer_def planner_instructions_def
            planner_add_pending_def planner_remove_pending_def)
    next
      case False
      then have eq: "saved_balance hb = prev_balance (st_block L) hb"
        using T None ng by (simp add: transfer_wf_def)
      then have "planner_block_sub_type p \<in> {Epoch, Change}" using P H
        by (simp add: planner_block_sub_type_def)
      then show ?thesis
        using None False eq by (auto simp: undo_transfer_def planner_instructions_def
            planner_add_pending_def planner_remove_pending_def)
    qed
  qed
qed

lemma not_confirmed_head:
  assumes inv: "ledger_inv C L" and hd: "is_head L hb i" and cp: "create_planner C L now hb = Some (Inr p)"
    and nc: "ensure_block_is_not_confirmed p = Inr ()"
  shows "unconfirmed L hb" "saved_hash hb \<noteq> saved_hash (lc_genesis_block C)"
proof -
  show u: "unconfirmed L hb"
    using nc create_planner_head(1,8) [OF inv hd cp]
    by (auto simp: unconfirmed_def ensure_block_is_not_confirmed_def account_confirmation_height_def
        get_conf_info_def split: if_splits option.splits)
  show "saved_hash hb \<noteq> saved_hash (lc_genesis_block C)"
  proof
    assume eq: "saved_hash hb = saved_hash (lc_genesis_block C)"
    obtain c where g: "saved_account hb = lc_genesis_account C" "saved_previous hb = 0"
      "tbl_get (st_confirmation_height L) (lc_genesis_account C) = Some c"
      using ledger_invD(10) [OF inv] hd eq by (auto simp: genesis_inv_def is_head_def)
    then have "ch_height c < 1"
      using u block_wfD(6) [OF head_facts(1) [OF inv hd]] by (simp add: unconfirmed_def)
    moreover obtain b where "tbl_get (st_block L) (ch_frontier c) = Some b" "saved_height b = ch_height c"
      using ledger_invD(8) [OF inv] g(3) by (auto simp: conf_inv_def)
    ultimately show False
      using height_pos [OF ledger_invD(1) [OF inv]] by (fastforce simp: word_less_nat_alt)
  qed
qed

lemma plan_undoes:
  assumes inv: "ledger_inv C L" and hd: "is_head L hb i" and mv: "moves C L hb"
    and plan: "performer_plan C now L hb = Some (Inr (RollBackBlock ins))"
  shows "undoes C L hb i ins"
proof -
  obtain p where cp: "create_planner C L now hb = Some (Inr p)"
    and pl: "plan_roll_back_head_block p = Some (Inr (RollBackBlock ins))"
    using plan by (auto simp: performer_plan_def split: Option.bind_splits sum.splits)
  from pl have nc: "ensure_block_is_not_confirmed p = Inr ()"
    and ins: "ins = planner_instructions p"
    and pend: "planner_block_sub_type p = Send \<Longrightarrow> rp_pending_receive p \<noteq> None"
    by (auto simp: plan_roll_back_head_block_def roll_back_destination_account_if_send_block_is_received_def
        split: sum.splits Option.bind_splits option.splits if_splits)
  note u = not_confirmed_head [OF inv hd cp nc]
  show ?thesis
    using hd u plan_undo_chain [OF inv hd cp] plan_undo_transfer [OF inv hd cp mv u(2) pend]
    by (simp add: undoes_def ins)
qed

section \<open>The tables after a rollback\<close>

definition pending_undone :: "rollback_instructions \<Rightarrow> (pending_key, pending_info) table \<Rightarrow>
    (pending_key, pending_info) table" where
  "pending_undone ins t =
     (let t = (case rbi_remove_pending ins of Some k \<Rightarrow> fmdrop k t | None \<Rightarrow> t) in
      case rbi_add_pending ins of Some (k, p) \<Rightarrow> tbl_put k p t | None \<Rightarrow> t)"

definition rolled :: "ledger \<Rightarrow> saved_block \<Rightarrow> rollback_instructions \<Rightarrow> ledger \<Rightarrow> bool" where
  "rolled L hb ins L' \<longleftrightarrow>
     st_block L' = fmdrop (saved_hash hb) (st_block L) \<and>
     st_successors L' =
       (if saved_previous hb = 0 then st_successors L else fmdrop (saved_previous hb) (st_successors L)) \<and>
     st_account L' =
       (if saved_previous hb = 0 then fmdrop (saved_account hb) (st_account L)
        else tbl_put (saved_account hb) (rbi_set_account_info ins) (st_account L)) \<and>
     st_pending L' = pending_undone ins (st_pending L) \<and>
     st_confirmation_height L' = st_confirmation_height L \<and>
     cache_confirmed_count L' = cache_confirmed_count L \<and>
     cache_block_count L' = cache_block_count L - 1 \<and>
     cache_account_count L' = cache_account_count L - (if saved_previous hb = 0 then 1 else 0) \<and>
     weights_inv L'"

lemma rolledD:
  assumes "rolled L hb ins L'"
  shows "st_block L' = fmdrop (saved_hash hb) (st_block L)"
    "st_successors L' =
       (if saved_previous hb = 0 then st_successors L else fmdrop (saved_previous hb) (st_successors L))"
    "st_account L' =
       (if saved_previous hb = 0 then fmdrop (saved_account hb) (st_account L)
        else tbl_put (saved_account hb) (rbi_set_account_info ins) (st_account L))"
    "st_pending L' = pending_undone ins (st_pending L)"
    "st_confirmation_height L' = st_confirmation_height L"
    "cache_confirmed_count L' = cache_confirmed_count L"
    "cache_block_count L' = cache_block_count L - 1"
    "cache_account_count L' = cache_account_count L - (if saved_previous hb = 0 then 1 else 0)"
    "weights_inv L'"
  using assms by (simp_all add: rolled_def)

lemma undoesD:
  assumes "undoes C L hb i ins"
  shows "is_head L hb i" "unconfirmed L hb" "saved_hash hb \<noteq> saved_hash (lc_genesis_block C)"
    "undo_chain L hb i ins" "undo_transfer C L hb ins"
    "tbl_get (st_block L) (saved_hash hb) = Some hb"
    "tbl_get (st_account L) (saved_account hb) = Some i" "ai_head i = saved_hash hb"
  using assms by (simp_all add: undoes_def is_head_def)

lemma undo_followE:
  assumes "undoes C L hb i ins" "saved_previous hb \<noteq> 0"
  obtains p r where "tbl_get (st_block L) (saved_previous hb) = Some p"
    "rep_at (st_block L) (saved_previous hb) r" "rbi_clear_successor ins = Some (saved_previous hb)"
    "rbi_new_representative ins = Some r" "rbi_new_balance ins = saved_balance p"
    "ai_head (rbi_set_account_info ins) = saved_previous hb"
    "ai_representative (rbi_set_account_info ins) = r"
    "ai_open_block (rbi_set_account_info ins) = ai_open_block i"
    "ai_balance (rbi_set_account_info ins) = saved_balance p"
    "ai_block_count (rbi_set_account_info ins) = ai_block_count i - 1"
    "ai_epoch (rbi_set_account_info ins) = saved_epoch p"
  using undoesD(4) [OF assms(1)] assms(2) by (auto simp: undo_chain_def)

lemma rollback_pending_ok:
  assumes "undoes C L hb i ins"
  shows "rollback_pending_table ins L = Some (L\<lparr>st_pending := pending_undone ins (st_pending L)\<rparr>)"
  using undoesD(5) [OF assms]
  by (auto simp: undo_transfer_def rollback_pending_table_def pending_undone_def pending_del_def
      tbl_del_def split: option.splits if_splits)

lemma rollback_account_ok:
  assumes inv: "ledger_inv C L" and u: "undoes C L hb i ins" and "st_account L1 = st_account L"
  shows "rollback_account_table ins L1 = Some (L1\<lparr>
    cache_account_count := cache_account_count L1 - (if saved_previous hb = 0 then 1 else 0),
    st_account := (if saved_previous hb = 0 then fmdrop (saved_account hb) (st_account L)
      else tbl_put (saved_account hb) (rbi_set_account_info ins) (st_account L))\<rparr>)"
proof -
  note H = head_facts [OF inv undoesD(1) [OF u]]
  have ids: "rbi_account ins = saved_account hb" "rbi_old_account_info ins = i"
    using undoesD(4) [OF u] by (simp_all add: undo_chain_def)
  show ?thesis
  proof (cases "saved_previous hb = 0")
    case True
    then have "rbi_set_account_info ins = account_info_default"
      using undoesD(4) [OF u] by (simp add: undo_chain_def)
    then show ?thesis
      using True ids undoesD(7) [OF u] assms(3)
      by (simp add: rollback_account_table_def update_account_def account_info_default_def
          account_del_def tbl_del_def)
  next
    case False
    then have "ai_head (rbi_set_account_info ins) \<noteq> 0" by (metis undo_followE [OF u])
    then show ?thesis
      using False ids undoesD(7,8) [OF u] assms(3) H(5)
      by (simp add: rollback_account_table_def update_account_def account_del_def tbl_del_def Let_def)
  qed
qed

lemma rollback_block_ok:
  assumes inv: "ledger_inv C L" and u: "undoes C L hb i ins"
    and same: "st_block L1 = st_block L" "st_successors L1 = st_successors L"
  shows "rollback_block_table ins L1 = Some (L1\<lparr>st_block := fmdrop (saved_hash hb) (st_block L),
    st_successors := (if saved_previous hb = 0 then st_successors L
      else fmdrop (saved_previous hb) (st_successors L))\<rparr>)"
proof -
  note H = head_facts [OF inv undoesD(1) [OF u]] and ch = undoesD(4) [OF u]
  have h: "rbi_block_hash ins = saved_hash hb" using ch by (simp add: undo_chain_def)
  show ?thesis
  proof (cases "saved_previous hb = 0")
    case True
    then show ?thesis using ch h same by (simp add: undo_chain_def rollback_block_table_def)
  next
    case False
    then have "rbi_clear_successor ins = Some (saved_previous hb)" by (metis undo_followE [OF u])
    then show ?thesis
      using False h same block_wfD(7) [OF H(1) False]
      by (simp add: rollback_block_table_def successor_del_def tbl_del_def)
  qed
qed

lemma rollback_weights_ok:
  assumes inv: "ledger_inv C L" and u: "undoes C L hb i ins"
    and same: "st_rep_weight L1 = st_rep_weight L" "lg_rep_weights L1 = lg_rep_weights L"
      "lg_min_weight L1 = lg_min_weight L"
  shows "\<exists>w c. roll_back_representative_cache ins L1 = Some (L1\<lparr>st_rep_weight := w, lg_rep_weights := c\<rparr>) \<and>
    tracks weights_ok table_weight (L1\<lparr>st_rep_weight := w, lg_rep_weights := c\<rparr>)
      (if saved_previous hb = 0 then fmdrop (saved_account hb) (st_account L)
       else tbl_put (saved_account hb) (rbi_set_account_info ins) (st_account L))"
proof -
  have tr: "tracks weights_ok table_weight L1 (st_account L)"
    using ledger_invD(7) [OF inv] tracks_cong [OF same] by (simp add: weights_inv_def)
  then have wok: "weights_ok L1" by (simp add: tracks_def)
  have old: "rbi_old_account_info ins = i" using undoesD(4) [OF u] by (simp add: undo_chain_def)
  show ?thesis
  proof (cases "saved_previous hb = 0")
    case True
    then have "rbi_new_representative ins = None"
      using undoesD(4) [OF u] by (simp add: undo_chain_def)
    then show ?thesis
      using True old rep_weights.remove_account [OF tr undoesD(7) [OF u]] representation_add_frame [OF wok]
      by (fastforce simp: roll_back_representative_cache_def amount_wrapping_sub_def)
  next
    case False
    then obtain r where "rbi_new_representative ins = Some r"
      "ai_representative (rbi_set_account_info ins) = r"
      "ai_balance (rbi_set_account_info ins) = rbi_new_balance ins"
      by (metis undo_followE [OF u])
    then show ?thesis
      using False old rep_weights.move_account [OF tr undoesD(7) [OF u], of "rbi_set_account_info ins"]
        representation_add_dual_frame [OF wok]
      by (fastforce simp: roll_back_representative_cache_def amount_wrapping_sub_def)
  qed
qed

lemma execute_rolled:
  assumes inv: "ledger_inv C L" and u: "undoes C L hb i ins"
  shows "\<exists>L'. execute_rollback ins L = Some L' \<and> rolled L hb ins L'"
proof -
  let ?acc = "if saved_previous hb = 0 then fmdrop (saved_account hb) (st_account L)
      else tbl_put (saved_account hb) (rbi_set_account_info ins) (st_account L)"
  let ?L1 = "L\<lparr>st_pending := pending_undone ins (st_pending L)\<rparr>"
  let ?L2 = "?L1\<lparr>cache_account_count := cache_account_count L - (if saved_previous hb = 0 then 1 else 0),
    st_account := ?acc\<rparr>"
  let ?L3 = "?L2\<lparr>st_block := fmdrop (saved_hash hb) (st_block L),
    st_successors := (if saved_previous hb = 0 then st_successors L
      else fmdrop (saved_previous hb) (st_successors L))\<rparr>"
  have acc: "rollback_account_table ins ?L1 = Some ?L2"
    using rollback_account_ok [OF inv u, of ?L1] by simp
  have blk: "rollback_block_table ins ?L2 = Some ?L3"
    using rollback_block_ok [OF inv u, of ?L2] by simp
  obtain w c where wt: "roll_back_representative_cache ins ?L3 = Some (?L3\<lparr>st_rep_weight := w, lg_rep_weights := c\<rparr>)"
    "tracks weights_ok table_weight (?L3\<lparr>st_rep_weight := w, lg_rep_weights := c\<rparr>) ?acc"
    using rollback_weights_ok [OF inv u, of ?L3] by auto
  let ?L4 = "?L3\<lparr>st_rep_weight := w, lg_rep_weights := c, cache_block_count := cache_block_count L - 1\<rparr>"
  have "execute_rollback ins L = Some ?L4"
    unfolding execute_rollback_def rollback_pending_ok [OF u] bind.simps acc blk wt(1) by simp
  moreover have "weights_inv ?L4"
    using wt(2) tracks_cong [of ?L4 "?L3\<lparr>st_rep_weight := w, lg_rep_weights := c\<rparr>"]
    by (simp add: weights_inv_def)
  then have "rolled L hb ins ?L4" by (simp add: rolled_def)
  ultimately show ?thesis by blast
qed

end
