(* ===== verification/Rollback_Inv.thy ===== *)
theory Rollback_Inv
  imports Rollback_Keeps
begin

text \<open>
  Each conjunct of the ledger invariant after the head block of an account was rolled back.
\<close>

section \<open>The other blocks\<close>

lemma pending_undone_get:
  "tbl_get (pending_undone ins t) k =
     (case rbi_add_pending ins of
        Some (k', p) \<Rightarrow> if k = k' then Some p
          else if rbi_remove_pending ins = Some k then None else tbl_get t k
      | None \<Rightarrow> if rbi_remove_pending ins = Some k then None else tbl_get t k)"
  by (auto simp: pending_undone_def Let_def split: option.splits)

lemma rolled_block_get:
  assumes "rolled L hb ins L'"
  shows "tbl_get (st_block L') x = (if x = saved_hash hb then None else tbl_get (st_block L) x)"
  by (simp add: rolledD(1) [OF assms])

lemma head_no_receiver:
  assumes inv: "ledger_inv C L" and u: "undoes C L hb i ins" and b: "tbl_get (st_block L) x = Some b"
  shows "receives C b \<noteq> Some (saved_hash hb)"
proof
  assume rc: "receives C b = Some (saved_hash hb)"
  then have "receive_wf L b (saved_hash hb)"
    using transfers_invD [OF ledger_invD(4) [OF inv] b] by (simp add: transfer_wf_def)
  then have "saved_is_send hb" "destination_or_link (svb_block hb) = saved_account b"
    "tbl_get (st_pending L) (PendingKey (saved_account b) (saved_hash hb)) = None"
    using undoesD(6) [OF u] by (auto simp: receive_wf_def)
  then show False
    using undoesD(5) [OF u] send_facts(1) [OF ledger_invD(4) [OF inv] undoesD(6) [OF u]]
    by (simp add: undo_transfer_def)
qed

lemma open_head_alone:
  assumes inv: "ledger_inv C L" and hd: "is_head L hb i" and "saved_previous hb = 0"
    and b: "tbl_get (st_block L) x = Some b" and "saved_account b = saved_account hb"
  shows "x = saved_hash hb"
proof -
  note H = head_facts [OF inv hd] and I = ledger_invD(1,3) [OF inv]
  have hb: "tbl_get (st_block L) (saved_hash hb) = Some hb" "tbl_get (st_account L) (saved_account hb) = Some i"
    using hd by (simp_all add: is_head_def)
  have "unat (saved_height b) \<le> 1"
    using height_le_head [OF I b] hb(2) assms(5) block_wfD(6) [OF H(1) assms(3)] H(4) by simp
  then have "saved_height b = saved_height hb"
    using height_pos [OF I(1) b] block_wfD(6) [OF H(1) assms(3)] by (simp add: word_unat_eq_iff)
  then show ?thesis by (rule height_unique [OF I(1) b hb(1) assms(5)])
qed

lemma other_block:
  assumes inv: "ledger_inv C L" and u: "undoes C L hb i ins"
    and b: "tbl_get (st_block L) x = Some b" and x: "x \<noteq> saved_hash hb"
  shows "saved_previous b \<noteq> saved_hash hb"
    and "saved_previous hb \<noteq> 0 \<Longrightarrow> saved_previous b \<noteq> saved_previous hb"
    and "saved_previous hb = 0 \<Longrightarrow> saved_account b \<noteq> saved_account hb"
proof -
  note H = head_facts [OF inv undoesD(1) [OF u]] and wf = blocks_invD [OF ledger_invD(1) [OF inv] b]
  show "saved_previous b \<noteq> saved_hash hb"
    using block_wfD(7) [OF wf] H(5,6) by auto
  show "saved_previous hb \<noteq> 0 \<Longrightarrow> saved_previous b \<noteq> saved_previous hb"
    using block_wfD(7) [OF wf] block_wfD(7) [OF H(1)] x by auto
  show "saved_previous hb = 0 \<Longrightarrow> saved_account b \<noteq> saved_account hb"
    using open_head_alone [OF inv undoesD(1) [OF u] _ b] x by blast
qed

lemma prev_balance_other:
  assumes "ledger_inv C L" "undoes C L hb i ins" "rolled L hb ins L'"
    "tbl_get (st_block L) x = Some b" "x \<noteq> saved_hash hb"
  shows "prev_balance (st_block L') b = prev_balance (st_block L) b"
  using other_block(1) [OF assms(1,2,4,5)] by (simp add: prev_balance_def rolledD(1) [OF assms(3)])

lemma rep_at_other:
  assumes inv: "ledger_inv C L" and u: "undoes C L hb i ins" and r: "rolled L hb ins L'"
    and "rep_at (st_block L) x rep" "x \<noteq> saved_hash hb"
  shows "rep_at (st_block L') x rep"
  using assms(4,5)
proof (induction "st_block L" x rep rule: rep_at.induct)
  case (own h b rep)
  then show ?case by (auto intro!: rep_at.own simp: rolledD(1) [OF r])
next
  case (prev h b rep)
  then have "rep_at (st_block L') (saved_previous b) rep"
    using other_block(1) [OF inv u prev(1)] by simp
  then show ?case
    using prev by (intro rep_at.prev [of _ h b]) (auto simp: rolledD(1) [OF r])
qed

section \<open>Chains\<close>

lemma block_wf_rolled:
  assumes inv: "ledger_inv C L" and u: "undoes C L hb i ins" and r: "rolled L hb ins L'"
    and b: "tbl_get (st_block L) x = Some b" and x: "x \<noteq> saved_hash hb"
  shows "block_wf L' x b"
proof -
  note wf = blocks_invD [OF ledger_invD(1) [OF inv] b] and O = other_block [OF inv u b x]
  note H = head_facts [OF inv undoesD(1) [OF u]]
  have hi: "tbl_get (st_account L) (saved_account hb) = Some i" "ai_head i = saved_hash hb"
    by (rule undoesD [OF u])+
  have op: "\<exists>j. tbl_get (st_account L') (saved_account b) = Some j \<and> ai_open_block j = x"
    if o: "saved_previous b = 0"
  proof -
    obtain j where "tbl_get (st_account L) (saved_account b) = Some j" "ai_open_block j = x"
      using block_wf_openE [OF wf o] .
    moreover have "ai_open_block (rbi_set_account_info ins) = ai_open_block i" if "saved_previous hb \<noteq> 0"
      using that by (metis undo_followE [OF u])
    ultimately show ?thesis using O(3) hi by (auto simp: rolledD(3) [OF r])
  qed
  have pr: "tbl_get (st_successors L') (saved_previous b) = Some x \<and>
      (\<exists>p. tbl_get (st_block L') (saved_previous b) = Some p \<and> saved_account p = saved_account b \<and>
        unat (saved_height b) = unat (saved_height p) + 1)" if "saved_previous b \<noteq> 0"
    using block_wf_prevE [OF wf that] block_wfD(7) [OF wf that] O
    by (auto simp: rolledD(1,2) [OF r])
  obtain k where k: "tbl_get (st_account L) (saved_account b) = Some k"
    "ai_head k = x \<or> tbl_get (st_successors L) x \<noteq> None" by (rule block_wf_accountE [OF wf])
  have "\<exists>j. tbl_get (st_account L') (saved_account b) = Some j \<and>
      (ai_head j = x \<or> tbl_get (st_successors L') x \<noteq> None)"
  proof (cases "saved_account b = saved_account hb")
    case True
    then have ne: "saved_previous hb \<noteq> 0" using O(3) by blast
    have "ai_head (rbi_set_account_info ins) = saved_previous hb" using ne by (metis undo_followE [OF u])
    then show ?thesis
      using True ne hi x k by (auto simp: rolledD(2,3) [OF r])
  next
    case False
    have "x \<noteq> saved_previous hb" if "saved_previous hb \<noteq> 0"
      using block_wf_prevE [OF H(1) that] b False by force
    then show ?thesis
      using False k by (auto simp: rolledD(2,3) [OF r])
  qed
  then show ?thesis using op pr block_wfD [OF wf] by (auto simp: block_wf_def)
qed

lemma blocks_inv_rolled:
  assumes "ledger_inv C L" "undoes C L hb i ins" "rolled L hb ins L'"
  shows "blocks_inv L'"
  unfolding blocks_inv_def
  using block_wf_rolled [OF assms] by (auto simp: rolledD(1) [OF assms(3)] split: if_splits)

lemma successors_inv_rolled:
  assumes inv: "ledger_inv C L" and u: "undoes C L hb i ins" and r: "rolled L hb ins L'"
  shows "successors_inv L'"
  using ledger_invD(2) [OF inv] undoesD(6) [OF u]
  by (fastforce simp: successors_inv_def rolledD(1,2) [OF r] split: if_splits)

lemma account_wf_rolled_back:
  assumes inv: "ledger_inv C L" and u: "undoes C L hb i ins" and r: "rolled L hb ins L'"
    and ne: "saved_previous hb \<noteq> 0"
  shows "account_wf L' (saved_account hb) (rbi_set_account_info ins)"
proof -
  note H = head_facts [OF inv undoesD(1) [OF u]]
  obtain p rp where p: "tbl_get (st_block L) (saved_previous hb) = Some p"
    "rep_at (st_block L) (saved_previous hb) rp"
    "ai_head (rbi_set_account_info ins) = saved_previous hb"
    "ai_representative (rbi_set_account_info ins) = rp"
    "ai_open_block (rbi_set_account_info ins) = ai_open_block i"
    "ai_balance (rbi_set_account_info ins) = saved_balance p"
    "ai_block_count (rbi_set_account_info ins) = ai_block_count i - 1"
    "ai_epoch (rbi_set_account_info ins) = saved_epoch p"
    using ne by (metis undo_followE [OF u])
  have pa: "saved_account p = saved_account hb" "unat (saved_height hb) = unat (saved_height p) + 1"
    using block_wf_prevE [OF H(1) ne] p(1) by force+
  have nh: "saved_previous hb \<noteq> saved_hash hb"
    using p(1) pa undoesD(6) [OF u] by force
  have "saved_height p = ai_block_count i - 1"
    using arg_cong [OF pa(2), of "of_nat :: nat \<Rightarrow> 64 word"] H(4) by simp
  moreover obtain ob where "tbl_get (st_block L) (ai_open_block i) = Some ob"
    "saved_account ob = saved_account hb" "saved_previous ob = 0"
    using H(2) by (auto simp: account_wf_def)
  moreover have "ai_open_block i \<noteq> saved_hash hb"
    using calculation undoesD(6) [OF u] ne by auto
  ultimately show ?thesis
    using p pa nh ne rep_at_other [OF inv u r p(2) nh] by (auto simp: account_wf_def rolledD(1,2) [OF r])
qed

lemma account_wf_rolled_other:
  assumes inv: "ledger_inv C L" and u: "undoes C L hb i ins" and r: "rolled L hb ins L'"
    and a: "tbl_get (st_account L) a = Some j" "a \<noteq> saved_account hb"
  shows "account_wf L' a j"
proof -
  note wf = accounts_invD [OF ledger_invD(3) [OF inv] a(1)]
  have "ai_head j \<noteq> saved_hash hb" "ai_open_block j \<noteq> saved_hash hb"
    using wf a(2) undoesD(6) [OF u] by (auto simp: account_wf_def)
  then show ?thesis
    using wf rep_at_other [OF inv u r] by (auto simp: account_wf_def rolledD(1,2) [OF r])
qed

lemma accounts_inv_rolled:
  assumes "ledger_inv C L" "undoes C L hb i ins" "rolled L hb ins L'"
  shows "accounts_inv L'"
  unfolding accounts_inv_def
  using account_wf_rolled_back [OF assms] account_wf_rolled_other [OF assms]
  by (auto simp: rolledD(3) [OF assms(3)] split: if_splits)

section \<open>Transfers\<close>

lemma undo_receiveE:
  assumes inv: "ledger_inv C L" and u: "undoes C L hb i ins" and rc: "receives C hb = Some s"
  obtains sb p where "tbl_get (st_block L) s = Some sb" "s \<noteq> saved_hash hb" "saved_is_send sb"
    "destination_or_link (svb_block sb) = saved_account hb"
    "rbi_remove_pending ins = None" "rbi_add_pending ins = Some (PendingKey (saved_account hb) s, p)"
    "tbl_get (st_pending L) (PendingKey (saved_account hb) s) = None"
    "pi_source p = saved_account sb" "pi_epoch p = saved_epoch sb"
    "unat (pi_amount p) + unat (prev_balance (st_block L) hb) = unat (saved_balance hb)"
    "unat (pi_amount p) + unat (saved_balance sb) = unat (prev_balance (st_block L) sb)"
proof -
  have "receive_wf L hb s" using transfer_wf_head [OF inv undoesD(1) [OF u]] rc
    by (simp add: transfer_wf_def)
  then obtain sb where sb: "tbl_get (st_block L) s = Some sb" "saved_is_send sb"
    "destination_or_link (svb_block sb) = saved_account hb" "\<not> saved_is_send hb"
    "tbl_get (st_pending L) (PendingKey (saved_account hb) s) = None"
    "unat (saved_balance hb) + unat (saved_balance sb) =
       unat (prev_balance (st_block L) hb) + unat (prev_balance (st_block L) sb)"
    by (auto simp: receive_wf_def)
  obtain p where p: "rbi_remove_pending ins = None"
    "rbi_add_pending ins = Some (PendingKey (saved_account hb) s, p)"
    "pi_source p = saved_account sb" "pi_epoch p = saved_epoch sb"
    "unat (pi_amount p) + unat (prev_balance (st_block L) hb) = unat (saved_balance hb)"
    using undoesD(5) [OF u] rc sb(1) by (auto simp: undo_transfer_def)
  show thesis
    by (rule that [of sb p]) (use sb p undoesD(6) [OF u] in auto)
qed

lemma undo_no_receiveD:
  assumes "undoes C L hb i ins" "receives C hb = None"
  shows "rbi_add_pending ins = None"
    "saved_is_send hb \<Longrightarrow>
      rbi_remove_pending ins = Some (PendingKey (destination_or_link (svb_block hb)) (saved_hash hb))"
    "saved_is_send hb \<Longrightarrow>
      tbl_get (st_pending L) (PendingKey (destination_or_link (svb_block hb)) (saved_hash hb)) \<noteq> None"
    "\<not> saved_is_send hb \<Longrightarrow>
      rbi_remove_pending ins = None \<and> saved_balance hb = prev_balance (st_block L) hb"
  using undoesD(5) [OF assms(1)] assms(2) by (auto simp: undo_transfer_def)

lemma removed_pending:
  assumes "undoes C L hb i ins" "rbi_remove_pending ins = Some k"
  shows "send_block_hash k = saved_hash hb"
  using undoesD(5) [OF assms(1)] assms(2) by (auto simp: undo_transfer_def split: option.splits if_splits)

lemma receive_wf_rolled:
  assumes inv: "ledger_inv C L" and u: "undoes C L hb i ins" and r: "rolled L hb ins L'"
    and b: "tbl_get (st_block L) x = Some b" and x: "x \<noteq> saved_hash hb" and rc: "receives C b = Some s"
  shows "receive_wf L' b s"
proof -
  have wf: "receive_wf L b s"
    using transfers_invD [OF ledger_invD(4) [OF inv] b] rc by (simp add: transfer_wf_def)
  then obtain sb where sb: "tbl_get (st_block L) s = Some sb" by (auto simp: receive_wf_def)
  have s: "s \<noteq> saved_hash hb" using head_no_receiver [OF inv u b] rc by auto
  have "receives C hb \<noteq> Some s"
    using ledger_invD(4) [OF inv] undoesD(6) [OF u] b rc x unfolding transfers_inv_def by blast
  then have "rbi_add_pending ins \<noteq> Some (PendingKey (saved_account b) s, p)" for p
    using undoesD(5) [OF u] by (auto simp: undo_transfer_def split: option.splits)
  then have "tbl_get (st_pending L') (PendingKey (saved_account b) s) = None"
    using wf by (auto simp: rolledD(4) [OF r] pending_undone_get receive_wf_def split: option.splits)
  then show ?thesis
    using wf sb s prev_balance_other [OF inv u r b x] prev_balance_other [OF inv u r sb s]
    by (auto simp: receive_wf_def rolledD(1) [OF r])
qed

lemma send_wf_rolled:
  assumes inv: "ledger_inv C L" and u: "undoes C L hb i ins" and r: "rolled L hb ins L'"
    and b: "tbl_get (st_block L) x = Some b" and x: "x \<noteq> saved_hash hb" and sd: "saved_is_send b"
  shows "send_wf C L' b"
proof -
  note wf = send_facts(2) [OF ledger_invD(4) [OF inv] b sd]
  have hx: "saved_hash b = x" using block_wfD(2) [OF blocks_invD [OF ledger_invD(1) [OF inv] b]] .
  let ?k = "PendingKey (destination_or_link (svb_block b)) x"
  have "\<exists>h rb. tbl_get (st_block L') h = Some rb \<and> receives C rb = Some x"
    if none: "tbl_get (st_pending L') ?k = None"
  proof -
    have "rbi_remove_pending ins \<noteq> Some ?k" using removed_pending [OF u] x by fastforce
    then have "tbl_get (st_pending L) ?k = None"
      using none by (auto simp: rolledD(4) [OF r] pending_undone_get split: option.splits if_splits)
    then obtain h rb where rb: "tbl_get (st_block L) h = Some rb" "receives C rb = Some x"
      using wf hx by (auto simp: send_wf_def)
    have "h \<noteq> saved_hash hb"
    proof
      assume "h = saved_hash hb"
      then have "receives C hb = Some x" using rb undoesD(6) [OF u] by simp
      then obtain p where "rbi_add_pending ins = Some (?k, p)"
        using undo_receiveE [OF inv u, of x] b by (metis option.inject)
      then show False using none by (simp add: rolledD(4) [OF r] pending_undone_get)
    qed
    then show ?thesis using rb by (auto simp: rolledD(1) [OF r])
  qed
  then show ?thesis
    using wf hx prev_balance_other [OF inv u r b x] by (auto simp: send_wf_def)
qed

lemma transfers_inv_rolled:
  assumes inv: "ledger_inv C L" and u: "undoes C L hb i ins" and r: "rolled L hb ins L'"
  shows "transfers_inv C L'"
proof -
  note T = ledger_invD(4) [OF inv]
  have "transfer_wf C L' b" if b: "tbl_get (st_block L) x = Some b" "x \<noteq> saved_hash hb" for x b
    using transfers_invD [OF T b(1)] receive_wf_rolled [OF inv u r b] send_wf_rolled [OF inv u r b]
      prev_balance_other [OF inv u r b] by (auto simp: transfer_wf_def split: option.splits)
  moreover have "x = x'" if "tbl_get (st_block L) x = Some b" "tbl_get (st_block L) x' = Some b'"
    "receives C b = Some s" "receives C b' = Some s" for x b x' b' s
    using T that unfolding transfers_inv_def by blast
  ultimately show ?thesis
    unfolding transfers_inv_def rolled_block_get [OF r] by (auto split: if_splits)
qed

lemma pending_inv_rolled:
  assumes inv: "ledger_inv C L" and u: "undoes C L hb i ins" and r: "rolled L hb ins L'"
  shows "pending_inv L'"
  unfolding pending_inv_def
proof (intro allI impI)
  fix k p assume kp: "tbl_get (st_pending L') k = Some p"
  show "pending_wf L' k p"
  proof (cases "rbi_add_pending ins = Some (k, p)")
    case True
    then obtain s where s: "receives C hb = Some s"
      using undo_no_receiveD(1) [OF u] by fastforce
    obtain sb where sb: "tbl_get (st_block L) s = Some sb" "s \<noteq> saved_hash hb" "saved_is_send sb"
      "destination_or_link (svb_block sb) = saved_account hb" "k = PendingKey (saved_account hb) s"
      "pi_source p = saved_account sb" "pi_epoch p = saved_epoch sb"
      "unat (pi_amount p) + unat (saved_balance sb) = unat (prev_balance (st_block L) sb)"
      by (rule undo_receiveE [OF inv u s]) (use True in simp)
    then show ?thesis
      using prev_balance_other [OF inv u r sb(1,2)] by (simp add: pending_wf_def rolledD(1) [OF r])
  next
    case False
    then have old: "tbl_get (st_pending L) k = Some p" "rbi_remove_pending ins \<noteq> Some k"
      using kp by (auto simp: rolledD(4) [OF r] pending_undone_get split: option.splits if_splits)
    then have wf: "pending_wf L k p" using ledger_invD(5) [OF inv] by (simp add: pending_inv_def)
    have ne: "send_block_hash k \<noteq> saved_hash hb"
    proof
      assume eq: "send_block_hash k = saved_hash hb"
      then have "saved_is_send hb" "destination_or_link (svb_block hb) = receiving_account k"
        using wf undoesD(6) [OF u] by (auto simp: pending_wf_def)
      then show False
        using eq old(2) undo_no_receiveD(2) [OF u] send_facts(1) [OF ledger_invD(4) [OF inv] undoesD(6) [OF u]]
        by (cases k) simp
    qed
    from wf obtain b where "tbl_get (st_block L) (send_block_hash k) = Some b" by (auto simp: pending_wf_def)
    from wf ne this prev_balance_other [OF inv u r this ne] show ?thesis
      by (auto simp: pending_wf_def rolledD(1) [OF r])
  qed
qed

section \<open>Supply, confirmation heights and counters\<close>

lemma balance_total_rolled:
  assumes inv: "ledger_inv C L" and u: "undoes C L hb i ins" and r: "rolled L hb ins L'"
  shows "balance_total L' + unat (saved_balance hb) =
    balance_total L + unat (prev_balance (st_block L) hb)"
proof (cases "saved_previous hb = 0")
  case True
  then show ?thesis
    using lmdb.sum_del [OF undoesD(7) [OF u], of "\<lambda>_ i. unat (ai_balance i)"]
      head_facts(3) [OF inv undoesD(1) [OF u]]
    by (simp add: balance_total_def rolledD(3) [OF r] prev_balance_def)
next
  case False
  then have "ai_balance (rbi_set_account_info ins) = prev_balance (st_block L) hb"
    by (auto elim: undo_followE [OF u] simp: prev_balance_def unwrap_or_zero_def)
  then show ?thesis
    using False head_facts(3) [OF inv undoesD(1) [OF u]]
      lmdb.sum_put_old [OF undoesD(7) [OF u], of "\<lambda>_ i. unat (ai_balance i)" "rbi_set_account_info ins"]
    by (simp add: balance_total_def rolledD(3) [OF r])
qed

lemma pending_total_rolled:
  assumes inv: "ledger_inv C L" and u: "undoes C L hb i ins" and r: "rolled L hb ins L'"
  shows "pending_total L' + unat (prev_balance (st_block L) hb) =
    pending_total L + unat (saved_balance hb)"
proof (cases "receives C hb")
  case (Some s)
  obtain p where "rbi_remove_pending ins = None"
    "rbi_add_pending ins = Some (PendingKey (saved_account hb) s, p)"
    and none: "tbl_get (st_pending L) (PendingKey (saved_account hb) s) = None"
    and "unat (pi_amount p) + unat (prev_balance (st_block L) hb) = unat (saved_balance hb)"
    by (rule undo_receiveE [OF inv u Some])
  then show ?thesis
    using lmdb.sum_put_new [OF none, of "\<lambda>_ p. unat (pi_amount p)" p]
    by (simp add: pending_total_def rolledD(4) [OF r] pending_undone_def)
next
  case None
  note N = undo_no_receiveD [OF u None]
  let ?k = "PendingKey (destination_or_link (svb_block hb)) (saved_hash hb)"
  show ?thesis
  proof (cases "saved_is_send hb")
    case True
    then obtain p where p: "tbl_get (st_pending L) ?k = Some p" using N(3) by auto
    have "pending_wf L ?k p" using ledger_invD(5) [OF inv] p by (simp add: pending_inv_def)
    then have "unat (pi_amount p) + unat (saved_balance hb) = unat (prev_balance (st_block L) hb)"
      using undoesD(6) [OF u] by (auto simp: pending_wf_def)
    then show ?thesis
      using N True lmdb.sum_del [OF p, of "\<lambda>_ p. unat (pi_amount p)"]
      by (simp add: pending_total_def rolledD(4) [OF r] pending_undone_def)
  next
    case False
    then show ?thesis using N by (simp add: pending_total_def rolledD(4) [OF r] pending_undone_def)
  qed
qed

lemma supply_inv_rolled:
  assumes "ledger_inv C L" "undoes C L hb i ins" "rolled L hb ins L'"
  shows "supply_inv L'"
  using balance_total_rolled [OF assms] pending_total_rolled [OF assms] ledger_invD(6) [OF assms(1)]
  by (simp add: supply_inv_def)

lemma conf_inv_rolled:
  assumes inv: "ledger_inv C L" and u: "undoes C L hb i ins" and r: "rolled L hb ins L'"
  shows "conf_inv L'"
  using ledger_invD(8) [OF inv] undoesD(2,6) [OF u]
  by (fastforce simp: conf_inv_def rolledD(1,5) [OF r] unconfirmed_def)

lemma length_entries_del:
  "tbl_get t k = Some v \<Longrightarrow> length (tbl_entries (fmdrop k t)) + 1 = length (tbl_entries t)"
  using lmdb.sum_del [of t k v "\<lambda>_ _. 1 :: nat"] by (simp add: length_entries)

lemma length_entries_del_word:
  "tbl_get t k = Some v \<Longrightarrow>
    (of_nat (length (tbl_entries (fmdrop k t))) :: 64 word) = of_nat (length (tbl_entries t)) - 1"
  using length_entries_del [of t k v] by (metis add_diff_cancel_right' of_nat_1 of_nat_add)

lemma counts_inv_rolled:
  assumes inv: "ledger_inv C L" and u: "undoes C L hb i ins" and r: "rolled L hb ins L'"
  shows "counts_inv L'"
  using ledger_invD(9) [OF inv] rolledD(1,3,5-8) [OF r] length_entries_del_word [OF undoesD(6) [OF u]]
    length_entries_del_word [OF undoesD(7) [OF u]] length_entries_put_old [OF undoesD(7) [OF u]]
  by (simp add: counts_inv_def)

lemma genesis_inv_rolled:
  assumes inv: "ledger_inv C L" and u: "undoes C L hb i ins" and r: "rolled L hb ins L'"
  shows "genesis_inv C L'"
  using ledger_invD(10) [OF inv] undoesD(3) [OF u]
  by (fastforce simp: genesis_inv_def rolledD(1,5) [OF r])

lemma ranked_rolled: "ranked C (st_block L) rank \<Longrightarrow> rolled L hb ins L' \<Longrightarrow> ranked C (st_block L') rank"
  by (simp add: ranked_def rolledD(1))

lemma links_inv_rolled: "links_inv C L \<Longrightarrow> rolled L hb ins L' \<Longrightarrow> links_inv C L'"
  by (simp add: links_inv_def rolledD(1))

lemma ledger_inv_rolled:
  assumes "ledger_inv C L" "undoes C L hb i ins" "rolled L hb ins L'"
  shows "ledger_inv C L'"
  unfolding ledger_inv_def
  using blocks_inv_rolled [OF assms] successors_inv_rolled [OF assms] accounts_inv_rolled [OF assms]
    transfers_inv_rolled [OF assms] pending_inv_rolled [OF assms] supply_inv_rolled [OF assms]
    rolledD(9) [OF assms(3)] conf_inv_rolled [OF assms] counts_inv_rolled [OF assms]
    genesis_inv_rolled [OF assms] ledger_invD(11) [OF assms(1)] ranked_rolled [OF _ assms(3)]
    links_inv_rolled [OF ledger_invD(12) [OF assms(1)] assms(3)]
  unfolding order_inv_def by blast

end
