(* ===== verification/Rollback_Loop.thy ===== *)
theory Rollback_Loop
  imports Rollback_Inv
begin

text \<open>
  The rollback of a block with everything above it and everything that depends on it: the loop
  of \<^verbatim>\<open>rollback_performer.rs\<close> returns, keeps the ledger invariant and ends with
  the target removed, unless it meets a confirmed block. The order of the blocks
  (\<open>ranked\<close>) bounds the chain of requested dependencies.
\<close>

section \<open>The plan for a head block\<close>

definition received :: "ledger_constants \<Rightarrow> 'a lmdb_store_scheme \<Rightarrow> saved_block \<Rightarrow> saved_block \<Rightarrow> bool" where
  "received C L b rb \<longleftrightarrow>
     tbl_get (st_block L) (saved_hash rb) = Some rb \<and> receives C rb = Some (saved_hash b)"

lemma create_planner_ok:
  assumes inv: "ledger_inv C L" and hd: "is_head L hb i"
  obtains p where "create_planner C L now hb = Some (Inr p)"
    "rp_latest_block_for_destination p = account_head L (destination_or_link (svb_block hb))"
proof -
  note H = head_facts [OF inv hd]
  have acc: "block_account L (saved_hash hb) = Some (saved_account hb)"
    using H(5) hd by (simp add: block_account_def any_get_block_def is_head_def)
  obtain r where r: "get_previous_representative L hb = Some r"
    using plan_prev_rep [OF inv hd] by (auto split: if_splits)
  have "saved_previous hb \<noteq> 0 \<Longrightarrow> tbl_get (st_block L) (saved_previous hb) \<noteq> None"
    using H(1) by (metis block_wf_prevE option.distinct(1))
  then have "\<exists>pb. planner_load_previous_block L hb = Inr pb"
    by (cases "saved_previous hb = 0") (auto simp: planner_load_previous_block_def any_get_block_def)
  then obtain pb where "planner_load_previous_block L hb = Inr pb" ..
  then show thesis using that by (simp add: create_planner_def acc r)
qed

lemma confirmed_plan:
  assumes inv: "ledger_inv C L" and hd: "is_head L hb i" and "\<not> unconfirmed L hb"
  shows "performer_plan C now L hb = Some (Inl BlockConfirmed)"
proof -
  obtain p where cp: "create_planner C L now hb = Some (Inr p)" by (rule create_planner_ok [OF inv hd])
  then have "ensure_block_is_not_confirmed p = Inl BlockConfirmed"
    using assms(3) create_planner_head(1,8) [OF inv hd cp]
    by (auto simp: unconfirmed_def ensure_block_is_not_confirmed_def account_confirmation_height_def
        get_conf_info_def)
  then show ?thesis using cp by (simp add: performer_plan_def plan_roll_back_head_block_def)
qed

lemma head_received_iff:
  assumes inv: "ledger_inv C L" and hd: "is_head L hb i"
  shows "(\<exists>rb. received C L hb rb) \<longleftrightarrow> saved_is_send hb \<and>
    tbl_get (st_pending L) (PendingKey (destination_or_link (svb_block hb)) (saved_hash hb)) = None"
proof
  have hb: "tbl_get (st_block L) (saved_hash hb) = Some hb" using hd by (simp add: is_head_def)
  assume "\<exists>rb. received C L hb rb"
  then obtain rb where rb: "tbl_get (st_block L) (saved_hash rb) = Some rb" "receives C rb = Some (saved_hash hb)"
    by (auto simp: received_def)
  then show "saved_is_send hb \<and>
      tbl_get (st_pending L) (PendingKey (destination_or_link (svb_block hb)) (saved_hash hb)) = None"
    using transfers_invD [OF ledger_invD(4) [OF inv] rb(1)] hb by (auto simp: transfer_wf_def receive_wf_def)
next
  have hb: "tbl_get (st_block L) (saved_hash hb) = Some hb" using hd by (simp add: is_head_def)
  assume sd: "saved_is_send hb \<and>
      tbl_get (st_pending L) (PendingKey (destination_or_link (svb_block hb)) (saved_hash hb)) = None"
  then obtain h rb where "tbl_get (st_block L) h = Some rb" "receives C rb = Some (saved_hash hb)"
    using send_facts(2) [OF ledger_invD(4) [OF inv] hb] by (auto simp: send_wf_def)
  moreover have "saved_hash rb = h"
    using block_wfD(2) [OF blocks_invD [OF ledger_invD(1) [OF inv] calculation(1)]] .
  ultimately show "\<exists>rb. received C L hb rb" by (auto simp: received_def)
qed

lemma head_sub_type:
  assumes inv: "ledger_inv C L" and hd: "is_head L hb i" and mv: "moves C L hb"
    and cp: "create_planner C L now hb = Some (Inr p)" and ng: "saved_hash hb \<noteq> saved_hash (lc_genesis_block C)"
  shows "planner_block_sub_type p = Send \<longleftrightarrow> saved_is_send hb"
proof -
  note P = create_planner_head [OF inv hd cp] and H = head_facts [OF inv hd]
    and T = transfer_wf_head [OF inv hd]
  have "planner_block_sub_type p = Send \<longleftrightarrow> saved_balance hb < prev_balance (st_block L) hb"
    using P H by (simp add: planner_block_sub_type_def)
  moreover have "saved_balance hb < prev_balance (st_block L) hb" if sd: "saved_is_send hb"
  proof -
    have "receives C hb = None" "send_wf C L hb"
      using send_facts [OF ledger_invD(4) [OF inv] _ sd] hd by (auto simp: is_head_def)
    then show ?thesis using mv sd by (auto simp: send_wf_def moves_def)
  qed
  moreover have "\<not> saved_balance hb < prev_balance (st_block L) hb" if sd: "\<not> saved_is_send hb"
  proof (cases "receives C hb")
    case None
    then show ?thesis using T sd ng by (simp add: transfer_wf_def)
  next
    case (Some s)
    then obtain sb where "tbl_get (st_block L) s = Some sb" "saved_is_send sb"
      "unat (saved_balance hb) + unat (saved_balance sb) =
         unat (prev_balance (st_block L) hb) + unat (prev_balance (st_block L) sb)"
      using T by (auto simp: transfer_wf_def receive_wf_def)
    moreover have "saved_balance sb \<le> prev_balance (st_block L) sb"
      using send_facts(2) [OF ledger_invD(4) [OF inv] calculation(1,2)] by (simp add: send_wf_def)
    ultimately show ?thesis by (auto simp: word_less_nat_alt word_le_nat_alt)
  qed
  ultimately show ?thesis by blast
qed

lemma not_confirmed_plan:
  assumes inv: "ledger_inv C L" and hd: "is_head L hb i" and u: "unconfirmed L hb"
    and cp: "create_planner C L now hb = Some (Inr p)"
  shows "ensure_block_is_not_confirmed p = Inr ()"
  using u create_planner_head(1,8) [OF inv hd cp] height_pos [OF ledger_invD(1) [OF inv]] hd
  by (fastforce simp: unconfirmed_def ensure_block_is_not_confirmed_def account_confirmation_height_def
      get_conf_info_def is_head_def confirmation_height_info_default_def word_le_nat_alt word_less_nat_alt
      split: option.splits)

lemma unconfirmed_not_genesis:
  assumes inv: "ledger_inv C L" and hd: "is_head L hb i" and u: "unconfirmed L hb"
  shows "saved_hash hb \<noteq> saved_hash (lc_genesis_block C)"
proof -
  obtain p where cp: "create_planner C L 0 hb = Some (Inr p)" by (rule create_planner_ok [OF inv hd])
  show ?thesis by (rule not_confirmed_head(2) [OF inv hd cp not_confirmed_plan [OF inv hd u cp]])
qed

lemma received_plan:
  assumes inv: "ledger_inv C L" and hd: "is_head L hb i" and mv: "moves C L hb" and u: "unconfirmed L hb"
    and rb: "received C L hb rb"
  obtains db j where "performer_plan C now L hb = Some (Inr (RequestDependencyRollback (saved_hash db)))"
    "is_head L db j" "saved_account db = saved_account rb"
proof -
  obtain p where cp: "create_planner C L now hb = Some (Inr p)"
    and dst: "rp_latest_block_for_destination p = account_head L (destination_or_link (svb_block hb))"
    by (rule create_planner_ok [OF inv hd])
  have sd: "saved_is_send hb"
    "tbl_get (st_pending L) (PendingKey (destination_or_link (svb_block hb)) (saved_hash hb)) = None"
    using head_received_iff [OF inv hd] rb by blast+
  have b: "tbl_get (st_block L) (saved_hash rb) = Some rb" "receives C rb = Some (saved_hash hb)"
    using rb by (simp_all add: received_def)
  then have da: "destination_or_link (svb_block hb) = saved_account rb"
    using transfers_invD [OF ledger_invD(4) [OF inv] b(1)] hd
    by (auto simp: transfer_wf_def receive_wf_def is_head_def)
  obtain j where j: "tbl_get (st_account L) (saved_account rb) = Some j"
    using block_wf_accountE [OF blocks_invD [OF ledger_invD(1) [OF inv] b(1)]] by metis
  obtain db where db: "tbl_get (st_block L) (ai_head j) = Some db" "saved_account db = saved_account rb"
    using account_wf_headE [OF accounts_invD [OF ledger_invD(3) [OF inv] j]] by metis
  have h: "saved_hash db = ai_head j" using block_wfD(2) [OF blocks_invD [OF ledger_invD(1) [OF inv] db(1)]] .
  have dest: "account_head L (saved_account rb) = Some (ai_head j)"
    using j by (simp add: account_head_def any_get_account_def)
  have "planner_block_sub_type p = Send"
    using head_sub_type [OF inv hd mv cp unconfirmed_not_genesis [OF inv hd u]] sd(1) by simp
  then have "performer_plan C now L hb = Some (Inr (RequestDependencyRollback (saved_hash db)))"
    using cp dst not_confirmed_plan [OF inv hd u cp] create_planner_head(6) [OF inv hd cp] sd(2) da dest h
    by (simp add: performer_plan_def plan_roll_back_head_block_def
        roll_back_destination_account_if_send_block_is_received_def)
  then show thesis using that [of db j] db j h by (simp add: is_head_def)
qed

lemma unreceived_plan:
  assumes inv: "ledger_inv C L" and hd: "is_head L hb i" and mv: "moves C L hb" and u: "unconfirmed L hb"
    and nr: "\<nexists>rb. received C L hb rb"
  obtains ins where "performer_plan C now L hb = Some (Inr (RollBackBlock ins))" "undoes C L hb i ins"
proof -
  obtain p where cp: "create_planner C L now hb = Some (Inr p)" by (rule create_planner_ok [OF inv hd])
  note P = create_planner_head [OF inv hd cp]
  have "planner_block_sub_type p = Send \<Longrightarrow> rp_pending_receive p \<noteq> None"
    using head_sub_type [OF inv hd mv cp unconfirmed_not_genesis [OF inv hd u]]
      head_received_iff [OF inv hd] nr P(6) by simp
  moreover have "rp_previous_representative p = None \<Longrightarrow> is_open (svb_block hb)"
    using plan_prev_rep [OF inv hd] P(9) block_wfD(5) [OF head_facts(1) [OF inv hd]] by (auto split: if_splits)
  ultimately have "performer_plan C now L hb = Some (Inr (RollBackBlock (planner_instructions p)))"
    using cp not_confirmed_plan [OF inv hd u cp] P(1)
    by (auto simp: performer_plan_def plan_roll_back_head_block_def
        roll_back_destination_account_if_send_block_is_received_def)
  then show thesis using that plan_undoes [OF inv hd mv] by blast
qed

section \<open>The stack of targets\<close>

definition present :: "'a lmdb_store_scheme \<Rightarrow> saved_block \<Rightarrow> bool" where
  "present L b \<longleftrightarrow> tbl_get (st_block L) (saved_hash b) = Some b"

definition gone :: "'a lmdb_store_scheme \<Rightarrow> saved_block \<Rightarrow> bool" where
  "gone L b \<longleftrightarrow> tbl_get (st_block L) (saved_hash b) = None"

text \<open>A target with the head of its own account.\<close>

definition own_live :: "'a lmdb_store_scheme \<Rightarrow> saved_block \<Rightarrow> saved_block \<Rightarrow> bool" where
  "own_live L T H \<longleftrightarrow> present L T \<and> saved_account T = saved_account H \<and> (\<exists>i. is_head L H i)"

text \<open>A head of an account in which the send \<open>H\<close> was received.\<close>

definition awaits :: "ledger_constants \<Rightarrow> 'a lmdb_store_scheme \<Rightarrow> saved_block \<Rightarrow> saved_block \<Rightarrow> bool" where
  "awaits C L D H \<longleftrightarrow>
     (\<exists>j. is_head L D j) \<and> (\<exists>rb. received C L H rb \<and> saved_account rb = saved_account D)"

abbreviation rank_of :: "(block_hash \<Rightarrow> nat) \<Rightarrow> saved_block \<Rightarrow> nat" where
  "rank_of rank b \<equiv> rank (saved_hash b)"

text \<open>
  Each request of a dependency \<open>D\<close> leaves two entries: one with the head of the
  requesting account, pushed first, and one with the head of the account of \<open>D\<close>.
\<close>

inductive core_stack :: "ledger_constants \<Rightarrow> 'a lmdb_store_scheme \<Rightarrow> (block_hash \<Rightarrow> nat) \<Rightarrow>
    (saved_block \<times> saved_block) list \<Rightarrow> bool" for C L rank where
  bottom: "gone L T \<or> own_live L T H \<Longrightarrow> core_stack C L rank [(T, H)]"
| dep: "core_stack C L rank ((T, H) # s) \<Longrightarrow> own_live L T H \<Longrightarrow> gone L D \<or> awaits C L D H \<Longrightarrow>
    rank_of rank H < rank_of rank D \<Longrightarrow> core_stack C L rank ((D, D) # (D, H) # (T, H) # s)"

inductive target_stack :: "ledger_constants \<Rightarrow> 'a lmdb_store_scheme \<Rightarrow> (block_hash \<Rightarrow> nat) \<Rightarrow>
    (saved_block \<times> saved_block) list \<Rightarrow> bool" for C L rank where
  empty: "target_stack C L rank []"
| core: "core_stack C L rank s \<Longrightarrow> target_stack C L rank s"
| request: "core_stack C L rank ((T, H) # s) \<Longrightarrow> own_live L T H \<Longrightarrow> gone L D \<or> awaits C L D H \<Longrightarrow>
    rank_of rank H < rank_of rank D \<Longrightarrow> target_stack C L rank ((D, H) # (T, H) # s)"

lemma head_unique: "is_head L b i \<Longrightarrow> is_head L b' i' \<Longrightarrow> saved_account b = saved_account b' \<Longrightarrow> b = b'"
  by (auto simp: is_head_def)

lemma rank_le_head:
  assumes inv: "ledger_inv C L" and rk: "ranked C (st_block L) rank" and hd: "is_head L H i"
    and "present L b" "saved_account b = saved_account H"
  shows "rank_of rank b \<le> rank_of rank H"
  using assms(4,5)
proof (induction "unat (ai_block_count i) - unat (saved_height b)" arbitrary: b rule: less_induct)
  case less
  note I = ledger_invD(1,3) [OF inv]
  have b: "tbl_get (st_block L) (saved_hash b) = Some b" using less.prems(1) by (simp add: present_def)
  have i: "tbl_get (st_account L) (saved_account b) = Some i" "ai_head i = saved_hash H"
    using hd less.prems(2) by (simp_all add: is_head_def)
  show ?case
  proof (cases "saved_hash b = saved_hash H")
    case False
    then obtain h where h: "tbl_get (st_successors L) (saved_hash b) = Some h"
      using block_wf_accountE [OF blocks_invD [OF I(1) b]] i by (metis option.collapse option.inject)
    then obtain c where c: "tbl_get (st_block L) h = Some c" "saved_previous c = saved_hash b"
      using ledger_invD(2) [OF inv] by (auto simp: successors_inv_def)
    note wf = blocks_invD [OF I(1) c(1)]
    have ne: "saved_previous c \<noteq> 0" using c(2) block_wfD(1) [OF blocks_invD [OF I(1) b]] by simp
    have hc: "saved_account c = saved_account b" "unat (saved_height c) = unat (saved_height b) + 1"
      using block_wf_prevE [OF wf ne] c(2) b by force+
    have "unat (saved_height c) \<le> unat (ai_block_count i)"
      using height_le_head [OF I c(1)] i(1) hc(1) by simp
    moreover have "saved_hash c = h" by (rule block_wfD(2) [OF wf])
    ultimately have "rank_of rank c \<le> rank_of rank H"
      using less.hyps [of c] c(1) hc less.prems(2) by (simp add: present_def)
    moreover have "rank_of rank b < rank_of rank c"
      using rk c ne \<open>saved_hash c = h\<close> unfolding ranked_def by metis
    ultimately show ?thesis by simp
  qed simp
qed

lemma ranked_receive:
  "ranked C (st_block L) rank \<Longrightarrow> received C L H rb \<Longrightarrow> rank_of rank H < rank_of rank rb"
  unfolding ranked_def received_def by blast

lemma awaits_rank:
  assumes inv: "ledger_inv C L" and rk: "ranked C (st_block L) rank" and "awaits C L D H"
  shows "rank_of rank H < rank_of rank D"
proof -
  obtain j rb where j: "is_head L D j" and rb: "received C L H rb" "saved_account rb = saved_account D"
    using assms(3) by (auto simp: awaits_def)
  then have "rank_of rank H < rank_of rank rb" using ranked_receive [OF rk] by blast
  also have "\<dots> \<le> rank_of rank D"
    using rank_le_head [OF inv rk j _ rb(2)] rb(1) by (simp add: received_def present_def)
  finally show ?thesis .
qed

text \<open>Removing a head keeps the entries whose heads come before it.\<close>

lemma present_rolled: "rolled L X ins L' \<Longrightarrow> present L b \<Longrightarrow> saved_hash b \<noteq> saved_hash X \<Longrightarrow> present L' b"
  by (simp add: present_def rolledD(1))

lemma is_head_rolled:
  assumes "rolled L X ins L'" "is_head L X j" "is_head L H i" "saved_hash H \<noteq> saved_hash X"
  shows "is_head L' H i"
  using assms by (auto simp: is_head_def rolledD(1,3))

lemma own_live_rolled:
  assumes "ledger_inv C L" "ranked C (st_block L) rank" "rolled L X ins L'" "is_head L X j"
    "own_live L T H" "rank_of rank H < rank_of rank X"
  shows "own_live L' T H"
proof -
  from assms(5) obtain i where i: "present L T" "saved_account T = saved_account H" "is_head L H i"
    by (auto simp: own_live_def)
  have "rank_of rank T \<le> rank_of rank H" by (rule rank_le_head [OF assms(1,2) i(3,1,2)])
  then have "saved_hash T \<noteq> saved_hash X" "saved_hash H \<noteq> saved_hash X" using assms(6) by auto
  then show ?thesis
    using i present_rolled [OF assms(3)] is_head_rolled [OF assms(3,4)] by (auto simp: own_live_def)
qed

lemma awaits_rolled:
  assumes "ledger_inv C L" "ranked C (st_block L) rank" "rolled L X ins L'" "is_head L X j"
    "awaits C L D H" "rank_of rank D < rank_of rank X"
  shows "awaits C L' D H"
proof -
  from assms(5) obtain i rb where i: "is_head L D i" "received C L H rb" "saved_account rb = saved_account D"
    by (auto simp: awaits_def)
  have "rank_of rank rb \<le> rank_of rank D"
    using rank_le_head [OF assms(1,2) i(1) _ i(3)] i(2) by (simp add: received_def present_def)
  then have "saved_hash D \<noteq> saved_hash X" "saved_hash rb \<noteq> saved_hash X" using assms(6) by auto
  then show ?thesis
    using i is_head_rolled [OF assms(3,4)] rolledD(1) [OF assms(3)]
    by (auto simp: awaits_def received_def)
qed

lemma gone_rolled: "rolled L X ins L' \<Longrightarrow> gone L b \<Longrightarrow> gone L' b"
  by (simp add: gone_def rolledD(1))

lemma core_stack_rolled:
  assumes "core_stack C L rank s" "s = (T, H) # s0" "own_live L T H" "rank_of rank H < rank_of rank X"
    and L: "ledger_inv C L" "ranked C (st_block L) rank" "rolled L X ins L'" "is_head L X j"
  shows "core_stack C L' rank s"
  using assms(1-4)
proof (induction arbitrary: T H s0 rule: core_stack.induct)
  case (bottom T1 H1)
  then show ?case using own_live_rolled [OF L] by (auto intro: core_stack.bottom)
next
  case (dep T1 H1 s1 D1)
  then have lt: "rank_of rank D1 < rank_of rank X" by auto
  have "gone L' D1 \<or> awaits C L' D1 H1"
    using dep.hyps(3) gone_rolled [OF L(3)] awaits_rolled [OF L _ lt] by blast
  moreover have "own_live L' T1 H1" using own_live_rolled [OF L dep.hyps(2)] dep.hyps(4) lt by simp
  moreover have "core_stack C L' rank ((T1, H1) # s1)" using dep.IH dep.hyps(2,4) lt by simp
  ultimately show ?case using dep.hyps(4) by (intro core_stack.dep)
qed

section \<open>The loop\<close>

text \<open>What a rollback has done so far to the ledger \<open>L\<close>.\<close>

definition removes :: "ledger \<Rightarrow> saved_block list \<Rightarrow> ledger \<Rightarrow> bool" where
  "removes L bs L' \<longleftrightarrow>
     (\<forall>h. tbl_get (st_block L') h = (if h \<in> saved_hash ` set bs then None else tbl_get (st_block L) h)) \<and>
     st_confirmation_height L' = st_confirmation_height L \<and>
     (\<forall>b \<in> set bs. present L b \<and> unconfirmed L b) \<and> distinct bs"

definition loop_inv :: "ledger_constants \<Rightarrow> (block_hash \<Rightarrow> nat) \<Rightarrow> ledger \<Rightarrow> saved_block \<Rightarrow> performer \<Rightarrow> bool" where
  "loop_inv C rank L0 T0 s \<longleftrightarrow> ledger_inv C (pf_ledger s) \<and> all_move C (pf_ledger s) \<and>
     ranked C (st_block (pf_ledger s)) rank \<and> target_stack C (pf_ledger s) rank (pf_targets s) \<and>
     removes L0 (pf_rolled_back s) (pf_ledger s) \<and>
     (if pf_targets s = [] then gone (pf_ledger s) T0 else fst (last (pf_targets s)) = T0)"

definition stack_measure :: "(block_hash \<Rightarrow> nat) \<Rightarrow> nat \<Rightarrow> performer \<Rightarrow> nat" where
  "stack_measure rank n s =
     (case pf_targets s of
        [] \<Rightarrow> 0
      | (T, H) # rest \<Rightarrow>
          if gone (pf_ledger s) T then 2 * n + 2 + length (pf_targets s)
          else 2 * (n - rank_of rank H) + (if saved_account T = saved_account H then 1 else 0))"

definition block_measure :: "performer \<Rightarrow> nat" where
  "block_measure s = length (tbl_entries (st_block (pf_ledger s)))"

lemma all_move_rolled:
  assumes "ledger_inv C L" "undoes C L hb i ins" "rolled L hb ins L'" "all_move C L"
  shows "all_move C L'"
  using assms(4) prev_balance_other [OF assms(1-3)]
  by (auto simp: all_move_def moves_def rolledD(1) [OF assms(3)])

lemma removes_rolled:
  assumes "ledger_inv C L" "undoes C L hb i ins" "rolled L hb ins L'" "removes L0 bs L"
  shows "removes L0 (bs @ [hb]) L'"
proof -
  have hb: "tbl_get (st_block L) (saved_hash hb) = Some hb" by (rule undoesD(6) [OF assms(2)])
  then have "saved_hash hb \<notin> saved_hash ` set bs" "present L0 hb"
    using assms(4) by (auto simp: removes_def present_def split: if_splits)
  moreover have "unconfirmed L0 hb" using undoesD(2) [OF assms(2)] assms(4) by (simp add: removes_def unconfirmed_def)
  ultimately show ?thesis
    using assms(4) by (auto simp: removes_def rolledD(1,5) [OF assms(3)])
qed

lemma exists_iff_present:
  assumes "blocks_inv L"
  shows "any_block_exists L (saved_hash b) \<longleftrightarrow> \<not> gone L b"
proof -
  have "tbl_get (st_block L) 0 = None" using block_wfD(1) [OF blocks_invD [OF assms]] by (metis option.exhaust)
  then show ?thesis by (auto simp: any_block_exists_def gone_def)
qed

lemma load_head_ok:
  assumes inv: "ledger_inv C L" and b: "present L b"
  obtains hb i where "load_account_head L b = Some (Inr hb)" "is_head L hb i" "saved_account hb = saved_account b"
proof -
  note I = ledger_invD(1,3) [OF inv]
  obtain i where i: "tbl_get (st_account L) (saved_account b) = Some i"
    using block_wf_accountE [OF blocks_invD [OF I(1)]] b by (metis present_def)
  obtain hb where hb: "tbl_get (st_block L) (ai_head i) = Some hb" "saved_account hb = saved_account b"
    using account_wf_headE [OF accounts_invD [OF I(2) i]] by metis
  note wf = blocks_invD [OF I(1) hb(1)]
  have "load_account_head L b = Some (Inr hb)"
    using i hb(1) block_wfD(1) [OF wf]
    by (simp add: load_account_head_def performer_load_block_def any_get_account_def any_get_block_def)
  then show thesis using that [of hb i] i hb block_wfD(2) [OF wf] by (simp add: is_head_def)
qed

lemma load_head_of_head:
  assumes inv: "ledger_inv C L" and hd: "is_head L hb i" and "saved_account b = saved_account hb"
  shows "load_account_head L b = Some (Inr hb)"
  using hd assms(3) head_facts(5) [OF inv hd]
  by (simp add: load_account_head_def performer_load_block_def any_get_account_def any_get_block_def is_head_def)

lemma load_block_head:
  assumes inv: "ledger_inv C L" and hd: "is_head L hb i"
  shows "performer_load_block L (saved_hash hb) = Inr hb"
  using hd head_facts(5) [OF inv hd] by (simp add: performer_load_block_def any_get_block_def is_head_def)

lemma core_top:
  assumes "core_stack C L rank ((T, H) # rest)" "\<not> gone L T"
  shows "own_live L T H"
  using assms(1)
  by (cases rule: core_stack.cases) (use assms(2) in \<open>auto simp: own_live_def awaits_def present_def is_head_def\<close>)

lemma loop_invD:
  assumes "loop_inv C rank L0 T0 s"
  shows "ledger_inv C (pf_ledger s)" "all_move C (pf_ledger s)" "ranked C (st_block (pf_ledger s)) rank"
    "target_stack C (pf_ledger s) rank (pf_targets s)" "removes L0 (pf_rolled_back s) (pf_ledger s)"
    "pf_targets s = [] \<Longrightarrow> gone (pf_ledger s) T0" "pf_targets s \<noteq> [] \<Longrightarrow> fst (last (pf_targets s)) = T0"
  using assms by (simp_all add: loop_inv_def)

definition smaller :: "(block_hash \<Rightarrow> nat) \<Rightarrow> nat \<Rightarrow> performer \<Rightarrow> performer \<Rightarrow> bool" where
  "smaller rank n s' s \<longleftrightarrow> (s', s) \<in> measures [block_measure, stack_measure rank n]"

lemma round_gone:
  assumes inv: "loop_inv C rank L0 T0 s" and t: "pf_targets s = (T, H) # rest" and g: "gone (pf_ledger s) T"
  shows "\<exists>s'. performer_round C now T H rest s = Some (Inr s') \<and> loop_inv C rank L0 T0 s' \<and> smaller rank n s' s"
proof -
  note I = loop_invD [OF inv]
  let ?s = "s\<lparr>pf_targets := rest\<rparr>"
  have "performer_round C now T H rest s = Some (Inr ?s)"
    using g exists_iff_present [OF ledger_invD(1) [OF I(1)]] by (simp add: performer_round_def Let_def)
  moreover have "target_stack C (pf_ledger s) rank rest"
    using I(4) unfolding t
  proof (cases rule: target_stack.cases)
    case core
    then show ?thesis
      by (cases rule: core_stack.cases) (auto intro: target_stack.intros)
  qed (auto intro: target_stack.intros)
  then have "loop_inv C rank L0 T0 ?s"
    using I t g by (auto simp: loop_inv_def split: if_splits)
  moreover have "smaller rank n ?s s"
    using t g by (auto simp: smaller_def block_measure_def stack_measure_def split: list.splits)
  ultimately show ?thesis by blast
qed

lemma round_plan:
  assumes inv: "loop_inv C rank L0 T0 s" and "\<not> gone (pf_ledger s) T"
  shows "any_block_exists (pf_ledger s) (saved_hash T)"
  using exists_iff_present [OF ledger_invD(1) [OF loop_invD(1) [OF inv]]] assms(2) by simp

lemma head_moves: "all_move C L \<Longrightarrow> is_head L H i \<Longrightarrow> moves C L H"
  by (auto simp: all_move_def is_head_def)

lemma core_stack_executed:
  assumes core: "core_stack C L rank ((T, H) # rest)" and live: "own_live L T H"
    and L: "ledger_inv C L" "ranked C (st_block L) rank" "rolled L H ins L'"
    and eq: "saved_hash H = saved_hash T"
  shows "core_stack C L' rank ((T, H) # rest)"
  using core
proof (cases rule: core_stack.cases)
  case bottom
  then show ?thesis using eq by (auto intro!: core_stack.bottom simp: gone_def rolledD(1) [OF L(3)])
next
  case (dep T1 H1 s1)
  obtain j where j: "is_head L H j" using live by (auto simp: own_live_def)
  have lt: "rank_of rank H1 < rank_of rank H" using dep by auto
  have "core_stack C L' rank ((T1, H1) # s1)"
    by (rule core_stack_rolled [OF dep(3) refl dep(4) lt L j])
  moreover have "own_live L' T1 H1" by (rule own_live_rolled [OF L j dep(4) lt])
  moreover have "gone L' T" using eq by (simp add: gone_def rolledD(1) [OF L(3)])
  ultimately show ?thesis using dep by (auto intro: core_stack.dep)
qed

lemma core_stack_other_target:
  assumes "core_stack C L rank ((T, H) # rest)" "saved_hash H \<noteq> saved_hash T"
  shows "rest = []"
  using assms(1) by (cases rule: core_stack.cases) (use assms(2) in auto)

lemma rolled_measure:
  assumes "undoes C L H i ins" "rolled L H ins L'"
  shows "length (tbl_entries (st_block L')) < length (tbl_entries (st_block L))"
  using length_entries_del [OF undoesD(6) [OF assms(1)]] rolledD(1) [OF assms(2)] by simp

lemma round_execute:
  assumes inv: "loop_inv C rank L0 T0 s" and t: "pf_targets s = (T, H) # rest"
    and core: "core_stack C (pf_ledger s) rank ((T, H) # rest)" and live: "own_live (pf_ledger s) T H"
    and plan: "performer_plan C now (pf_ledger s) H = Some (Inr (RollBackBlock ins))"
    and u: "undoes C (pf_ledger s) H i ins"
  shows "\<exists>s'. performer_round C now T H rest s = Some (Inr s') \<and> loop_inv C rank L0 T0 s' \<and> smaller rank n s' s"
proof -
  note I = loop_invD [OF inv]
  let ?L = "pf_ledger s"
  obtain L' where ex: "execute_rollback ins ?L = Some L'" and r: "rolled ?L H ins L'"
    using execute_rolled [OF I(1) u] by blast
  let ?s = "s\<lparr>pf_ledger := L', pf_rolled_back := pf_rolled_back s @ [H]\<rparr>"
  have exists: "any_block_exists ?L (saved_hash T)"
    using round_plan [OF inv] live by (auto simp: own_live_def gone_def present_def)
  have inv': "ledger_inv C L'" by (rule ledger_inv_rolled [OF I(1) u r])
  note keep = inv' all_move_rolled [OF I(1) u r I(2)] ranked_rolled [OF I(3) r] removes_rolled [OF I(1) u r I(5)]
  show ?thesis
  proof (cases "saved_hash H = saved_hash T")
    case True
    then have "performer_round C now T H rest s = Some (Inr ?s)"
      using exists plan ex by (simp add: performer_round_def Let_def)
    moreover have "core_stack C L' rank ((T, H) # rest)"
      by (rule core_stack_executed [OF core live I(1,3) r True])
    then have "loop_inv C rank L0 T0 ?s"
      using keep I(7) t by (auto simp: loop_inv_def intro: target_stack.core)
    moreover have "smaller rank n ?s s" using rolled_measure [OF u r] by (simp add: smaller_def block_measure_def)
    ultimately show ?thesis by blast
  next
    case False
    have "present L' T" using present_rolled [OF r] live False by (auto simp: own_live_def)
    then obtain H' j where H': "load_account_head L' T = Some (Inr H')" "is_head L' H' j"
      "saved_account H' = saved_account T" by (rule load_head_ok [OF inv'])
    let ?s' = "?s\<lparr>pf_targets := (T, H') # rest\<rparr>"
    have "performer_round C now T H rest s = Some (Inr ?s')"
      using exists plan ex False H' by (simp add: performer_round_def Let_def)
    moreover have "loop_inv C rank L0 T0 ?s'"
      using keep I(7) t core_stack_other_target [OF core False] H' \<open>present L' T\<close>
      by (auto simp: loop_inv_def own_live_def intro!: target_stack.core core_stack.bottom)
    moreover have "smaller rank n ?s' s" using rolled_measure [OF u r] by (simp add: smaller_def block_measure_def)
    ultimately show ?thesis by blast
  qed
qed

lemma round_request:
  assumes inv: "loop_inv C rank L0 T0 s" and t: "pf_targets s = (T, H) # rest"
    and core: "core_stack C (pf_ledger s) rank ((T, H) # rest)" and live: "own_live (pf_ledger s) T H"
    and hd: "is_head (pf_ledger s) H i" and u: "unconfirmed (pf_ledger s) H" and rb: "received C (pf_ledger s) H rb"
  shows "\<exists>s'. performer_round C now T H rest s = Some (Inr s') \<and> loop_inv C rank L0 T0 s' \<and> smaller rank n s' s"
proof -
  note I = loop_invD [OF inv]
  let ?L = "pf_ledger s"
  obtain D j where D: "performer_plan C now ?L H = Some (Inr (RequestDependencyRollback (saved_hash D)))"
    "is_head ?L D j" "saved_account D = saved_account rb"
    by (rule received_plan [OF I(1) hd head_moves [OF I(2) hd] u rb])
  have aw: "awaits C ?L D H" using D rb by (auto simp: awaits_def)
  have lt: "rank_of rank H < rank_of rank D" by (rule awaits_rank [OF I(1,3) aw])
  have pT: "present ?L T" "saved_account T = saved_account H" using live by (auto simp: own_live_def)
  let ?s = "s\<lparr>pf_targets := (D, H) # pf_targets s\<rparr>"
  have "performer_round C now T H rest s = Some (Inr ?s)"
    using round_plan [OF inv, of T] pT D(1) load_block_head [OF I(1) D(2)] load_head_of_head [OF I(1) hd pT(2)]
    by (simp add: performer_round_def Let_def gone_def present_def)
  moreover have "loop_inv C rank L0 T0 ?s"
    using I t core live aw lt by (auto simp: loop_inv_def intro!: target_stack.request)
  moreover have "saved_account D \<noteq> saved_account H" using head_unique [OF D(2) hd] lt by auto
  then have "smaller rank n ?s s"
    using t pT D(2) by (auto simp: smaller_def block_measure_def stack_measure_def gone_def present_def is_head_def)
  ultimately show ?thesis by blast
qed

lemma round_requested:
  assumes inv: "loop_inv C rank L0 T0 s" and t: "pf_targets s = (D, H) # (T, H) # rest"
    and core: "core_stack C (pf_ledger s) rank ((T, H) # rest)" and live: "own_live (pf_ledger s) T H"
    and aw: "awaits C (pf_ledger s) D H" and hd: "is_head (pf_ledger s) H i" and u: "unconfirmed (pf_ledger s) H"
    and n: "rank_of rank D \<le> n"
  shows "\<exists>s'. performer_round C now D H ((T, H) # rest) s = Some (Inr s') \<and> loop_inv C rank L0 T0 s' \<and>
    smaller rank n s' s"
proof -
  note I = loop_invD [OF inv]
  let ?L = "pf_ledger s"
  obtain rb j where rb: "received C ?L H rb" "saved_account rb = saved_account D" "is_head ?L D j"
    using aw by (auto simp: awaits_def)
  obtain D' j' where D': "performer_plan C now ?L H = Some (Inr (RequestDependencyRollback (saved_hash D')))"
    "is_head ?L D' j'" "saved_account D' = saved_account rb"
    by (rule received_plan [OF I(1) hd head_moves [OF I(2) hd] u rb(1)])
  have eq: "D' = D" using head_unique [OF D'(2) rb(3)] D'(3) rb(2) by simp
  have lt: "rank_of rank H < rank_of rank D" by (rule awaits_rank [OF I(1,3) aw])
  let ?s = "s\<lparr>pf_targets := (D, D) # pf_targets s\<rparr>"
  have "performer_round C now D H ((T, H) # rest) s = Some (Inr ?s)"
    using round_plan [OF inv, of D] D'(1) load_block_head [OF I(1) rb(3)] load_head_of_head [OF I(1) rb(3) refl] rb(3)
    by (simp add: performer_round_def Let_def gone_def is_head_def eq)
  moreover have "loop_inv C rank L0 T0 ?s"
    using I t core live aw lt by (auto simp: loop_inv_def intro!: target_stack.core core_stack.dep)
  moreover have "smaller rank n ?s s"
    using t lt n rb(3) by (auto simp: smaller_def block_measure_def stack_measure_def gone_def is_head_def)
  ultimately show ?thesis by blast
qed

lemma round_ok:
  assumes inv: "loop_inv C rank L0 T0 s" and t: "pf_targets s = (T, H) # rest"
    and n: "\<And>b. present (pf_ledger s) b \<Longrightarrow> rank_of rank b \<le> n"
  shows "performer_round C now T H rest s = Some (Inl (BlockConfirmed, s)) \<and>
      \<not> gone (pf_ledger s) T \<and> \<not> unconfirmed (pf_ledger s) H \<or>
    (\<exists>s'. performer_round C now T H rest s = Some (Inr s') \<and> loop_inv C rank L0 T0 s' \<and> smaller rank n s' s)"
proof (cases "gone (pf_ledger s) T")
  case False
  note I = loop_invD [OF inv]
  have conf: "performer_round C now T H rest s = Some (Inl (BlockConfirmed, s))"
    if "is_head (pf_ledger s) H i" "\<not> unconfirmed (pf_ledger s) H" for i
    using confirmed_plan [OF I(1) that] round_plan [OF inv False] by (simp add: performer_round_def Let_def)
  from I(4) [unfolded t] show ?thesis
  proof (cases rule: target_stack.cases)
    case core
    note live = core_top [OF core False]
    then obtain i where hd: "is_head (pf_ledger s) H i" by (auto simp: own_live_def)
    consider "\<not> unconfirmed (pf_ledger s) H"
      | rb where "unconfirmed (pf_ledger s) H" "received C (pf_ledger s) H rb"
      | "unconfirmed (pf_ledger s) H" "\<nexists>rb. received C (pf_ledger s) H rb" by blast
    then show ?thesis
    proof cases
      case 1
      then show ?thesis using conf [OF hd] False by blast
    next
      case 2
      then show ?thesis using round_request [OF inv t core live hd] by blast
    next
      case 3
      obtain ins where ins: "performer_plan C now (pf_ledger s) H = Some (Inr (RollBackBlock ins))"
        "undoes C (pf_ledger s) H i ins"
        by (rule unreceived_plan [OF I(1) hd head_moves [OF I(2) hd] 3])
      show ?thesis using round_execute [OF inv t core live ins] by blast
    qed
  next
    case (request T1 s1)
    then have aw: "awaits C (pf_ledger s) T H" using False by blast
    obtain i where hd: "is_head (pf_ledger s) H i" using request(3) by (auto simp: own_live_def)
    have t': "pf_targets s = (T, H) # (T1, H) # s1" using t request(1) by simp
    have "rank_of rank T \<le> n" using n aw by (auto simp: awaits_def is_head_def present_def)
    then show ?thesis
      using round_requested [OF inv t' request(2,3) aw hd] conf [OF hd] request(1) False by blast
  qed
qed (use round_gone [OF inv t] in blast)

text \<open>The loop returns, for any targets it is started with.\<close>

lemma roll_back_impl_ok:
  assumes "loop_inv C rank L0 T0 s" and n: "\<And>b. present L0 b \<Longrightarrow> rank_of rank b \<le> n"
  shows "\<exists>e s'. roll_back_impl C now s = Some (e, s') \<and> loop_inv C rank L0 T0 s' \<and>
    (case e of None \<Rightarrow> pf_targets s' = []
     | Some x \<Rightarrow> x = BlockConfirmed \<and> (\<exists>T H rest. pf_targets s' = (T, H) # rest \<and>
         \<not> gone (pf_ledger s') T \<and> \<not> unconfirmed (pf_ledger s') H))"
  using assms(1)
proof (induction s rule: wf_induct_rule [OF wf_measures [of "[block_measure, stack_measure rank n]"]])
  case (1 s)
  have n': "present (pf_ledger s) b \<Longrightarrow> rank_of rank b \<le> n" for b
    using n loop_invD(5) [OF 1(2)] by (auto simp: removes_def present_def split: if_splits)
  show ?case
  proof (cases "pf_targets s")
    case Nil
    then show ?thesis using 1(2) by (subst roll_back_impl.simps) simp
  next
    case (Cons x rest)
    obtain T H where x: "x = (T, H)" by (cases x)
    with Cons have t: "pf_targets s = (T, H) # rest" by simp
    from round_ok [OF 1(2) t n'] consider
      "performer_round C now T H rest s = Some (Inl (BlockConfirmed, s))"
        "\<not> gone (pf_ledger s) T" "\<not> unconfirmed (pf_ledger s) H"
      | s' where "performer_round C now T H rest s = Some (Inr s')" "loop_inv C rank L0 T0 s'" "smaller rank n s' s"
      by blast
    then show ?thesis
    proof cases
      case a: 1
      then show ?thesis using t 1(2) by (subst roll_back_impl.simps) auto
    next
      case b: 2
      then show ?thesis
        using t 1(1) [of s'] by (subst roll_back_impl.simps) (simp add: smaller_def)
    qed
  qed
qed

lemma roll_back_unknown:
  assumes "tbl_get (st_block L) h = None"
  shows "roll_back_with_tx C now h L = Some ([], Some BlockNotFound, L)"
  using assms
  by (simp add: roll_back_with_tx_def performer_roll_back_def performer_load_block_def any_get_block_def)

lemma roll_back_run:
  assumes inv: "ledger_inv C L" and mv: "all_move C L" and T0: "tbl_get (st_block L) h = Some T"
  obtains rank e s where "roll_back_with_tx C now h L = Some (pf_rolled_back s, e, pf_ledger s)"
    "loop_inv C rank L T s"
    "case e of None \<Rightarrow> pf_targets s = []
     | Some x \<Rightarrow> x = BlockConfirmed \<and> (\<exists>T H rest. pf_targets s = (T, H) # rest \<and>
         \<not> gone (pf_ledger s) T \<and> \<not> unconfirmed (pf_ledger s) H)"
proof -
  note wf = blocks_invD [OF ledger_invD(1) [OF inv] T0]
  have T: "present L T" "saved_hash T = h" using T0 block_wfD(2) [OF wf] by (simp_all add: present_def)
  obtain H i where H: "load_account_head L T = Some (Inr H)" "is_head L H i" "saved_account H = saved_account T"
    by (rule load_head_ok [OF inv T(1)])
  obtain rank where rk: "ranked C (st_block L) rank" using ledger_invD(11) [OF inv] by (auto simp: order_inv_def)
  let ?n = "Max ((\<lambda>r. rank (fst r)) ` set (tbl_entries (st_block L)))"
  have n: "rank_of rank b \<le> ?n" if "present L b" for b
    using that lmdb.entries_get [of "saved_hash b" b "st_block L"]
    by (intro Max_ge) (force simp: present_def)+
  let ?s = "\<lparr>pf_targets = [(T, H)], pf_rolled_back = [], pf_ledger = L\<rparr>"
  have start: "loop_inv C rank L T ?s"
    using inv mv rk T H by (auto simp: loop_inv_def removes_def own_live_def intro!: target_stack.core core_stack.bottom)
  have call: "performer_roll_back C now h L = roll_back_impl C now ?s"
    using T0 H block_wfD(1) [OF wf]
    by (simp add: performer_roll_back_def performer_load_block_def any_get_block_def Let_def)
  obtain e s where s: "roll_back_impl C now ?s = Some (e, s)" "loop_inv C rank L T s"
    "case e of None \<Rightarrow> pf_targets s = []
     | Some x \<Rightarrow> x = BlockConfirmed \<and> (\<exists>T H rest. pf_targets s = (T, H) # rest \<and>
         \<not> gone (pf_ledger s) T \<and> \<not> unconfirmed (pf_ledger s) H)"
    using roll_back_impl_ok [OF start n, of now] by blast
  have "roll_back_with_tx C now h L = Some (pf_rolled_back s, e, pf_ledger s)"
    by (simp add: roll_back_with_tx_def call s(1))
  then show thesis using that s(2,3) by blast
qed

text \<open>
  \<^verbatim>\<open>Ledger::roll_back_with_tx\<close>: it returns, keeps the invariant, and has removed exactly
  the blocks it lists, none of them confirmed; it fails on unknown blocks and at a confirmed
  block, and otherwise the target is gone.
\<close>

lemma roll_back_with_tx_ok:
  assumes inv: "ledger_inv C L" and mv: "all_move C L"
  shows "\<exists>bs e L'. roll_back_with_tx C now h L = Some (bs, e, L') \<and> ledger_inv C L' \<and> all_move C L' \<and>
    removes L bs L' \<and>
    (case e of None \<Rightarrow> tbl_get (st_block L') h = None \<and> tbl_get (st_block L) h \<noteq> None
     | Some x \<Rightarrow> x = BlockNotFound \<and> tbl_get (st_block L) h = None \<and> L' = L \<or>
         x = BlockConfirmed \<and> tbl_get (st_block L) h \<noteq> None)"
proof (cases "tbl_get (st_block L) h")
  case None
  then show ?thesis using inv mv roll_back_unknown [OF None] by (simp add: removes_def)
next
  case (Some T)
  have T: "saved_hash T = h" by (rule block_wfD(2) [OF blocks_invD [OF ledger_invD(1) [OF inv] Some]])
  obtain rank e s where s: "roll_back_with_tx C now h L = Some (pf_rolled_back s, e, pf_ledger s)"
    "loop_inv C rank L T s" "case e of None \<Rightarrow> pf_targets s = []
     | Some x \<Rightarrow> x = BlockConfirmed \<and> (\<exists>T H rest. pf_targets s = (T, H) # rest \<and>
         \<not> gone (pf_ledger s) T \<and> \<not> unconfirmed (pf_ledger s) H)"
    by (rule roll_back_run [OF inv mv Some])
  note I = loop_invD [OF s(2)]
  have "e = None \<Longrightarrow> tbl_get (st_block (pf_ledger s)) h = None"
    using I(6) s(3) T by (simp add: gone_def)
  then show ?thesis using I(1,2,5) s(1,3) Some by (auto split: option.splits)
qed

section \<open>Batches\<close>

text \<open>Only unconfirmed blocks disappear, and no confirmation height changes.\<close>

definition shrinks :: "ledger \<Rightarrow> ledger \<Rightarrow> bool" where
  "shrinks L L' \<longleftrightarrow> st_confirmation_height L' = st_confirmation_height L \<and>
     (\<forall>h b. tbl_get (st_block L') h = Some b \<longrightarrow> tbl_get (st_block L) h = Some b) \<and>
     (\<forall>h b. tbl_get (st_block L) h = Some b \<longrightarrow> \<not> unconfirmed L b \<longrightarrow> tbl_get (st_block L') h = Some b)"

lemma shrinks_refl [simp]: "shrinks L L"
  by (simp add: shrinks_def)

lemma shrinksD:
  assumes "shrinks L L'"
  shows "st_confirmation_height L' = st_confirmation_height L"
    "tbl_get (st_block L') h = Some b \<Longrightarrow> tbl_get (st_block L) h = Some b"
    "tbl_get (st_block L) h = Some b \<Longrightarrow> \<not> unconfirmed L b \<Longrightarrow> tbl_get (st_block L') h = Some b"
  using assms unfolding shrinks_def by blast+

lemma shrinks_trans:
  assumes a: "shrinks L1 L2" and b: "shrinks L2 L3"
  shows "shrinks L1 L3"
proof -
  have eq: "unconfirmed L1 b \<longleftrightarrow> unconfirmed L2 b" for b
    using shrinksD(1) [OF a] by (simp add: unconfirmed_def)
  have "tbl_get (st_block L3) h = Some x" if "tbl_get (st_block L1) h = Some x" "\<not> unconfirmed L1 x" for h x
    using shrinksD(3) [OF b shrinksD(3) [OF a that]] that(2) eq by blast
  moreover have "tbl_get (st_block L1) h = Some x" if "tbl_get (st_block L3) h = Some x" for h x
    by (rule shrinksD(2) [OF a shrinksD(2) [OF b that]])
  moreover have "st_confirmation_height L3 = st_confirmation_height L1"
    using shrinksD(1) [OF a] shrinksD(1) [OF b] by simp
  ultimately show ?thesis unfolding shrinks_def by blast
qed

lemma removes_shrinks:
  assumes "blocks_inv L" "removes L bs L'"
  shows "shrinks L L'"
proof -
  have "h \<notin> saved_hash ` set bs" if "tbl_get (st_block L) h = Some b" "\<not> unconfirmed L b" for h b
    using assms(2) that by (auto simp: removes_def present_def)
  then show ?thesis using assms(2) by (auto simp: shrinks_def removes_def split: if_splits)
qed

lemma roll_back_with_tx_shrinks:
  assumes "ledger_inv C L" "all_move C L"
  obtains bs e L' where "roll_back_with_tx C now h L = Some (bs, e, L')" "ledger_inv C L'" "all_move C L'"
    "shrinks L L'"
proof -
  obtain bs e L' where "roll_back_with_tx C now h L = Some (bs, e, L')" "ledger_inv C L'" "all_move C L'"
    "removes L bs L'"
    using roll_back_with_tx_ok [OF assms] by blast
  then show thesis using that removes_shrinks [OF ledger_invD(1) [OF assms(1)]] by blast
qed

lemma roll_back_batch_loop_ok:
  assumes "ledger_inv C L" "all_move C L"
  shows "\<exists>rs L'. roll_back_batch_loop C now m can targets count L = Some (rs, L') \<and> ledger_inv C L' \<and>
    all_move C L' \<and> shrinks L L'"
  using assms
proof (induction targets arbitrary: count L)
  case (Cons h hs)
  consider "\<not> can h" | "can h" "block_get L h = None" | b where "can h" "block_get L h = Some b" by fastforce
  then show ?case
  proof cases
    case 1
    then show ?thesis using Cons.IH [OF Cons.prems, of count] by auto
  next
    case 2
    then show ?thesis using Cons.IH [OF Cons.prems, of "count + 1"] by auto
  next
    case 3
    obtain bs e L1 where L1: "roll_back_with_tx C now (saved_hash b) L = Some (bs, e, L1)" "ledger_inv C L1"
      "all_move C L1" "shrinks L L1" by (rule roll_back_with_tx_shrinks [OF Cons.prems])
    obtain rs L2 where L2: "roll_back_batch_loop C now m can hs (count + length bs) L1 = Some (rs, L2)"
      "ledger_inv C L2" "all_move C L2" "shrinks L1 L2"
      using Cons.IH [OF L1(2,3), of "count + length bs"] by blast
    show ?thesis
    proof (cases "count + length bs \<ge> m")
      case True
      then show ?thesis using 3 L1 by simp
    next
      case False
      then show ?thesis using 3 L1 L2 shrinks_trans [OF L1(4) L2(4)] by simp
    qed
  qed
qed simp

lemma roll_back_competitors_ok:
  assumes "ledger_inv C L" "all_move C L"
  shows "\<exists>rs L'. roll_back_competitors C now bs L = Some (rs, L') \<and> ledger_inv C L' \<and> all_move C L' \<and>
    shrinks L L'"
  using assms
proof (induction bs arbitrary: L)
  case (Cons b bs)
  have "\<exists>xs L1. rollback_competitor C now b L = Some (xs, L1) \<and> ledger_inv C L1 \<and> all_move C L1 \<and> shrinks L L1"
  proof (cases "block_successor_by_qualified_root L (qualified_root_of b)")
    case None
    then show ?thesis using Cons.prems by (simp add: rollback_competitor_def)
  next
    case (Some h)
    obtain xs e L1 where "roll_back_with_tx C now h L = Some (xs, e, L1)" "ledger_inv C L1" "all_move C L1"
      "shrinks L L1" by (rule roll_back_with_tx_shrinks [OF Cons.prems])
    then show ?thesis using Some Cons.prems by (simp add: rollback_competitor_def)
  qed
  then obtain xs L1 where L1: "rollback_competitor C now b L = Some (xs, L1)" "ledger_inv C L1" "all_move C L1"
    "shrinks L L1" by blast
  obtain rs L2 where L2: "roll_back_competitors C now bs L1 = Some (rs, L2)" "ledger_inv C L2" "all_move C L2"
    "shrinks L1 L2" using Cons.IH [OF L1(2,3)] by blast
  then show ?case using L1 shrinks_trans [OF L1(4) L2(4)] by simp
qed simp

end
