(* ===== verification/Cementation.thy ===== *)
theory Cementation
  imports Rollback_Loop
begin

text \<open>
  Confirmation of blocks: \<^verbatim>\<open>ledger/src/block_cementer.rs\<close> and
  \<^verbatim>\<open>Ledger::confirm\<close>, \<^verbatim>\<open>confirm_max\<close> and \<^verbatim>\<open>confirm_batch\<close> of
  \<^verbatim>\<open>ledger.rs\<close>. A block is confirmed after everything it depends on.

  Whenever a write transaction is refreshed or committed, other writers get their turn. Which
  refreshes happen, and what the others do, is the argument \<open>env\<close>: at clock tick
  \<open>k\<close> the ledger \<open>L\<close> becomes \<open>L'\<close> if \<open>env k L = Some L'\<close>,
  and there is no refresh if it is \<open>None\<close>. The statistics are left out.
\<close>

section \<open>The cementer\<close>

type_synonym interference = "nat \<Rightarrow> ledger \<Rightarrow> ledger option"

definition cementer_is_confirmed :: "'a lmdb_store_scheme \<Rightarrow> block_hash \<Rightarrow> bool" where
  "cementer_is_confirmed L h =
     (case block_get L h of
        None \<Rightarrow> False
      | Some b \<Rightarrow>
          (case conf_height_get L (saved_account b) of
             None \<Rightarrow> False
           | Some info \<Rightarrow> saved_height b \<le> ch_height info))"

text \<open>The back of the deque is the head of the list.\<close>

definition push_dependent :: "'a lmdb_store_scheme \<Rightarrow> nat \<Rightarrow> block_hash \<Rightarrow> block_hash list \<Rightarrow> block_hash list" where
  "push_dependent L max_blocks d stack =
     (if d \<noteq> 0 \<and> \<not> cementer_is_confirmed L d then
        if length (d # stack) > max_blocks then butlast (d # stack) else d # stack
      else stack)"

record cementer =
  cm_clock :: nat
  cm_ledger :: ledger
  cm_stack :: "block_hash list"
  cm_result :: "saved_block list"

definition cement_block :: "saved_block \<Rightarrow> ledger \<Rightarrow> ledger" where
  "cement_block b L =
     (let L = conf_height_put (saved_account b) \<lparr>ch_height = saved_height b, ch_frontier = saved_hash b\<rparr> L in
      L\<lparr>cache_confirmed_count := cache_confirmed_count L + 1\<rparr>)"

definition cementer_round :: "ledger_constants \<Rightarrow> nat \<Rightarrow> block_hash \<Rightarrow> cementer \<Rightarrow> cementer option" where
  "cementer_round C max_blocks h s = do {
     b \<leftarrow> block_get (cm_ledger s) h;
     let stack = fold (push_dependent (cm_ledger s) max_blocks) (dependents_iter (dependent_blocks C b)) (cm_stack s);
     Some (case stack of
        [] \<Rightarrow> s\<lparr>cm_stack := stack\<rparr>
      | x # rest \<Rightarrow>
          if x = h then
            if \<not> cementer_is_confirmed (cm_ledger s) h
            then s\<lparr>cm_stack := rest, cm_ledger := cement_block b (cm_ledger s), cm_result := cm_result s @ [b]\<rparr>
            else s\<lparr>cm_stack := rest\<rparr>
          else s\<lparr>cm_stack := stack\<rparr>)
   }"

partial_function (option) cementer_loop :: "ledger_constants \<Rightarrow> interference \<Rightarrow> nat \<Rightarrow> block_hash \<Rightarrow> cementer \<Rightarrow>
    cementer option" where
  "cementer_loop C env max_blocks target s =
     (case cm_stack s of
        [] \<Rightarrow> Some s
      | h # _ \<Rightarrow>
          (case cementer_round C max_blocks h s of
             None \<Rightarrow> None
           | Some s \<Rightarrow>
               (case env (cm_clock s) (cm_ledger s) of
                  Some L' \<Rightarrow>
                    if \<not> block_exists_in_store L' target \<or> length (cm_result s) \<ge> max_blocks
                    then Some (s\<lparr>cm_clock := cm_clock s + 1, cm_ledger := L'\<rparr>)
                    else cementer_loop C env max_blocks target (s\<lparr>cm_clock := cm_clock s + 1, cm_ledger := L'\<rparr>)
                | None \<Rightarrow>
                    if length (cm_result s) \<ge> max_blocks then Some (s\<lparr>cm_clock := cm_clock s + 1\<rparr>)
                    else cementer_loop C env max_blocks target (s\<lparr>cm_clock := cm_clock s + 1\<rparr>))))"

definition confirm_max :: "ledger_constants \<Rightarrow> interference \<Rightarrow> nat \<Rightarrow> block_hash \<Rightarrow> nat \<Rightarrow> ledger \<Rightarrow>
    (nat \<times> ledger \<times> saved_block list) option" where
  "confirm_max C env k target max_blocks L =
     map_option (\<lambda>s. (cm_clock s, cm_ledger s, cm_result s))
       (cementer_loop C env max_blocks target
          \<lparr>cm_clock = k, cm_ledger = L, cm_stack = [target], cm_result = []\<rparr>)"

definition confirm :: "ledger_constants \<Rightarrow> interference \<Rightarrow> block_hash \<Rightarrow> ledger \<Rightarrow>
    (saved_block list \<times> ledger) option" where
  "confirm C env h L =
     map_option (\<lambda>(_, L', blocks). (blocks, L')) (confirm_max C env 0 h (1024 * 128) L)"

section \<open>Batches\<close>

datatype cementing_event =
    BatchConfirmed "(saved_block \<times> block_hash) list"
  | AlreadyConfirmed block_hash
  | CementingFailed block_hash

record confirm_batch_state =
  cb_clock :: nat
  cb_ledger :: ledger
  cb_confirmed :: "(saved_block \<times> block_hash) list"
  cb_blocks_confirmed :: nat
  cb_events :: "cementing_event list"

definition cb_refresh :: "interference \<Rightarrow> confirm_batch_state \<Rightarrow> confirm_batch_state" where
  "cb_refresh env s = s\<lparr>cb_clock := cb_clock s + 1,
     cb_ledger := (case env (cb_clock s) (cb_ledger s) of Some L \<Rightarrow> L | None \<Rightarrow> cb_ledger s)\<rparr>"

definition cb_notify :: "interference \<Rightarrow> nat \<Rightarrow> confirm_batch_state \<Rightarrow> confirm_batch_state" where
  "cb_notify env max_blocks s =
     (if cb_blocks_confirmed s \<ge> max_blocks
      then cb_refresh env (s\<lparr>cb_blocks_confirmed := 0,
        cb_events := cb_events s @ [BatchConfirmed (cb_confirmed s)], cb_confirmed := []\<rparr>)
      else s)"

definition cb_added :: "block_hash \<Rightarrow> saved_block list \<Rightarrow> confirm_batch_state \<Rightarrow> confirm_batch_state" where
  "cb_added root added s =
     (if added \<noteq> [] then
        s\<lparr>cb_blocks_confirmed := cb_blocks_confirmed s + length added,
          cb_confirmed := cb_confirmed s @ map (\<lambda>b. (b, root)) added\<rparr>
      else if confirmed_block_exists (cb_ledger s) root
      then s\<lparr>cb_events := cb_events s @ [AlreadyConfirmed root]\<rparr>
      else s)"

text \<open>
  The loop for one root: \<open>None\<close> in the result is the early return when
  \<open>stopped\<close>, otherwise the value of \<^verbatim>\<open>success\<close>.
\<close>

partial_function (option) confirm_root :: "ledger_constants \<Rightarrow> interference \<Rightarrow> (nat \<Rightarrow> bool) \<Rightarrow> nat \<Rightarrow>
    block_hash \<Rightarrow> confirm_batch_state \<Rightarrow> (bool option \<times> confirm_batch_state) option" where
  "confirm_root C env stopped max_blocks root s =
     (let s = cb_refresh env s in
      if stopped (cb_clock s) then Some (None, s)
      else let s = cb_notify env max_blocks s in
      if \<not> block_exists_in_store (cb_ledger s) root then Some (Some False, s)
      else (case confirm_max C env (cb_clock s) root max_blocks (cb_ledger s) of
          None \<Rightarrow> None
        | Some (k, L, added) \<Rightarrow>
            let s = cb_added root added (s\<lparr>cb_clock := k, cb_ledger := L\<rparr>) in
            if cementer_is_confirmed (cb_ledger s) root then Some (Some True, s)
            else confirm_root C env stopped max_blocks root s))"

fun confirm_roots :: "ledger_constants \<Rightarrow> interference \<Rightarrow> (nat \<Rightarrow> bool) \<Rightarrow> nat \<Rightarrow> block_hash list \<Rightarrow>
    confirm_batch_state \<Rightarrow> (bool \<times> confirm_batch_state) option" where
  "confirm_roots C env stopped max_blocks [] s = Some (False, s)"
| "confirm_roots C env stopped max_blocks (root # roots) s =
     (case confirm_root C env stopped max_blocks root s of
        None \<Rightarrow> None
      | Some (None, s) \<Rightarrow> Some (True, s)
      | Some (Some True, s) \<Rightarrow> confirm_roots C env stopped max_blocks roots s
      | Some (Some False, s) \<Rightarrow> confirm_roots C env stopped max_blocks roots
          (s\<lparr>cb_events := cb_events s @ [CementingFailed root]\<rparr>))"

definition confirm_batch :: "ledger_constants \<Rightarrow> interference \<Rightarrow> (nat \<Rightarrow> bool) \<Rightarrow> nat \<Rightarrow> block_hash list \<Rightarrow>
    ledger \<Rightarrow> (cementing_event list \<times> ledger) option" where
  "confirm_batch C env stopped max_blocks roots L = do {
     (early, s) \<leftarrow> confirm_roots C env stopped max_blocks roots
       \<lparr>cb_clock = 0, cb_ledger = L, cb_confirmed = [], cb_blocks_confirmed = 0, cb_events = []\<rparr>;
     Some (if \<not> early \<and> cb_confirmed s \<noteq> []
       then cb_events s @ [BatchConfirmed (cb_confirmed s)] else cb_events s, cb_ledger s)
   }"

section \<open>Dependencies of stored blocks\<close>

abbreviation deps :: "ledger_constants \<Rightarrow> saved_block \<Rightarrow> block_hash list" where
  "deps C b \<equiv> dependents_iter (dependent_blocks C b)"

lemma is_confirmed_iff:
  "cementer_is_confirmed L h \<longleftrightarrow> (\<exists>b. tbl_get (st_block L) h = Some b \<and> \<not> unconfirmed L b)"
  by (auto simp: cementer_is_confirmed_def unconfirmed_def not_less split: option.splits)

lemma open_block_unique:
  assumes "blocks_inv L" "tbl_get (st_block L) h = Some b" "tbl_get (st_block L) h' = Some b'"
    "saved_previous b = 0" "saved_previous b' = 0" "saved_account b = saved_account b'"
  shows "h = h'"
  using assms block_wf_openE [OF blocks_invD [OF assms(1,2)]] block_wf_openE [OF blocks_invD [OF assms(1,3)]]
  by (metis option.inject)

lemma receives_stored:
  assumes "ledger_inv C L" "tbl_get (st_block L) h = Some b" "receives C b = Some s"
  shows "\<exists>sb. tbl_get (st_block L) s = Some sb" "s \<noteq> 0"
proof -
  have "receive_wf L b s"
    using transfers_invD [OF ledger_invD(4) [OF assms(1)] assms(2)] assms(3) by (simp add: transfer_wf_def)
  then show ex: "\<exists>sb. tbl_get (st_block L) s = Some sb" by (auto simp: receive_wf_def)
  then show "s \<noteq> 0" using block_wfD(1) [OF blocks_invD [OF ledger_invD(1) [OF assms(1)]]] by blast
qed

lemma open_deps:
  assumes inv: "ledger_inv C L" and b: "tbl_get (st_block L) h = Some b" and o: "svb_block b = LegacyOpen i"
  shows "set (deps C b) = set_option (receives C b)" "saved_previous b = 0"
proof -
  note I = ledger_invD [OF inv]
  have hb: "saved_hash b = h" by (rule block_wfD(2) [OF blocks_invD [OF I(1) b]])
  show p: "saved_previous b = 0" using o by simp
  have acc: "saved_account b = oh_account (ob_hashables i)" using o by (simp add: saved_account_def)
  obtain gb where gb: "tbl_get (st_block L) (saved_hash (lc_genesis_block C)) = Some gb"
    "saved_account gb = lc_genesis_account C" "saved_previous gb = 0"
    using I(10) by (auto simp: genesis_inv_def)
  have "oh_account (ob_hashables i) = lc_genesis_account C \<longleftrightarrow> h = saved_hash (lc_genesis_block C)"
    using open_block_unique [OF I(1) b gb(1) p gb(3)] gb b acc by auto
  moreover have "receives C b = Some s \<Longrightarrow> s \<noteq> 0" for s by (rule receives_stored(2) [OF inv b])
  ultimately show "set (deps C b) = set_option (receives C b)"
    using o hb by (auto simp: dependent_blocks_def saved_dependent_blocks_def open_dependent_blocks_def
        receives_def saved_source_def split: if_splits)
qed

lemma deps_iff:
  assumes inv: "ledger_inv C L" and b: "tbl_get (st_block L) h = Some b"
  shows "set (deps C b) = {saved_previous b} - {0} \<union> set_option (receives C b)"
proof (cases "svb_block b")
  case (LegacyOpen i)
  then show ?thesis using open_deps [OF inv b] by simp
next
  case (State st)
  have hb: "saved_hash b = h" by (rule block_wfD(2) [OF blocks_invD [OF ledger_invD(1) [OF inv] b]])
  have ng: "saved_hash b \<noteq> saved_hash (lc_genesis_block C)"
    using ledger_invD(10) [OF inv] b hb State by (auto simp: genesis_inv_def)
  have "link_wf C b" using ledger_invD(12) [OF inv] b by (simp add: links_inv_def)
  then show ?thesis
    using State ng receives_stored(2) [OF inv b]
    by (auto simp: dependent_blocks_def saved_dependent_blocks_def link_wf_def receives_def saved_source_def
        split: if_splits)
next
  case (LegacyReceive i)
  have hb: "saved_hash b = h" by (rule block_wfD(2) [OF blocks_invD [OF ledger_invD(1) [OF inv] b]])
  have ng: "saved_hash b \<noteq> saved_hash (lc_genesis_block C)"
    using ledger_invD(10) [OF inv] b hb LegacyReceive by (auto simp: genesis_inv_def)
  then show ?thesis
    using LegacyReceive receives_stored(2) [OF inv b]
    by (auto simp: dependent_blocks_def saved_dependent_blocks_def receives_def saved_source_def split: if_splits)
qed (auto simp: dependent_blocks_def saved_dependent_blocks_def receives_def saved_source_def split: if_splits)

lemma deps_stored:
  assumes inv: "ledger_inv C L" and b: "tbl_get (st_block L) h = Some b" and d: "d \<in> set (deps C b)"
  shows "\<exists>db. tbl_get (st_block L) d = Some db" "d \<noteq> 0"
    "ranked C (st_block L) rank \<Longrightarrow> rank d < rank h"
proof -
  note wf = blocks_invD [OF ledger_invD(1) [OF inv] b]
  from d consider "d = saved_previous b" "d \<noteq> 0" | "receives C b = Some d"
    by (auto simp: deps_iff [OF inv b])
  then have "(\<exists>db. tbl_get (st_block L) d = Some db) \<and> d \<noteq> 0 \<and> (ranked C (st_block L) rank \<longrightarrow> rank d < rank h)"
  proof cases
    case 1
    then show ?thesis using block_wf_prevE [OF wf] b unfolding ranked_def by metis
  next
    case 2
    then show ?thesis using receives_stored [OF inv b 2] b unfolding ranked_def by metis
  qed
  then show "\<exists>db. tbl_get (st_block L) d = Some db" "d \<noteq> 0" "ranked C (st_block L) rank \<Longrightarrow> rank d < rank h"
    by blast+
qed

section \<open>Confirming one block\<close>

text \<open>Everything a confirmed block depends on is confirmed.\<close>

definition cemented_inv :: "ledger_constants \<Rightarrow> 'a lmdb_store_scheme \<Rightarrow> bool" where
  "cemented_inv C L \<longleftrightarrow>
     (\<forall>h b. tbl_get (st_block L) h = Some b \<longrightarrow> \<not> unconfirmed L b \<longrightarrow>
        (\<forall>d \<in> set (deps C b). cementer_is_confirmed L d))"

definition cementable :: "ledger_constants \<Rightarrow> 'a lmdb_store_scheme \<Rightarrow> saved_block \<Rightarrow> bool" where
  "cementable C L b \<longleftrightarrow> present L b \<and> unconfirmed L b \<and> (\<forall>d \<in> set (deps C b). cementer_is_confirmed L d)"

lemma cement_block_fields [simp]:
  "st_block (cement_block b L) = st_block L" "st_account (cement_block b L) = st_account L"
  "st_pending (cement_block b L) = st_pending L" "st_rep_weight (cement_block b L) = st_rep_weight L"
  "st_successors (cement_block b L) = st_successors L" "st_final_vote (cement_block b L) = st_final_vote L"
  "lg_rep_weights (cement_block b L) = lg_rep_weights L" "lg_min_weight (cement_block b L) = lg_min_weight L"
  "cache_block_count (cement_block b L) = cache_block_count L"
  "cache_account_count (cement_block b L) = cache_account_count L"
  "cache_confirmed_count (cement_block b L) = cache_confirmed_count L + 1"
  "st_confirmation_height (cement_block b L) = tbl_put (saved_account b)
     \<lparr>ch_height = saved_height b, ch_frontier = saved_hash b\<rparr> (st_confirmation_height L)"
  by (simp_all add: cement_block_def conf_height_put_def Let_def)

text \<open>The block to confirm is the one right above the confirmed ones of its account.\<close>

lemma cementable_height:
  assumes inv: "ledger_inv C L" and ok: "cementable C L b"
  shows "unat (saved_height b) =
    (case tbl_get (st_confirmation_height L) (saved_account b) of None \<Rightarrow> 0 | Some c \<Rightarrow> unat (ch_height c)) + 1"
proof -
  note I = ledger_invD [OF inv]
  have b: "tbl_get (st_block L) (saved_hash b) = Some b" and u: "unconfirmed L b"
    using ok by (simp_all add: cementable_def present_def)
  note wf = blocks_invD [OF I(1) b]
  show ?thesis
  proof (cases "saved_previous b = 0")
    case True
    have "\<not> 0 < unat (ch_height c)" if "tbl_get (st_confirmation_height L) (saved_account b) = Some c" for c
      using u that block_wfD(6) [OF wf True] by (auto simp: unconfirmed_def word_less_nat_alt)
    then show ?thesis using block_wfD(6) [OF wf True] by (auto split: option.splits)
  next
    case False
    obtain p where p: "tbl_get (st_block L) (saved_previous b) = Some p" "saved_account p = saved_account b"
      "unat (saved_height b) = unat (saved_height p) + 1" by (rule block_wf_prevE [OF wf False])
    have "cementer_is_confirmed L (saved_previous b)"
      using ok False by (simp add: cementable_def deps_iff [OF inv b])
    then obtain c where c: "tbl_get (st_confirmation_height L) (saved_account b) = Some c"
      "saved_height p \<le> ch_height c"
      using p(1,2) by (auto simp: is_confirmed_iff unconfirmed_def not_less)
    moreover have "ch_height c < saved_height b" using u c(1) by (simp add: unconfirmed_def)
    ultimately show ?thesis using p(3) by (auto simp: word_less_nat_alt word_le_nat_alt)
  qed
qed

lemma unconfirmed_cement:
  assumes inv: "ledger_inv C L" and ok: "cementable C L b" and x: "tbl_get (st_block L) h = Some x"
  shows "unconfirmed (cement_block b L) x \<longleftrightarrow> unconfirmed L x \<and> h \<noteq> saved_hash b"
proof -
  note I = ledger_invD [OF inv]
  have b: "tbl_get (st_block L) (saved_hash b) = Some b" using ok by (simp add: cementable_def present_def)
  show ?thesis
  proof (cases "saved_account x = saved_account b")
    case True
    have "unat (saved_height x) = unat (saved_height b) \<longleftrightarrow> h = saved_hash b"
      using height_unique [OF I(1) x b True] x b by (auto simp: word_unat_eq_iff [symmetric])
    then have "saved_height b < saved_height x \<longleftrightarrow> unconfirmed L x \<and> h \<noteq> saved_hash b"
      using cementable_height [OF inv ok] True height_pos [OF I(1) x]
      by (cases "tbl_get (st_confirmation_height L) (saved_account b)")
        (auto simp: unconfirmed_def word_less_nat_alt)
    then show ?thesis using True by (simp add: unconfirmed_def)
  next
    case False
    then show ?thesis using x b by (auto simp: unconfirmed_def)
  qed
qed

lemma confirmed_cement:
  assumes "ledger_inv C L" "cementable C L b"
  shows "cementer_is_confirmed (cement_block b L) h \<longleftrightarrow> cementer_is_confirmed L h \<or> h = saved_hash b"
  using unconfirmed_cement [OF assms] assms(2) by (auto simp: is_confirmed_iff cementable_def present_def)

lemma conf_inv_cement: "conf_inv L \<Longrightarrow> present L b \<Longrightarrow> conf_inv (cement_block b L)"
  by (auto simp: conf_inv_def present_def)

lemma counts_inv_cement:
  assumes inv: "ledger_inv C L" and ok: "cementable C L b"
  shows "counts_inv (cement_block b L)"
proof -
  let ?t = "st_confirmation_height L" and ?a = "saved_account b" and ?f = "\<lambda>(_ :: account) c. unat (ch_height c)"
  let ?c = "\<lparr>ch_height = saved_height b, ch_frontier = saved_hash b\<rparr>"
  have "(\<Sum>(k, v)\<leftarrow>tbl_entries (tbl_put ?a ?c ?t). ?f k v) = (\<Sum>(k, v)\<leftarrow>tbl_entries ?t. ?f k v) + 1"
    using cementable_height [OF inv ok] lmdb.sum_put_new [of ?t ?a ?f ?c] lmdb.sum_put_old [of ?t ?a _ ?f ?c]
    by (cases "tbl_get ?t ?a") auto
  then show ?thesis using ledger_invD(9) [OF inv] by (simp add: counts_inv_def)
qed

lemma cement_block_transfer [simp]: "transfer_wf C (cement_block b L) x = transfer_wf C L x"
  by (cases "receives C x") (simp_all add: transfer_wf_def receive_wf_def send_wf_def)

lemma cement_block_invs [simp]:
  "blocks_inv (cement_block b L) = blocks_inv L" "successors_inv (cement_block b L) = successors_inv L"
  "accounts_inv (cement_block b L) = accounts_inv L" "transfers_inv C (cement_block b L) = transfers_inv C L"
  "pending_inv (cement_block b L) = pending_inv L" "supply_inv (cement_block b L) = supply_inv L"
  "order_inv C (cement_block b L) = order_inv C L" "links_inv C (cement_block b L) = links_inv C L"
  by (simp_all add: blocks_inv_def block_wf_def successors_inv_def accounts_inv_def account_wf_def
      transfers_inv_def pending_inv_def pending_wf_def supply_inv_def balance_total_def pending_total_def
      order_inv_def links_inv_def)

lemma ledger_inv_cement:
  assumes inv: "ledger_inv C L" and ok: "cementable C L b"
  shows "ledger_inv C (cement_block b L)"
proof -
  note I = ledger_invD [OF inv]
  have "weights_inv (cement_block b L)"
    using I(7) tracks_cong [of "cement_block b L" L] by (simp add: weights_inv_def)
  moreover have "genesis_inv C (cement_block b L)" using I(10) by (auto simp: genesis_inv_def)
  ultimately show ?thesis
    using I(1-6,11,12) conf_inv_cement [OF I(8)] counts_inv_cement [OF inv ok] ok
    by (simp add: ledger_inv_def cementable_def)
qed

lemma cemented_inv_cement:
  assumes inv: "ledger_inv C L" and ok: "cementable C L b" and c: "cemented_inv C L"
  shows "cemented_inv C (cement_block b L)"
  unfolding cemented_inv_def
proof (intro allI impI ballI)
  fix h x d
  assume "tbl_get (st_block (cement_block b L)) h = Some x" "\<not> unconfirmed (cement_block b L) x" "d \<in> set (deps C x)"
  then have x: "tbl_get (st_block L) h = Some x" "\<not> unconfirmed L x \<or> h = saved_hash b" "d \<in> set (deps C x)"
    using unconfirmed_cement [OF inv ok, of h x] by auto
  have "h = saved_hash b \<Longrightarrow> x = b" using x(1) ok by (simp add: cementable_def present_def)
  then have "cementer_is_confirmed L d"
    using x c ok unfolding cemented_inv_def cementable_def by blast
  then show "cementer_is_confirmed (cement_block b L) d" using confirmed_cement [OF inv ok] by simp
qed

text \<open>What has been confirmed since \<open>L\<close>.\<close>

definition cements :: "ledger \<Rightarrow> saved_block list \<Rightarrow> ledger \<Rightarrow> bool" where
  "cements L bs L' \<longleftrightarrow> L' = fold cement_block bs L \<and> distinct bs \<and>
     (\<forall>b \<in> set bs. present L b \<and> \<not> cementer_is_confirmed L (saved_hash b)) \<and>
     (\<forall>h. cementer_is_confirmed L' h \<longleftrightarrow> cementer_is_confirmed L h \<or> h \<in> saved_hash ` set bs)"

lemma cements_refl: "cements L [] L"
  by (simp add: cements_def)

lemma fold_cement_block [simp]: "st_block (fold cement_block bs L) = st_block L"
  by (induction bs arbitrary: L) simp_all

lemma cements_trans:
  assumes "cements L bs L1" "cements L1 cs L2"
  shows "cements L (bs @ cs) L2"
proof -
  have pr: "present L1 b \<longleftrightarrow> present L b" for b using assms(1) by (simp add: cements_def present_def)
  then have "set bs \<inter> set cs = {}" using assms unfolding cements_def by blast
  then show ?thesis using assms pr by (auto simp: cements_def)
qed

lemma cements_confirmed: "cements L bs L' \<Longrightarrow> cementer_is_confirmed L h \<Longrightarrow> cementer_is_confirmed L' h"
  unfolding cements_def by blast

lemma cements_cement:
  assumes "ledger_inv C L" "cementable C L b"
  shows "cements L [b] (cement_block b L)"
proof -
  have "\<not> cementer_is_confirmed L (saved_hash b)"
    using assms(2) by (auto simp: cementable_def is_confirmed_iff present_def)
  then show ?thesis
    using assms(2) confirmed_cement [OF assms] by (simp add: cements_def cementable_def)
qed

section \<open>The loop of the cementer\<close>

lemma fold_push:
  assumes "stack \<noteq> []"
  shows "fold (push_dependent L m) ds stack \<noteq> []"
    "set (fold (push_dependent L m) ds stack) \<subseteq>
       set stack \<union> {d \<in> set ds. d \<noteq> 0 \<and> \<not> cementer_is_confirmed L d}"
    "\<forall>d \<in> set ds. cementer_is_confirmed L d \<Longrightarrow> fold (push_dependent L m) ds stack = stack"
    "\<exists>d \<in> set ds. d \<noteq> 0 \<and> \<not> cementer_is_confirmed L d \<Longrightarrow>
       hd (fold (push_dependent L m) ds stack) \<in> {d \<in> set ds. \<not> cementer_is_confirmed L d}"
proof -
  have hd: "hd (fold (push_dependent L m) ds stack) =
      last (hd stack # filter (\<lambda>d. d \<noteq> 0 \<and> \<not> cementer_is_confirmed L d) ds) \<and>
    fold (push_dependent L m) ds stack \<noteq> [] \<and>
    set (fold (push_dependent L m) ds stack) \<subseteq>
       set stack \<union> {d \<in> set ds. d \<noteq> 0 \<and> \<not> cementer_is_confirmed L d}"
    using assms
  proof (induction ds arbitrary: stack)
    case (Cons d ds)
    have "push_dependent L m d stack \<noteq> []" "set (push_dependent L m d stack) \<subseteq>
        set stack \<union> {x. x = d \<and> d \<noteq> 0 \<and> \<not> cementer_is_confirmed L d}"
      "hd (push_dependent L m d stack) = (if d \<noteq> 0 \<and> \<not> cementer_is_confirmed L d then d else hd stack)"
      using Cons.prems by (auto simp: push_dependent_def dest: in_set_butlastD)
    then show ?case using Cons.IH [of "push_dependent L m d stack"] by auto
  qed simp
  then show "fold (push_dependent L m) ds stack \<noteq> []"
    "set (fold (push_dependent L m) ds stack) \<subseteq>
       set stack \<union> {d \<in> set ds. d \<noteq> 0 \<and> \<not> cementer_is_confirmed L d}"
    by blast+
  show "\<forall>d \<in> set ds. cementer_is_confirmed L d \<Longrightarrow> fold (push_dependent L m) ds stack = stack"
    by (induction ds arbitrary: stack) (simp_all add: push_dependent_def)
  assume "\<exists>d \<in> set ds. d \<noteq> 0 \<and> \<not> cementer_is_confirmed L d"
  then have "filter (\<lambda>d. d \<noteq> 0 \<and> \<not> cementer_is_confirmed L d) ds \<noteq> []" by (simp add: filter_empty_conv)
  then show "hd (fold (push_dependent L m) ds stack) \<in> {d \<in> set ds. \<not> cementer_is_confirmed L d}"
    using hd last_in_set [of "filter (\<lambda>d. d \<noteq> 0 \<and> \<not> cementer_is_confirmed L d) ds"] by auto
qed

lemma round_confirms:
  assumes "cm_stack s = h # rest" "tbl_get (st_block (cm_ledger s)) h = Some b"
    "\<forall>d \<in> set (deps C b). cementer_is_confirmed (cm_ledger s) d"
  shows "cementer_round C m h s = Some
    (if cementer_is_confirmed (cm_ledger s) h then s\<lparr>cm_stack := rest\<rparr>
     else s\<lparr>cm_stack := rest, cm_ledger := cement_block b (cm_ledger s), cm_result := cm_result s @ [b]\<rparr>)"
  using assms fold_push(3) [OF _ assms(3), of "h # rest"] by (simp add: cementer_round_def Let_def)

lemma round_pushes:
  assumes inv: "ledger_inv C (cm_ledger s)" and rk: "ranked C (st_block (cm_ledger s)) rank"
    and s: "cm_stack s = h # rest" and b: "tbl_get (st_block (cm_ledger s)) h = Some b"
    and d: "\<exists>d \<in> set (deps C b). \<not> cementer_is_confirmed (cm_ledger s) d"
  obtains x xs where "cementer_round C m h s = Some (s\<lparr>cm_stack := x # xs\<rparr>)"
    "set (x # xs) \<subseteq> set (cm_stack s) \<union> {d \<in> set (deps C b). \<not> cementer_is_confirmed (cm_ledger s) d}"
    "\<not> cementer_is_confirmed (cm_ledger s) x" "rank x < rank h"
proof -
  let ?st = "fold (push_dependent (cm_ledger s) m) (deps C b) (h # rest)"
  have ne: "h # rest \<noteq> []" by simp
  have "\<exists>d \<in> set (deps C b). d \<noteq> 0 \<and> \<not> cementer_is_confirmed (cm_ledger s) d"
    using d deps_stored(2) [OF inv b] by blast
  then have top: "hd ?st \<in> {d \<in> set (deps C b). \<not> cementer_is_confirmed (cm_ledger s) d}"
    by (rule fold_push(4) [OF ne])
  obtain x xs where x: "?st = x # xs" using fold_push(1) [OF ne] by (metis list.exhaust)
  have lt: "rank x < rank h" using top x deps_stored(3) [OF inv b _ rk] by simp
  then have "cementer_round C m h s = Some (s\<lparr>cm_stack := x # xs\<rparr>)"
    using s b x by (auto simp: cementer_round_def Let_def)
  moreover have "set (x # xs) \<subseteq> set (cm_stack s) \<union> {d \<in> set (deps C b). \<not> cementer_is_confirmed (cm_ledger s) d}"
    using fold_push(2) [OF ne, of "cm_ledger s" m "deps C b"] x s by auto
  ultimately show thesis using that lt top x by simp
qed

text \<open>One round keeps the invariants, whatever the stack holds.\<close>

definition cement_ok :: "ledger_constants \<Rightarrow> ledger \<Rightarrow> bool" where
  "cement_ok C L \<longleftrightarrow> ledger_inv C L \<and> cemented_inv C L"

lemma round_keeps:
  assumes ok: "cement_ok C (cm_ledger s)" and r: "cementer_round C m h s = Some s'" and "hd (cm_stack s) = h" "cm_stack s \<noteq> []"
  shows "cement_ok C (cm_ledger s')"
proof -
  have inv: "ledger_inv C (cm_ledger s)" "cemented_inv C (cm_ledger s)" using ok by (simp_all add: cement_ok_def)
  obtain rest where s: "cm_stack s = h # rest" using assms(3,4) by (cases "cm_stack s") auto
  obtain b where b: "tbl_get (st_block (cm_ledger s)) h = Some b"
    using r by (auto simp: cementer_round_def split: Option.bind_splits)
  have hb: "saved_hash b = h" by (rule block_wfD(2) [OF blocks_invD [OF ledger_invD(1) [OF inv(1)] b]])
  obtain rank where rk: "ranked C (st_block (cm_ledger s)) rank"
    using ledger_invD(11) [OF inv(1)] by (auto simp: order_inv_def)
  show ?thesis
  proof (cases "\<forall>d \<in> set (deps C b). cementer_is_confirmed (cm_ledger s) d")
    case True
    have "cementable C (cm_ledger s) b" if "\<not> cementer_is_confirmed (cm_ledger s) h"
      using that True b hb by (auto simp: cementable_def present_def is_confirmed_iff)
    then show ?thesis
      using r round_confirms [OF s b True, of m] ok inv ledger_inv_cement [OF inv(1)] cemented_inv_cement [OF inv(1) _ inv(2)]
      by (auto simp: cement_ok_def split: if_splits)
  next
    case False
    then have d: "\<exists>d \<in> set (deps C b). \<not> cementer_is_confirmed (cm_ledger s) d" by blast
    obtain x xs where "cementer_round C m h s = Some (s\<lparr>cm_stack := x # xs\<rparr>)"
      by (rule round_pushes [OF inv(1) rk s b d])
    then show ?thesis using r ok by simp
  qed
qed

end
