(* ===== verification/Confirm_Batch.thy ===== *)
theory Confirm_Batch
  imports Cementation
begin

text \<open>
  Cementation as a whole. Without interference the cementer returns, and each call confirms at
  least one block unless its target is confirmed already, so \<^verbatim>\<open>confirm_batch\<close> ends
  with every root of the ledger confirmed. With interference the invariants are kept as long as
  the other writers keep them.
\<close>

section \<open>Without interference\<close>

abbreviation quiet :: interference where
  "quiet \<equiv> \<lambda>_ _. None"

definition unconfirmed_hashes :: "'a lmdb_store_scheme \<Rightarrow> block_hash set" where
  "unconfirmed_hashes L = {h. tbl_get (st_block L) h \<noteq> None \<and> \<not> cementer_is_confirmed L h}"

definition cm_inv :: "ledger_constants \<Rightarrow> (block_hash \<Rightarrow> nat) \<Rightarrow> ledger \<Rightarrow> block_hash \<Rightarrow> cementer \<Rightarrow> bool" where
  "cm_inv C rank L0 target s \<longleftrightarrow> cement_ok C (cm_ledger s) \<and> ranked C (st_block (cm_ledger s)) rank \<and>
     (\<forall>h \<in> set (cm_stack s). tbl_get (st_block (cm_ledger s)) h \<noteq> None) \<and>
     cements L0 (cm_result s) (cm_ledger s) \<and>
     (cm_result s = [] \<and> \<not> cementer_is_confirmed L0 target \<longrightarrow>
        cm_stack s \<noteq> [] \<and> (\<forall>h \<in> set (cm_stack s). \<not> cementer_is_confirmed (cm_ledger s) h))"

definition cm_measure :: "(block_hash \<Rightarrow> nat) \<Rightarrow> nat \<Rightarrow> cementer \<Rightarrow> nat" where
  "cm_measure rank n s =
     (case cm_stack s of
        [] \<Rightarrow> 0
      | h # _ \<Rightarrow> if cementer_is_confirmed (cm_ledger s) h then n + 1 + length (cm_stack s) else rank h)"

abbreviation cm_less :: "(block_hash \<Rightarrow> nat) \<Rightarrow> nat \<Rightarrow> (cementer \<times> cementer) set" where
  "cm_less rank n \<equiv> measures [\<lambda>s. card (unconfirmed_hashes (cm_ledger s)), cm_measure rank n]"

lemma finite_unconfirmed: "finite (unconfirmed_hashes L)"
proof -
  have "unconfirmed_hashes L \<subseteq> fmdom' (st_block L)" by (auto simp: unconfirmed_hashes_def intro: fmdom'I)
  then show ?thesis by (rule finite_subset) simp
qed

lemma unconfirmed_hashes_cements:
  assumes "cements L bs L'"
  shows "unconfirmed_hashes L' = unconfirmed_hashes L - saved_hash ` set bs"
  using assms by (auto simp: unconfirmed_hashes_def cements_def)

lemma card_unconfirmed_less:
  assumes "cements L bs L'" "bs \<noteq> []"
  shows "card (unconfirmed_hashes L') < card (unconfirmed_hashes L)"
proof (rule psubset_card_mono [OF finite_unconfirmed])
  obtain b where "b \<in> set bs" using assms(2) by (cases bs) auto
  then have "saved_hash b \<in> unconfirmed_hashes L"
    using assms(1) by (auto simp: cements_def present_def unconfirmed_hashes_def)
  then show "unconfirmed_hashes L' \<subset> unconfirmed_hashes L"
    using unconfirmed_hashes_cements [OF assms(1)] \<open>b \<in> set bs\<close> by blast
qed

lemma cm_round_ok:
  assumes inv: "cm_inv C rank L0 target s" and s: "cm_stack s = h # rest"
    and n: "\<And>x. tbl_get (st_block (cm_ledger s)) x \<noteq> None \<Longrightarrow> rank x \<le> n"
  shows "\<exists>s'. cementer_round C m h s = Some s' \<and> cm_inv C rank L0 target s' \<and> (s', s) \<in> cm_less rank n \<and>
    st_block (cm_ledger s') = st_block (cm_ledger s)"
proof -
  let ?L = "cm_ledger s"
  have I: "ledger_inv C ?L" "cemented_inv C ?L" "ranked C (st_block ?L) rank" "cements L0 (cm_result s) ?L"
    using inv by (simp_all add: cm_inv_def cement_ok_def)
  obtain b where b: "tbl_get (st_block ?L) h = Some b" using inv s by (auto simp: cm_inv_def)
  have hb: "saved_hash b = h" by (rule block_wfD(2) [OF blocks_invD [OF ledger_invD(1) [OF I(1)] b]])
  consider (push) "\<exists>d \<in> set (deps C b). \<not> cementer_is_confirmed ?L d"
    | (pop) "\<forall>d \<in> set (deps C b). cementer_is_confirmed ?L d" "cementer_is_confirmed ?L h"
    | (cement) "\<forall>d \<in> set (deps C b). cementer_is_confirmed ?L d" "\<not> cementer_is_confirmed ?L h" by blast
  then show ?thesis
  proof cases
    case push
    obtain x xs where x: "cementer_round C m h s = Some (s\<lparr>cm_stack := x # xs\<rparr>)"
      "set (x # xs) \<subseteq> set (cm_stack s) \<union> {d \<in> set (deps C b). \<not> cementer_is_confirmed ?L d}"
      "\<not> cementer_is_confirmed ?L x" "rank x < rank h" by (rule round_pushes [OF I(1,3) s b push])
    have "\<not> cementer_is_confirmed ?L h" using push I(2) b by (auto simp: cemented_inv_def is_confirmed_iff)
    moreover have "\<forall>y \<in> set (x # xs). tbl_get (st_block ?L) y \<noteq> None"
      using x(2) inv deps_stored(1) [OF I(1) b] unfolding cm_inv_def by blast
    then have "cm_inv C rank L0 target (s\<lparr>cm_stack := x # xs\<rparr>)"
      using inv x(2) s unfolding cm_inv_def by auto
    ultimately show ?thesis using x s by (auto simp: cm_measure_def)
  next
    case pop
    have "cm_result s = [] \<longrightarrow> cementer_is_confirmed L0 target" using inv pop(2) s by (auto simp: cm_inv_def)
    then have "cm_inv C rank L0 target (s\<lparr>cm_stack := rest\<rparr>)" using inv s by (auto simp: cm_inv_def)
    moreover have "cm_measure rank n (s\<lparr>cm_stack := rest\<rparr>) < cm_measure rank n s"
    proof (cases rest)
      case (Cons x xs)
      then have "rank x \<le> n" using inv s by (intro n) (simp add: cm_inv_def)
      then show ?thesis using s pop(2) Cons by (simp add: cm_measure_def)
    qed (use s pop(2) in \<open>simp add: cm_measure_def\<close>)
    ultimately show ?thesis using round_confirms [OF s b pop(1), of m] pop(2) by auto
  next
    case cement
    have ca: "cementable C ?L b" using cement b hb by (auto simp: cementable_def present_def is_confirmed_iff)
    have c1: "cements ?L [b] (cement_block b ?L)" by (rule cements_cement [OF I(1) ca])
    let ?s = "s\<lparr>cm_stack := rest, cm_ledger := cement_block b ?L, cm_result := cm_result s @ [b]\<rparr>"
    have "cm_inv C rank L0 target ?s"
      using inv s cements_trans [OF I(4) c1] ledger_inv_cement [OF I(1) ca] cemented_inv_cement [OF I(1) ca I(2)]
      by (auto simp: cm_inv_def cement_ok_def)
    moreover have "(?s, s) \<in> cm_less rank n" using card_unconfirmed_less [OF c1] by simp
    ultimately show ?thesis using round_confirms [OF s b cement(1), of m] cement(2) by auto
  qed
qed

lemma cm_inv_clock [simp]: "cm_inv C rank L0 target (s\<lparr>cm_clock := k\<rparr>) = cm_inv C rank L0 target s"
  by (simp add: cm_inv_def)

lemma cm_measure_clock [simp]: "cm_measure rank n (s\<lparr>cm_clock := k\<rparr>) = cm_measure rank n s"
  by (cases "cm_stack s") (simp_all add: cm_measure_def)

lemma cementer_loop_ok:
  assumes "cm_inv C rank L0 target s" and n: "\<And>x. tbl_get (st_block (cm_ledger s)) x \<noteq> None \<Longrightarrow> rank x \<le> n"
  shows "\<exists>s'. cementer_loop C quiet m target s = Some s' \<and> cm_inv C rank L0 target s' \<and>
    (cm_stack s' = [] \<or> length (cm_result s') \<ge> m)"
  using assms
proof (induction s rule: wf_induct_rule
    [OF wf_measures [of "[\<lambda>s. card (unconfirmed_hashes (cm_ledger s)), cm_measure rank n]"]])
  case (1 s)
  show ?case
  proof (cases "cm_stack s")
    case Nil
    then show ?thesis using 1(2) by (subst cementer_loop.simps) simp
  next
    case (Cons h rest)
    obtain s' where s': "cementer_round C m h s = Some s'" "cm_inv C rank L0 target s'" "(s', s) \<in> cm_less rank n"
      "st_block (cm_ledger s') = st_block (cm_ledger s)"
      using cm_round_ok [OF 1(2) Cons 1(3)] by blast
    show ?thesis
    proof (cases "length (cm_result s') \<ge> m")
      case True
      then show ?thesis using Cons s' by (subst cementer_loop.simps) simp
    next
      case False
      have "\<exists>s''. cementer_loop C quiet m target (s'\<lparr>cm_clock := cm_clock s' + 1\<rparr>) = Some s'' \<and>
          cm_inv C rank L0 target s'' \<and> (cm_stack s'' = [] \<or> length (cm_result s'') \<ge> m)"
        by (rule 1(1)) (use s' 1(3) in simp_all)
      then show ?thesis using Cons s' False by (subst cementer_loop.simps) simp
    qed
  qed
qed

lemma confirm_max_ok:
  assumes ok: "cement_ok C L" and t: "tbl_get (st_block L) target \<noteq> None"
  shows "\<exists>k' L' bs. confirm_max C quiet k target m L = Some (k', L', bs) \<and> cement_ok C L' \<and> cements L bs L' \<and>
    (0 < m \<longrightarrow> \<not> cementer_is_confirmed L target \<longrightarrow> bs \<noteq> [])"
proof -
  obtain rank where rk: "ranked C (st_block L) rank"
    using ok by (auto simp: cement_ok_def ledger_inv_def order_inv_def)
  let ?s = "\<lparr>cm_clock = k, cm_ledger = L, cm_stack = [target], cm_result = []\<rparr>"
  have "cm_inv C rank L target ?s" using ok t rk by (simp add: cm_inv_def cements_refl)
  moreover have "rank x \<le> Max (rank ` fmdom' (st_block L))" if "tbl_get (st_block L) x \<noteq> None" for x
    using that by (intro Max_ge finite_imageI) (auto intro: fmdom'I)
  ultimately obtain s' where "cementer_loop C quiet m target ?s = Some s'" "cm_inv C rank L target s'"
    "cm_stack s' = [] \<or> length (cm_result s') \<ge> m"
    using cementer_loop_ok [of C rank L target ?s "Max (rank ` fmdom' (st_block L))" m] by auto
  then show ?thesis by (auto simp: confirm_max_def cm_inv_def)
qed

section \<open>Batches without interference\<close>

fun event_blocks :: "cementing_event \<Rightarrow> saved_block list" where
  "event_blocks (BatchConfirmed xs) = map fst xs"
| "event_blocks (AlreadyConfirmed h) = []"
| "event_blocks (CementingFailed h) = []"

text \<open>The blocks the observer was told about, and those it will be told about next.\<close>

definition told :: "ledger_constants \<Rightarrow> ledger \<Rightarrow> confirm_batch_state \<Rightarrow> bool" where
  "told C L0 s \<longleftrightarrow> cement_ok C (cb_ledger s) \<and>
     cements L0 (concat (map event_blocks (cb_events s)) @ map fst (cb_confirmed s)) (cb_ledger s)"

lemma told_refresh [simp]: "told C L0 (cb_refresh quiet s) = told C L0 s"
  by (simp add: told_def cb_refresh_def)

lemma told_notify [simp]: "told C L0 (cb_notify quiet m s) = told C L0 s"
  by (simp add: told_def cb_notify_def cb_refresh_def)

lemma ledger_refresh_notify [simp]:
  "cb_ledger (cb_refresh quiet s) = cb_ledger s" "cb_ledger (cb_notify quiet m s) = cb_ledger s"
  by (simp_all add: cb_refresh_def cb_notify_def)

lemma cb_added_ledger [simp]: "cb_ledger (cb_added root bs s) = cb_ledger s"
  by (simp add: cb_added_def)

lemma told_added:
  assumes "told C L0 s" "cement_ok C L'" "cements (cb_ledger s) bs L'"
  shows "told C L0 (cb_added root bs (s\<lparr>cb_clock := k, cb_ledger := L'\<rparr>))"
  using assms cements_trans [of L0 "concat (map event_blocks (cb_events s)) @ map fst (cb_confirmed s)" "cb_ledger s" bs L']
  by (cases bs) (auto simp: told_def cb_added_def comp_def)

lemma told_stored: "told C L0 s \<Longrightarrow> st_block (cb_ledger s) = st_block L0"
  by (simp add: told_def cements_def)

lemma confirm_root_ok:
  assumes "told C L0 s" "0 < m"
  shows "\<exists>s'. confirm_root C quiet (\<lambda>_. False) m root s = Some (Some (tbl_get (st_block L0) root \<noteq> None), s') \<and>
    told C L0 s' \<and>
    (\<forall>h. cementer_is_confirmed (cb_ledger s) h \<longrightarrow> cementer_is_confirmed (cb_ledger s') h) \<and>
    (tbl_get (st_block L0) root \<noteq> None \<longrightarrow> cementer_is_confirmed (cb_ledger s') root)"
  using assms(1)
proof (induction "card (unconfirmed_hashes (cb_ledger s))" arbitrary: s rule: less_induct)
  case less
  let ?s = "cb_notify quiet m (cb_refresh quiet s)"
  have told: "told C L0 ?s" using less.prems by simp
  note stored = told_stored [OF less.prems]
  show ?case
  proof (cases "tbl_get (st_block L0) root")
    case None
    then show ?thesis
      using told stored by (subst confirm_root.simps) (simp add: Let_def)
  next
    case (Some b)
    have ok: "cement_ok C (cb_ledger s)" using less.prems by (simp add: told_def)
    have "tbl_get (st_block (cb_ledger s)) root \<noteq> None" using Some stored by simp
    then obtain k L' bs where L': "confirm_max C quiet (cb_clock ?s) root m (cb_ledger s) = Some (k, L', bs)"
      "cement_ok C L'" "cements (cb_ledger s) bs L'"
      "\<not> cementer_is_confirmed (cb_ledger s) root \<Longrightarrow> bs \<noteq> []"
      using confirm_max_ok [OF ok, of root "cb_clock ?s" m] assms(2) by blast
    let ?t = "cb_added root bs (?s\<lparr>cb_clock := k, cb_ledger := L'\<rparr>)"
    have t: "told C L0 ?t" using told_added [OF told L'(2)] L'(3) by simp
    have mono: "cementer_is_confirmed (cb_ledger s) h \<Longrightarrow> cementer_is_confirmed L' h" for h
      by (rule cements_confirmed [OF L'(3)])
    show ?thesis
    proof (cases "cementer_is_confirmed L' root")
      case True
      then show ?thesis
        using Some stored L'(1) t mono by (subst confirm_root.simps) (simp add: Let_def)
    next
      case False
      then have "bs \<noteq> []" using L'(4) mono by blast
      then have "card (unconfirmed_hashes (cb_ledger ?t)) < card (unconfirmed_hashes (cb_ledger s))"
        using card_unconfirmed_less [OF L'(3)] by simp
      from less.hyps [OF this t] show ?thesis
        using Some stored L'(1) False mono by (subst confirm_root.simps) (auto simp: Let_def)
    qed
  qed
qed

lemma confirm_roots_ok:
  assumes "told C L0 s" "0 < m"
  shows "\<exists>s'. confirm_roots C quiet (\<lambda>_. False) m roots s = Some (False, s') \<and> told C L0 s' \<and>
    (\<forall>h. cementer_is_confirmed (cb_ledger s) h \<longrightarrow> cementer_is_confirmed (cb_ledger s') h) \<and>
    (\<forall>root \<in> set roots. tbl_get (st_block L0) root \<noteq> None \<longrightarrow> cementer_is_confirmed (cb_ledger s') root)"
  using assms(1)
proof (induction roots arbitrary: s)
  case (Cons root roots)
  obtain s1 where s1: "confirm_root C quiet (\<lambda>_. False) m root s = Some (Some (tbl_get (st_block L0) root \<noteq> None), s1)"
    "told C L0 s1" "\<forall>h. cementer_is_confirmed (cb_ledger s) h \<longrightarrow> cementer_is_confirmed (cb_ledger s1) h"
    "tbl_get (st_block L0) root \<noteq> None \<longrightarrow> cementer_is_confirmed (cb_ledger s1) root"
    using confirm_root_ok [OF Cons.prems assms(2)] by blast
  let ?s2 = "if tbl_get (st_block L0) root \<noteq> None then s1 else s1\<lparr>cb_events := cb_events s1 @ [CementingFailed root]\<rparr>"
  have "told C L0 ?s2" using s1(2) by (simp add: told_def)
  then obtain s' where "confirm_roots C quiet (\<lambda>_. False) m roots ?s2 = Some (False, s')" "told C L0 s'"
    "\<forall>h. cementer_is_confirmed (cb_ledger ?s2) h \<longrightarrow> cementer_is_confirmed (cb_ledger s') h"
    "\<forall>root \<in> set roots. tbl_get (st_block L0) root \<noteq> None \<longrightarrow> cementer_is_confirmed (cb_ledger s') root"
    using Cons.IH by blast
  then show ?case using s1 by (auto split: if_splits)
qed simp

text \<open>
  A batch ends with every stored root confirmed, and the observer was told of exactly the newly
  confirmed blocks, each once and in the order of their confirmation.
\<close>

lemma confirm_batch_ok:
  assumes ok: "cement_ok C L" and m: "0 < m"
  shows "\<exists>events L'. confirm_batch C quiet (\<lambda>_. False) m roots L = Some (events, L') \<and> cement_ok C L' \<and>
    cements L (concat (map event_blocks events)) L' \<and>
    (\<forall>root \<in> set roots. tbl_get (st_block L) root \<noteq> None \<longrightarrow> cementer_is_confirmed L' root)"
proof -
  let ?s = "\<lparr>cb_clock = 0, cb_ledger = L, cb_confirmed = [], cb_blocks_confirmed = 0, cb_events = []\<rparr>"
  have "told C L ?s" using ok by (simp add: told_def cements_refl)
  then obtain s where s: "confirm_roots C quiet (\<lambda>_. False) m roots ?s = Some (False, s)" "told C L s"
    "\<forall>root \<in> set roots. tbl_get (st_block L) root \<noteq> None \<longrightarrow> cementer_is_confirmed (cb_ledger s) root"
    using confirm_roots_ok [OF _ m] by blast
  then show ?thesis by (auto simp: confirm_batch_def told_def)
qed

section \<open>With interference\<close>

definition keeps_ok :: "ledger_constants \<Rightarrow> interference \<Rightarrow> bool" where
  "keeps_ok C env \<longleftrightarrow> (\<forall>k L L'. cement_ok C L \<longrightarrow> env k L = Some L' \<longrightarrow> cement_ok C L')"

lemma cementer_loop_keeps:
  assumes env: "keeps_ok C env" and r: "cementer_loop C env m target s = Some s'" and "cement_ok C (cm_ledger s)"
  shows "cement_ok C (cm_ledger s')"
proof -
  have "keeps_ok C env \<longrightarrow> cement_ok C (cm_ledger s) \<longrightarrow> cement_ok C (cm_ledger s')"
  proof (rule cementer_loop.raw_induct [OF _ r, where
      P = "\<lambda>C env m target s s'. keeps_ok C env \<longrightarrow> cement_ok C (cm_ledger s) \<longrightarrow> cement_ok C (cm_ledger s')"])
    fix loop C env m target s s'
    assume IH: "\<And>C env m target s s'. loop C env m target s = Some s' \<Longrightarrow>
        keeps_ok C env \<longrightarrow> cement_ok C (cm_ledger s) \<longrightarrow> cement_ok C (cm_ledger s')"
      and body: "(case cm_stack s of [] \<Rightarrow> Some s
        | h # _ \<Rightarrow> (case cementer_round C m h s of None \<Rightarrow> None
          | Some s \<Rightarrow> (case env (cm_clock s) (cm_ledger s) of
              Some L' \<Rightarrow> if \<not> block_exists_in_store L' target \<or> length (cm_result s) \<ge> m
                then Some (s\<lparr>cm_clock := cm_clock s + 1, cm_ledger := L'\<rparr>)
                else loop C env m target (s\<lparr>cm_clock := cm_clock s + 1, cm_ledger := L'\<rparr>)
            | None \<Rightarrow> if length (cm_result s) \<ge> m then Some (s\<lparr>cm_clock := cm_clock s + 1\<rparr>)
                else loop C env m target (s\<lparr>cm_clock := cm_clock s + 1\<rparr>)))) = Some s'"
    show "keeps_ok C env \<longrightarrow> cement_ok C (cm_ledger s) \<longrightarrow> cement_ok C (cm_ledger s')"
    proof (intro impI)
      assume env: "keeps_ok C env" and ok: "cement_ok C (cm_ledger s)"
      show "cement_ok C (cm_ledger s')"
      proof (cases "cm_stack s")
        case Nil
        then show ?thesis using body ok by simp
      next
        case (Cons h rest)
        then obtain s1 where s1: "cementer_round C m h s = Some s1" using body by (auto split: option.splits)
        have ok1: "cement_ok C (cm_ledger s1)" by (rule round_keeps [OF ok s1]) (simp_all add: Cons)
        have "cement_ok C L'" if "env (cm_clock s1) (cm_ledger s1) = Some L'" for L'
          using env that ok1 by (auto simp: keeps_ok_def)
        then show ?thesis
          using body Cons s1 ok1 IH env by (fastforce split: option.splits if_splits)
      qed
    qed
  qed
  then show ?thesis using assms by blast
qed

lemma refresh_keeps:
  assumes "keeps_ok C env" "cement_ok C (cb_ledger s)"
  shows "cement_ok C (cb_ledger (cb_refresh env s))" "cement_ok C (cb_ledger (cb_notify env m s))"
  using assms by (auto simp: cb_refresh_def cb_notify_def keeps_ok_def split: option.splits)

lemma confirm_root_keeps:
  assumes env: "keeps_ok C env" and r: "confirm_root C env stopped m root s = Some (ok, s')"
    and "cement_ok C (cb_ledger s)"
  shows "cement_ok C (cb_ledger s')"
proof -
  have "keeps_ok C env \<longrightarrow> cement_ok C (cb_ledger s) \<longrightarrow> cement_ok C (cb_ledger (snd (ok, s')))"
  proof (rule confirm_root.raw_induct [OF _ r, where
      P = "\<lambda>C env stopped m root s r. keeps_ok C env \<longrightarrow> cement_ok C (cb_ledger s) \<longrightarrow> cement_ok C (cb_ledger (snd r))"],
      intro impI)
    fix loop C env stopped m root s r
    let ?s = "cb_notify env m (cb_refresh env s)"
    assume IH: "\<And>C env stopped m root s r. loop C env stopped m root s = Some r \<Longrightarrow>
        keeps_ok C env \<longrightarrow> cement_ok C (cb_ledger s) \<longrightarrow> cement_ok C (cb_ledger (snd r))"
      and body: "(let s = cb_refresh env s in
        if stopped (cb_clock s) then Some (None, s)
        else let s = cb_notify env m s in
          if \<not> block_exists_in_store (cb_ledger s) root then Some (Some False, s)
          else case confirm_max C env (cb_clock s) root m (cb_ledger s) of None \<Rightarrow> None
            | Some (k, L, added) \<Rightarrow> let s = cb_added root added (s\<lparr>cb_clock := k, cb_ledger := L\<rparr>) in
                if cementer_is_confirmed (cb_ledger s) root then Some (Some True, s)
                else loop C env stopped m root s) = Some r"
      and env: "keeps_ok C env" and ok: "cement_ok C (cb_ledger s)"
    have ok1: "cement_ok C (cb_ledger (cb_refresh env s))" "cement_ok C (cb_ledger ?s)"
      using refresh_keeps [OF env] ok by blast+
    have "cement_ok C L'" if "confirm_max C env (cb_clock ?s) root m (cb_ledger ?s) = Some (k, L', added)" for k L' added
      using that cementer_loop_keeps [OF env] ok1(2) by (auto simp: confirm_max_def)
    then show "cement_ok C (cb_ledger (snd r))"
      using body ok1 IH [of C env stopped m root _ r] env
      by (auto simp: Let_def split: option.splits if_splits)
  qed
  then show ?thesis using assms by simp
qed

lemma confirm_roots_keeps:
  assumes "keeps_ok C env" "confirm_roots C env stopped m roots s = Some (e, s')" "cement_ok C (cb_ledger s)"
  shows "cement_ok C (cb_ledger s')"
  using assms(2,3)
proof (induction roots arbitrary: s)
  case (Cons root roots)
  then show ?case
    using confirm_root_keeps [OF assms(1)]
    by (fastforce split: option.splits bool.splits prod.splits)
qed simp

lemma confirm_batch_keeps:
  assumes "keeps_ok C env" "confirm_batch C env stopped m roots L = Some (events, L')" "cement_ok C L"
  shows "cement_ok C L'"
  using assms confirm_roots_keeps [OF assms(1)] by (fastforce simp: confirm_batch_def split: Option.bind_splits)

end
