(* ===== verification/Lifecycle.thy ===== *)
theory Lifecycle
  imports Batch Startup Confirm_Batch
begin

text \<open>
  The life of a ledger: from the genesis ledger by batches of blocks, rollbacks and
  confirmations in any order. All invariants hold in every reachable ledger, no operation
  panics there, an unconfirmed block can always be rolled back, and a confirmed block stays for
  good.
\<close>

section \<open>The invariant over all operations\<close>

definition ledger_ok :: "ledger_constants \<Rightarrow> ledger \<Rightarrow> bool" where
  "ledger_ok C L \<longleftrightarrow> ledger_inv C L \<and> cemented_inv C L \<and> all_move C L"

lemma confirmed_in_snapshot:
  assumes "ledger_inv C L" "blocks_inv L'" "extends L L'" "tbl_get (st_block L') h = Some b" "\<not> unconfirmed L' b"
  shows "tbl_get (st_block L) h = Some b" "\<not> unconfirmed L b"
proof -
  have conf: "st_confirmation_height L' = st_confirmation_height L"
    using assms(3) by (simp add: extends_def)
  have ex: "tbl_get (st_block L) x = Some y \<Longrightarrow> tbl_get (st_block L') x = Some y" for x y
    using assms(3) by (simp add: extends_def)
  show nu: "\<not> unconfirmed L b" using assms(5) conf by (simp add: unconfirmed_def)
  then obtain c where c: "tbl_get (st_confirmation_height L) (saved_account b) = Some c" "saved_height b \<le> ch_height c"
    by (auto simp: unconfirmed_def not_less)
  obtain f where f: "tbl_get (st_block L) (ch_frontier c) = Some f" "saved_account f = saved_account b"
    "saved_height f = ch_height c"
    using ledger_invD(8) [OF assms(1)] c(1) by (auto simp: conf_inv_def)
  obtain x y where y: "tbl_get (st_block L) x = Some y" "saved_account y = saved_account f"
    "unat (saved_height y) = unat (saved_height b)"
    using ancestor_at [OF ledger_invD(1) [OF assms(1)] f(1) height_pos [OF assms(2,4)]] c(2) f(3)
    by (auto simp: word_le_nat_alt)
  have "x = h"
    by (rule height_unique [OF assms(2) ex [OF y(1)] assms(4)]) (use y(2,3) f(2) in \<open>simp_all add: word_unat_eq_iff\<close>)
  then show "tbl_get (st_block L) h = Some b" using ex [OF y(1)] assms(4) y(1) by simp
qed

lemma cemented_inv_extends:
  assumes "ledger_inv C L" "blocks_inv L'" "extends L L'" "cemented_inv C L"
  shows "cemented_inv C L'"
proof -
  have up: "cementer_is_confirmed L d \<Longrightarrow> cementer_is_confirmed L' d" for d
    using assms(3) by (auto simp: is_confirmed_iff extends_def unconfirmed_def)
  show ?thesis
    using assms(4) confirmed_in_snapshot [OF assms(1-3)] up unfolding cemented_inv_def by blast
qed

lemma shrinks_confirmed:
  assumes "shrinks L L'"
  shows "cementer_is_confirmed L' h \<longleftrightarrow> cementer_is_confirmed L h"
proof -
  have "unconfirmed L' b \<longleftrightarrow> unconfirmed L b" for b
    using shrinksD(1) [OF assms] by (simp add: unconfirmed_def)
  then show ?thesis
    using shrinksD(2,3) [OF assms] unfolding is_confirmed_iff by blast
qed

lemma cemented_inv_shrinks:
  assumes "shrinks L L'" "cemented_inv C L"
  shows "cemented_inv C L'"
proof -
  have "unconfirmed L' b \<longleftrightarrow> unconfirmed L b" for b
    using shrinksD(1) [OF assms(1)] by (simp add: unconfirmed_def)
  then show ?thesis
    using assms(2) shrinksD(2) [OF assms(1)] shrinks_confirmed [OF assms(1)] unfolding cemented_inv_def by blast
qed

lemma all_move_cements: "cements L bs L' \<Longrightarrow> all_move C L' = all_move C L"
  by (simp add: cements_def all_move_def moves_def)

section \<open>Unconfirmed blocks can be rolled back\<close>

lemma head_above_unconfirmed:
  assumes inv: "ledger_inv C L" and hd: "is_head L H i" and "present L b" "saved_account b = saved_account H"
    and "unconfirmed L b"
  shows "unconfirmed L H"
proof -
  have "unat (saved_height b) \<le> unat (saved_height H)"
    using height_le_head [OF ledger_invD(1,3) [OF inv]] assms(3,4) hd head_facts(4) [OF inv hd]
    by (simp add: present_def is_head_def)
  then show ?thesis
    using assms(4,5) by (force simp: unconfirmed_def word_less_nat_alt)
qed

lemma awaits_unconfirmed:
  assumes inv: "ledger_inv C L" and cem: "cemented_inv C L" and aw: "awaits C L D H" and hd: "is_head L H i"
    and u: "unconfirmed L H"
  shows "unconfirmed L D"
proof -
  obtain rb j where rb: "tbl_get (st_block L) (saved_hash rb) = Some rb" "receives C rb = Some (saved_hash H)"
    "saved_account rb = saved_account D" "is_head L D j"
    using aw by (auto simp: awaits_def received_def)
  have "saved_hash H \<in> set (deps C rb)" using rb(2) by (simp add: deps_iff [OF inv rb(1)])
  moreover have "\<not> cementer_is_confirmed L (saved_hash H)"
    using u hd by (simp add: is_confirmed_iff is_head_def)
  ultimately have "unconfirmed L rb" using cem rb(1) unfolding cemented_inv_def by blast
  then show ?thesis
    using head_above_unconfirmed [OF inv rb(4)] rb(1,3) by (simp add: present_def)
qed

lemma core_stack_unconfirmed:
  assumes "core_stack C L rank s" "s = (T, H) # rest" "\<not> gone L T" "unconfirmed L (fst (last s))"
    and inv: "ledger_inv C L" and cem: "cemented_inv C L"
  shows "unconfirmed L H"
  using assms(1-4)
proof (induction arbitrary: T H rest rule: core_stack.induct)
  case (bottom T1 H1)
  then show ?case using head_above_unconfirmed [OF inv] by (auto simp: own_live_def)
next
  case (dep T1 H1 s1 D1)
  obtain i where i: "is_head L H1 i" using dep.hyps(2) by (auto simp: own_live_def)
  have "\<not> gone L T1" using dep.hyps(2) by (simp add: own_live_def present_def gone_def)
  then have "unconfirmed L H1" using dep.IH [OF refl] dep.prems by simp
  then show ?case using awaits_unconfirmed [OF inv cem _ i] dep.hyps(3) dep.prems by auto
qed

lemma target_stack_unconfirmed:
  assumes st: "target_stack C L rank ((T, H) # rest)" and "\<not> gone L T" "unconfirmed L (fst (last ((T, H) # rest)))"
    and inv: "ledger_inv C L" and cem: "cemented_inv C L"
  shows "unconfirmed L H"
  using st
proof (cases rule: target_stack.cases)
  case core
  then show ?thesis using core_stack_unconfirmed [OF core refl assms(2,3) inv cem] by simp
next
  case (request T1 s1)
  have "\<not> gone L T1" using request by (simp add: own_live_def present_def gone_def)
  then show ?thesis
    using core_stack_unconfirmed [OF request(2) refl _ _ inv cem] assms(3) request(1) by simp
qed

lemma removes_unconfirmed: "removes L bs L' \<Longrightarrow> unconfirmed L' b = unconfirmed L b"
  by (simp add: removes_def unconfirmed_def)

lemma roll_back_unconfirmed:
  assumes ok: "ledger_ok C L" and T0: "tbl_get (st_block L) h = Some T" and u: "unconfirmed L T"
  obtains bs L' where "roll_back_with_tx C now h L = Some (bs, None, L')" "tbl_get (st_block L') h = None"
proof -
  have inv: "ledger_inv C L" "all_move C L" "cemented_inv C L" using ok by (simp_all add: ledger_ok_def)
  have T: "saved_hash T = h" by (rule block_wfD(2) [OF blocks_invD [OF ledger_invD(1) [OF inv(1)] T0]])
  obtain rank e s where s: "roll_back_with_tx C now h L = Some (pf_rolled_back s, e, pf_ledger s)"
    "loop_inv C rank L T s" "case e of None \<Rightarrow> pf_targets s = []
     | Some x \<Rightarrow> x = BlockConfirmed \<and> (\<exists>T H rest. pf_targets s = (T, H) # rest \<and>
         \<not> gone (pf_ledger s) T \<and> \<not> unconfirmed (pf_ledger s) H)"
    by (rule roll_back_run [OF inv(1,2) T0])
  note I = loop_invD [OF s(2)]
  have cem: "cemented_inv C (pf_ledger s)"
    by (rule cemented_inv_shrinks [OF removes_shrinks [OF ledger_invD(1) [OF inv(1)] I(5)] inv(3)])
  have ne: "e = None"
  proof (rule ccontr)
    assume "e \<noteq> None"
    then obtain T1 H rest where st: "pf_targets s = (T1, H) # rest" "\<not> gone (pf_ledger s) T1"
      "\<not> unconfirmed (pf_ledger s) H" using s(3) by auto
    have "unconfirmed (pf_ledger s) (fst (last ((T1, H) # rest)))"
      using I(7) st(1) u removes_unconfirmed [OF I(5)] by simp
    then show False
      using target_stack_unconfirmed [OF I(4) [unfolded st(1)] st(2) _ I(1) cem] st(3) by blast
  qed
  show thesis
    by (rule that [of "pf_rolled_back s" "pf_ledger s"]) (use s ne I(6) T in \<open>simp_all add: gone_def\<close>)
qed

section \<open>The operations\<close>

inductive ledger_step :: "ledger_constants \<Rightarrow> verifier \<Rightarrow> ledger \<Rightarrow> ledger \<Rightarrow> bool" for C verify where
  process: "batch_ok C L batch \<Longrightarrow> \<forall>(b, now) \<in> set batch. \<not> zero_send L b \<Longrightarrow>
    process_batch verify C batch L = Some (ps, L') \<Longrightarrow> ledger_step C verify L L'"
| roll_back: "roll_back_batch C now targets m can L = Some (rs, L') \<Longrightarrow> ledger_step C verify L L'"
| competitors: "roll_back_competitors C now bs L = Some (rs, L') \<Longrightarrow> ledger_step C verify L L'"
| confirm: "0 < m \<Longrightarrow> confirm_batch C quiet (\<lambda>_. False) m roots L = Some (events, L') \<Longrightarrow> ledger_step C verify L L'"

text \<open>Confirmed blocks of the first ledger are confirmed in the second.\<close>

definition keeps_confirmed :: "ledger \<Rightarrow> ledger \<Rightarrow> bool" where
  "keeps_confirmed L L' \<longleftrightarrow>
     (\<forall>h. cementer_is_confirmed L h \<longrightarrow> cementer_is_confirmed L' h \<and> tbl_get (st_block L') h = tbl_get (st_block L) h)"

lemma keeps_confirmed_shrinks:
  assumes "shrinks L L'"
  shows "keeps_confirmed L L'"
  unfolding keeps_confirmed_def
proof (intro allI impI conjI)
  fix h assume c: "cementer_is_confirmed L h"
  then show "cementer_is_confirmed L' h" using shrinks_confirmed [OF assms] by blast
  obtain b where b: "tbl_get (st_block L) h = Some b" "\<not> unconfirmed L b"
    using c unfolding is_confirmed_iff by blast
  show "tbl_get (st_block L') h = tbl_get (st_block L) h" using shrinksD(3) [OF assms b] b(1) by simp
qed

lemma keeps_confirmed_cements:
  assumes "cements L bs L'"
  shows "keeps_confirmed L L'"
proof -
  have "st_block L' = st_block L" using assms by (simp add: cements_def)
  then show ?thesis using cements_confirmed [OF assms] by (simp add: keeps_confirmed_def)
qed

lemma ledger_step_ok:
  assumes "ledger_step C verify L L'" "ledger_ok C L"
  shows "ledger_ok C L' \<and> keeps_confirmed L L'"
  using assms
proof (cases rule: ledger_step.cases)
  case (process batch ps)
  have "ledger_inv C L'" "extends L L'" "all_move C L'"
    using process_batch_ok [of C L batch verify] assms(2) process by (auto simp: ledger_ok_def)
  then show ?thesis
    using assms(2) cemented_inv_extends [of C L L'] ledger_invD(1)
    by (auto simp: ledger_ok_def keeps_confirmed_def is_confirmed_iff extends_def unconfirmed_def)
next
  case (roll_back now targets m can rs)
  then have "ledger_inv C L'" "all_move C L'" "shrinks L L'"
    using roll_back_batch_loop_ok [of C L now m can targets 0] assms(2)
    by (auto simp: ledger_ok_def roll_back_batch_def)
  then show ?thesis
    using assms(2) cemented_inv_shrinks keeps_confirmed_shrinks by (auto simp: ledger_ok_def)
next
  case (competitors now bs rs)
  then have "ledger_inv C L'" "all_move C L'" "shrinks L L'"
    using roll_back_competitors_ok [of C L now bs] assms(2) by (auto simp: ledger_ok_def)
  then show ?thesis
    using assms(2) cemented_inv_shrinks keeps_confirmed_shrinks by (auto simp: ledger_ok_def)
next
  case (confirm m roots events)
  have "cement_ok C L" using assms(2) by (simp add: ledger_ok_def cement_ok_def)
  then obtain events' L1 where e: "confirm_batch C quiet (\<lambda>_. False) m roots L = Some (events', L1)"
    "cement_ok C L1" "cements L (concat (map event_blocks events')) L1"
    using confirm_batch_ok [OF _ confirm(1)] by blast
  moreover have "L1 = L'" using e(1) confirm(2) by simp
  ultimately show ?thesis
    using assms(2) all_move_cements [of L _ L1] keeps_confirmed_cements by (auto simp: ledger_ok_def cement_ok_def)
qed

lemma genesis_ledger_ok:
  assumes "genesis_ok C"
  shows "ledger_ok C (genesis_ledger C m)"
proof -
  note inv = genesis_ledger_inv [OF assms, of m]
  have one: "b = reload (lc_genesis_block C)" if "tbl_get (st_block (genesis_ledger C m)) h = Some b" for h b
    using that by (auto simp: genesis_ledger_def Let_def split: if_splits)
  obtain gb where gb: "tbl_get (st_block (genesis_ledger C m)) (saved_hash (lc_genesis_block C)) = Some gb"
    "saved_previous gb = 0" "\<forall>s. receives C gb \<noteq> Some s" "\<not> saved_is_send gb"
    using ledger_invD(10) [OF inv] by (auto simp: genesis_inv_def)
  have only: "b = gb" if "tbl_get (st_block (genesis_ledger C m)) h = Some b" for h b
    using one [OF that] one [OF gb(1)] by simp
  have "set (deps C gb) = {}" using deps_iff [OF inv gb(1)] gb(2,3) by (cases "receives C gb") auto
  then have "cemented_inv C (genesis_ledger C m)" using only by (auto simp: cemented_inv_def)
  moreover have "all_move C (genesis_ledger C m)"
    using only gb(3,4) by (auto simp: all_move_def moves_def)
  ultimately show ?thesis using inv by (simp add: ledger_ok_def)
qed

lemma reachable_ok:
  assumes "(ledger_step C verify)\<^sup>*\<^sup>* L L'" "ledger_ok C L"
  shows "ledger_ok C L' \<and> keeps_confirmed L L'"
  using assms
proof (induction rule: rtranclp_induct)
  case (step L1 L2)
  then have "keeps_confirmed L L1" "ledger_ok C L1" "keeps_confirmed L1 L2" "ledger_ok C L2"
    using ledger_step_ok by blast+
  then show ?case unfolding keeps_confirmed_def by metis
qed (simp add: keeps_confirmed_def)

section \<open>Weights\<close>

lemma delegated_le_total: "delegated (st_account L) r \<le> balance_total L"
  unfolding delegated_def balance_total_def by (rule sum_list_mono) auto

lemma weights_exact:
  assumes "ledger_inv C L"
  shows "unat (unwrap_or_zero (rep_weight_get L r)) = delegated (st_account L) r \<and>
    tbl_get (rwc_weights (lg_rep_weights L)) r =
      (if unwrap_or_zero (rep_weight_get L r) < lg_min_weight L \<or> delegated (st_account L) r = 0
       then None else rep_weight_get L r)"
proof -
  have w: "weights_ok L" "table_weight L r = of_nat (delegated (st_account L) r)"
    using ledger_invD(7) [OF assms] by (simp_all add: weights_inv_def tracks_def)
  have "delegated (st_account L) r < 2 ^ 128"
    using ledger_invD(6) [OF assms] delegated_le_total [of L r] by (simp add: supply_inv_def)
  then have u: "unat (table_weight L r) = delegated (st_account L) r"
    by (simp add: w(2) unat_of_nat)
  then have z: "table_weight L r = 0 \<longleftrightarrow> delegated (st_account L) r = 0"
    by (metis unat_eq_zero)
  have "tbl_get (rwc_weights (lg_rep_weights L)) r =
     (if table_weight L r < lg_min_weight L \<or> table_weight L r = 0 then None else Some (table_weight L r))"
    using w(1) by (simp add: weights_ok_def)
  then show ?thesis
    using u z unfolding table_weight_def by (cases "tbl_get (st_rep_weight L) r") auto
qed

section \<open>Representatives\<close>

lemma find_rep_block_at:
  assumes "rep_at (st_block L) h r" "blocks_inv L"
  shows "\<exists>b. find_rep_block L h = Some (saved_hash b) \<and> block_get L (saved_hash b) = Some b \<and>
    representative_field (svb_block b) = Some r"
  using assms
proof (induction "st_block L" h r rule: rep_at.induct)
  case (own h b r)
  note w = block_wfD(1,2) [OF blocks_invD [OF own(3,1)]]
  have "rep_step b = (0, saved_hash b)"
    using own(2) by (auto simp: rep_step_def split: block.splits)
  then have "find_rep_block L h = Some (saved_hash b)"
    using own(1) w by (subst find_rep_block.simps) simp
  then show ?case using own(1,2) w by auto
next
  case (prev h b r)
  have "rep_step b = (saved_previous b, 0)"
    using prev(2) by (auto simp: rep_step_def split: block.splits)
  then have "find_rep_block L h = find_rep_block L (saved_previous b)"
    using prev(1) by (subst find_rep_block.simps) simp
  then show ?case using prev by simp
qed
end
