(* ===== verification/Sample.thy ===== *)
theory Sample
  imports Lifecycle
begin

text \<open>
  A small concrete ledger: the genesis ledger of account 1, a state block that sends 100 raw to
  account 2, and the state block that opens account 2 with them. The witnesses of the
  properties evaluate the definitions on it.
\<close>

section \<open>Constants and blocks\<close>

definition sample_genesis :: open_block where
  "sample_genesis = \<lparr>ob_work = 0, ob_signature = 0,
     ob_hashables = \<lparr>oh_source = 5, oh_representative = 1, oh_account = 1\<rparr>, ob_hash = 10\<rparr>"

definition sample_constants :: ledger_constants where
  "sample_constants = \<lparr>
     lc_work = with_difficulty (\<lambda>_ _. - 1) 0 0 0,
     lc_genesis_block = saved_block_new (LegacyOpen sample_genesis) (genesis_sideband 1),
     lc_genesis_account = 1, lc_genesis_amount = amount_MAX, lc_burn_account = 0,
     lc_epochs = [(Epoch1, \<lparr>ei_signer = 1, ei_link = 1001\<rparr>), (Epoch2, \<lparr>ei_signer = 1, ei_link = 1002\<rparr>)]\<rparr>"

definition sample_verify :: verifier where
  "sample_verify = (\<lambda>_ _ _. True)"

definition sample_state :: "account \<Rightarrow> block_hash \<Rightarrow> amount \<Rightarrow> link \<Rightarrow> block_hash \<Rightarrow> block" where
  "sample_state a prev bal lnk h = State \<lparr>
     stb_hashables = \<lparr>sth_account = a, sth_previous = prev, sth_representative = a,
       sth_balance = bal, sth_link = lnk\<rparr>,
     stb_signature = 0, stb_hash = h, stb_work = 0\<rparr>"

definition sample_send :: block where
  "sample_send = sample_state 1 10 (amount_MAX - 100) 2 11"

definition sample_open :: block where
  "sample_open = sample_state 2 0 100 11 12"

definition sample_ledger :: ledger where
  "sample_ledger = genesis_ledger sample_constants 0"

lemmas sample_defs = sample_genesis_def sample_constants_def sample_verify_def sample_state_def
  sample_send_def sample_open_def

lemma sample_genesis_ok: "genesis_ok sample_constants"
  by (simp add: genesis_ok_def sample_defs saved_block_new_def)

lemma sample_ledger_ok: "ledger_ok sample_constants sample_ledger"
  unfolding sample_ledger_def by (rule genesis_ledger_ok [OF sample_genesis_ok])

section \<open>The send is accepted\<close>

lemma sample_pow: "is_valid_pow (with_difficulty (\<lambda>_ _. - 1) 0 0 0) b d"
  by (simp add: is_valid_pow_def threshold_def difficulty_block_def with_difficulty_def)

lemma sample_send_validator:
  "bv_block v = sample_send" "bv_epochs v = lc_epochs sample_constants" "bv_work v = lc_work sample_constants"
  "\<not> bv_block_exists v" "bv_account v = 1"
  "bv_previous_block v = Some (reload (lc_genesis_block sample_constants))"
  "bv_old_account_info v = Some \<lparr>ai_head = 10, ai_representative = 1, ai_open_block = 10,
     ai_balance = amount_MAX, ai_modified = 0, ai_block_count = 1, ai_epoch = Epoch0\<rparr>"
  "bv_pending_receive_info v = None" "\<not> bv_source_block_exists v" "bv_now v = now"
  if "v = create_validator sample_constants sample_ledger now sample_send"
  unfolding that
  by (simp_all add: create_validator_def sample_ledger_def genesis_ledger_def sample_defs Let_def
      factory_get_account_def factory_load_previous_block_def any_get_block_def any_get_account_def
      saved_block_new_def get_pending_def any_block_exists_def)

lemma sample_send_accepted:
  "validate sample_verify (create_validator sample_constants sample_ledger now sample_send) =
    Inr (create_instructions (create_validator sample_constants sample_ledger now sample_send))"
proof -
  define v where "v = create_validator sample_constants sample_ledger now sample_send"
  note f = sample_send_validator [OF v_def]
  have max: "amount_MAX - 100 < amount_MAX" "\<not> amount_MAX \<le> amount_MAX - 100" "amount_MAX - 100 \<noteq> amount_MAX"
    by (simp_all add: amount_MAX_def word_order.extremum_unique)
  have "first_error (validator_checks sample_verify v) = Inr ()"
    by (simp add: validator_checks_def check_defs is_send_def is_receive_def is_epoch_block_def
        has_epoch_link_def is_epoch_link_def account_exists_def is_new_account_def previous_balance_def
        sample_pow f sample_send_def sample_state_def sample_constants_def sample_genesis_def
        saved_block_new_def sample_verify_def max not_le)
  then show ?thesis by (simp add: validate_def v_def)
qed

definition sample_sent :: ledger where
  "sample_sent = snd (the (process_batch sample_verify sample_constants [(sample_send, 5)] sample_ledger))"

lemma sample_ledger_inv: "ledger_inv sample_constants sample_ledger"
  using sample_ledger_ok by (simp add: ledger_ok_def)

lemma sample_send_sound:
  "block_hash_of sample_send = 11" "\<not> mints sample_constants sample_ledger sample_send"
  "\<not> zero_send sample_ledger sample_send"
  by (simp_all add: sample_defs mints_def zero_send_def is_epoch_link_def)

lemma sample_batch_ok: "batch_ok sample_constants sample_ledger [(sample_send, 5)]"
  using sample_send_sound
  by (simp add: batch_ok_def sample_ledger_def genesis_ledger_def Let_def)

lemma sample_sent_eq:
  obtains ins where "process_batch sample_verify sample_constants [(sample_send, 5)] sample_ledger =
      Some ([(Inr (), Some (saved_block_new sample_send (bi_set_sideband ins)))], sample_sent)"
    "inserted sample_ledger sample_send ins sample_sent"
    "insertable sample_constants sample_ledger sample_send ins"
    "ins = create_instructions (create_validator sample_constants sample_ledger 5 sample_send)"
proof -
  note acc = sample_send_accepted [of 5]
  have h: "block_hash_of sample_send \<noteq> 0" by (simp add: sample_send_sound)
  note ok = validate_insertable [OF sample_ledger_inv acc h sample_send_sound(2)]
  show thesis
    by (rule process_batch_accepted [OF sample_ledger_inv acc h sample_send_sound(2)], rule that)
      (use ok in \<open>simp_all add: sample_sent_def\<close>)
qed

lemma sample_sent_step: "ledger_step sample_constants sample_verify sample_ledger sample_sent"
  by (rule sample_sent_eq) (auto intro!: ledger_step.process [OF sample_batch_ok] simp: sample_send_sound)

lemma sample_sent_ok: "ledger_ok sample_constants sample_sent"
  using ledger_step_ok [OF sample_sent_step sample_ledger_ok] by simp

lemma sample_sent_block:
  obtains b where "tbl_get (st_block sample_sent) 11 = Some b" "unconfirmed sample_sent b"
proof -
  obtain ins where ins: "inserted sample_ledger sample_send ins sample_sent"
    "insertable sample_constants sample_ledger sample_send ins"
    "ins = create_instructions (create_validator sample_constants sample_ledger 5 sample_send)"
    by (rule sample_sent_eq)
  show thesis
  proof (rule that)
    show "tbl_get (st_block sample_sent) 11 = Some (saved_of sample_send ins)"
      using insertedD(1) [OF ins(1)] sample_send_sound(1) by simp
    have "bi_account ins = 1" "ai_block_count (bi_set_account_info ins) = 2"
      using ins(3) sample_send_validator [OF refl, of 5]
      by (simp_all add: create_instructions_def new_account_info_def new_block_count_def)
    moreover have "tbl_get (st_confirmation_height sample_sent) 1 = Some \<lparr>ch_height = 1, ch_frontier = 10\<rparr>"
      using insertedD(5) [OF ins(1)]
      by (simp add: sample_ledger_def genesis_ledger_def Let_def sample_defs saved_block_new_def)
    ultimately show "unconfirmed sample_sent (saved_of sample_send ins)"
      using insertableD(4,5) [OF ins(2)] by (simp add: unconfirmed_def)
  qed
qed

lemma sample_genesis_confirmed: "cementer_is_confirmed sample_ledger 10"
  by (simp add: is_confirmed_iff sample_ledger_def genesis_ledger_def Let_def unconfirmed_def sample_defs
      saved_block_new_def saved_account_def saved_height_def genesis_sideband_def reload_def)

lemma sample_reached: "(ledger_step sample_constants sample_verify)\<^sup>*\<^sup>* sample_ledger sample_sent"
  by (rule r_into_rtranclp [where r = "ledger_step sample_constants sample_verify"], rule sample_sent_step)

lemmas sample_reachable = sample_reached [unfolded sample_ledger_def]

lemma sample_fields:
  "cache_block_count sample_ledger = 1" "block_previous sample_send = 10"
  by (simp_all add: sample_ledger_def genesis_ledger_def Let_def sample_send_def sample_state_def)

section \<open>An open block that creates money\<close>

text \<open>Only signatures of one key are valid.\<close>

definition sample_owner_verify :: "public_key \<Rightarrow> verifier" where
  "sample_owner_verify a = (\<lambda>key _ _. key = a)"

definition sample_mint :: block where
  "sample_mint = sample_state 2 0 100 1001 13"

lemma sample_mint_validator:
  "bv_block v = sample_mint" "bv_epochs v = lc_epochs sample_constants" "bv_work v = lc_work sample_constants"
  "\<not> bv_block_exists v" "bv_account v = 2"
  "bv_previous_block v = None"
  "bv_old_account_info v = None"
  "bv_pending_receive_info v = None" "\<not> bv_source_block_exists v" "bv_now v = now"
  if "v = create_validator sample_constants sample_ledger now sample_mint"
  unfolding that
  by (simp_all add: create_validator_def sample_ledger_def genesis_ledger_def sample_defs sample_mint_def Let_def
      factory_get_account_def factory_load_previous_block_def any_get_block_def any_get_account_def
      saved_block_new_def get_pending_def any_block_exists_def)

lemma sample_mint_accepted:
  "validate (sample_owner_verify 2) (create_validator sample_constants sample_ledger now sample_mint) =
    Inr (create_instructions (create_validator sample_constants sample_ledger now sample_mint))"
proof -
  define v where "v = create_validator sample_constants sample_ledger now sample_mint"
  note f = sample_mint_validator [OF v_def]
  have "first_error (validator_checks (sample_owner_verify 2) v) = Inr ()"
    by (simp add: validator_checks_def check_defs is_send_def is_receive_def is_epoch_block_def
        has_epoch_link_def is_epoch_link_def account_exists_def is_new_account_def previous_balance_def
        sample_pow f sample_mint_def sample_state_def sample_constants_def sample_genesis_def
        saved_block_new_def sample_owner_verify_def state_verify_signature_def not_le)
  then show ?thesis by (simp add: validate_def v_def)
qed

lemma sample_mint_processed:
  obtains sb L' where "process_one (sample_owner_verify 2) sample_constants now sample_mint sample_ledger = Some (Inr sb, L')"
    "st_account L' = tbl_put 2 (new_account_info (create_validator sample_constants sample_ledger now sample_mint))
       (st_account sample_ledger)" "st_pending L' = fmempty"
proof -
  define v where "v = create_validator sample_constants sample_ledger now sample_mint"
  note f = sample_mint_validator [OF v_def]
  have t: "tbl_get (st_account sample_ledger) 2 = None" "tbl_get (st_block sample_ledger) 13 = None"
    "st_pending sample_ledger = fmempty"
    by (simp_all add: sample_ledger_def genesis_ledger_def Let_def sample_constants_def saved_block_new_def sample_genesis_def)
  have w: "weights_ok L" if "st_rep_weight L = st_rep_weight sample_ledger"
    "lg_rep_weights L = lg_rep_weights sample_ledger" "lg_min_weight L = lg_min_weight sample_ledger" for L
    using ledger_invD(7) [OF sample_ledger_inv] that by (simp add: weights_inv_def tracks_def weights_ok_def table_weight_def)
  have i: "delete_received_pending_info v = None" "new_pending_info v = None" "is_open sample_mint = True"
     "block_hash_of sample_mint = 13" "block_previous sample_mint = 0" 
    by (simp_all add: f delete_received_pending_info_def new_pending_info_def is_send_def is_receive_def
      sample_mint_def sample_state_def has_epoch_link_def is_epoch_link_def sample_constants_def)
  have "\<exists>sb L'. insert_block sample_mint (create_instructions v) sample_ledger = Some (Some sb, L') \<and>
    st_account L' = tbl_put 2 (new_account_info v) (st_account sample_ledger) \<and> st_pending L' = fmempty"
    by (simp add: insert_block_def account_changed_since_validation_def get_current_account_info_def f i t block_put_def
       update_account_def delete_old_pending_info_def insert_new_pending_info_def update_representative_cache_def
       account_info_default_def tbl_put_new_def Let_def representation_add_eq w)
  then show thesis
    using that sample_mint_accepted [of now]
    by (auto simp: process_one_def process_batch_def validate_batch_def batch_outcome_def v_def)
qed

lemma sample_mint_total:
  "\<exists>sb L'. process_one (sample_owner_verify 2) sample_constants now sample_mint sample_ledger = Some (Inr sb, L') \<and>
    balance_total L' + pending_total L' = (2 ^ 128 - 1) + 100"
proof -
  obtain sb L' where L': "process_one (sample_owner_verify 2) sample_constants now sample_mint sample_ledger = Some (Inr sb, L')"
    "st_account L' = tbl_put 2 (new_account_info (create_validator sample_constants sample_ledger now sample_mint))
       (st_account sample_ledger)" "st_pending L' = fmempty"
    by (rule sample_mint_processed)
  define v where "v = create_validator sample_constants sample_ledger now sample_mint"
  note f = sample_mint_validator [OF v_def]
  have "ai_balance (new_account_info v) = 100"
    by (simp add: new_account_info_def new_balance_def f amount_received_def amount_sent_def old_balance_def previous_balance_def
       sample_mint_def sample_state_def amount_sub_def amount_add_def)
  moreover have "tbl_get (st_account sample_ledger) 2 = None" "balance_total sample_ledger = 2 ^ 128 - 1"
    by (simp_all add: sample_ledger_def genesis_ledger_def Let_def sample_constants_def balance_total_def unat_amount_MAX)
  ultimately have "balance_total L' = (2 ^ 128 - 1) + 100"
    unfolding balance_total_def L'(2) v_def by (simp add: lmdb.sum_put_new)
  moreover have "pending_total L' = 0" by (simp add: pending_total_def L'(3))
  ultimately show ?thesis using L'(1) by auto
qed

end
