(* ===== verification/Votes.thy ===== *)
theory Votes
  imports Blocks
begin

unbundle bit_operations_syntax

text \<open>
  Votes of \<^verbatim>\<open>types/src/vote.rs\<close> and \<^verbatim>\<open>types/src/vote_timestamp.rs\<close>:
  the time stamp that packs a duration into its four low bits and marks a final vote by all
  bits set, the vote with its signed hash, and its wire format. Signing and hashing are
  parameters (the crates \<^verbatim>\<open>ed25519-dalek\<close> and \<^verbatim>\<open>blake2\<close>).
\<close>

section \<open>Vote time stamps\<close>

type_synonym vote_timestamp = u64

definition vote_timestamp_FINAL :: vote_timestamp where
  "vote_timestamp_FINAL = - 1"

definition timestamp_MASK :: u64 where
  "timestamp_MASK = 0xFFFFFFFFFFFFFFF0"

text \<open>The assertions on the arguments are only compiled in debug builds.\<close>

definition vote_timestamp_new :: "unix_millis_timestamp \<Rightarrow> u8 \<Rightarrow> vote_timestamp" where
  "vote_timestamp_new timestamp duration = (timestamp AND timestamp_MASK) OR ucast duration"

definition vt_is_final :: "vote_timestamp \<Rightarrow> bool" where
  "vt_is_final t \<longleftrightarrow> t = vote_timestamp_FINAL"

definition vt_duration_bits :: "vote_timestamp \<Rightarrow> u8" where
  "vt_duration_bits t = ucast (t AND NOT timestamp_MASK)"

definition vt_unix_timestamp :: "vote_timestamp \<Rightarrow> unix_millis_timestamp" where
  "vt_unix_timestamp t = (if vt_is_final t then t else t AND timestamp_MASK)"

text \<open>In milliseconds; the shift amount is at most 19.\<close>

definition vt_duration :: "vote_timestamp \<Rightarrow> nat" where
  "vt_duration t = 2 ^ (unat (vt_duration_bits t) + 4)"

lemma take_bit_word_eq_self_small:
  fixes w :: "'a::len word"
  assumes "unat w < 2 ^ n"
  shows "take_bit n w = w"
  using assms by (simp add: word_unat_eq_iff unsigned_take_bit_eq take_bit_nat_eq_self)

lemma mask_low_bits: "t AND NOT timestamp_MASK = take_bit 4 (t :: u64)"
proof -
  have "NOT timestamp_MASK = mask 4" by (simp add: timestamp_MASK_def mask_eq_exp_minus_1)
  then show ?thesis by (simp add: take_bit_eq_mask)
qed

lemma unat_duration_bits: "unat (vt_duration_bits t) = unat t mod 16"
proof -
  have "unat (take_bit 4 t) = unat t mod 16"
    unfolding unsigned_take_bit_eq by (simp add: take_bit_eq_mod)
  moreover have "unat (ucast (take_bit 4 t) :: u8) = unat (take_bit 4 t)"
    using calculation by (simp add: unsigned_ucast_eq take_bit_nat_eq_self)
  ultimately show ?thesis by (simp add: vt_duration_bits_def mask_low_bits)
qed

lemma duration_bits_le: "vt_duration_bits t \<le> 15"
  by (simp add: word_le_nat_alt unat_duration_bits)

lemma duration_range: "16 \<le> vt_duration t \<and> vt_duration t \<le> 524288"
proof -
  have "unat (vt_duration_bits t) \<le> 15" using duration_bits_le [of t] by (simp add: word_le_nat_alt)
  then have "(2 :: nat) ^ (unat (vt_duration_bits t) + 4) \<le> 2 ^ 19" by (intro power_increasing) auto
  moreover have "(2 :: nat) ^ 4 \<le> 2 ^ (unat (vt_duration_bits t) + 4)" by (intro power_increasing) auto
  ultimately show ?thesis by (simp add: vt_duration_def)
qed

text \<open>Packing: both parts can be read back, unless they make up the mark of a final vote.\<close>

lemma low_bits_new:
  assumes "d \<le> 15"
  shows "vt_duration_bits (vote_timestamp_new t d) = d"
    "vote_timestamp_new t d AND timestamp_MASK = t AND timestamp_MASK"
proof -
  have d: "take_bit 4 d = d"
    using assms by (intro take_bit_word_eq_self_small) (simp add: word_le_nat_alt)
  have m: "bit timestamp_MASK i \<longleftrightarrow> 4 \<le> i \<and> i < 64" for i
  proof -
    have eq: "timestamp_MASK = NOT (mask 4)" by (simp add: timestamp_MASK_def mask_eq_exp_minus_1)
    show ?thesis unfolding eq bit_not_iff bit_mask_iff by auto
  qed
  have low: "bit d i \<Longrightarrow> i < 4" for i using d by (metis bit_take_bit_iff)
  show "vt_duration_bits (vote_timestamp_new t d) = d"
    unfolding vt_duration_bits_def vote_timestamp_new_def
    by (rule bit_word_eqI) (auto simp: bit_simps m dest: low)
  show "vote_timestamp_new t d AND timestamp_MASK = t AND timestamp_MASK"
    unfolding vote_timestamp_new_def
    by (rule bit_word_eqI) (auto simp: bit_simps m dest: low)
qed

section \<open>Votes\<close>

datatype vote_source = Live | Rebroadcast | Cache

datatype vote_error = VE_Invalid | VE_Replay | VE_Vote | VE_Late | VE_Indeterminate | VE_Ignored

record vote =
  vt_timestamp :: vote_timestamp
  vt_voter :: public_key
  vt_signature :: signature
  vt_hashes :: "block_hash list"

definition MAX_HASHES :: nat where
  "MAX_HASHES = 255"

definition vote_timestamp_of :: "vote \<Rightarrow> unix_millis_timestamp" where
  "vote_timestamp_of v = vt_unix_timestamp (vt_timestamp v)"

definition vote_is_final :: "vote \<Rightarrow> bool" where
  "vote_is_final v = vt_is_final (vt_timestamp v)"

text \<open>The text \<^verbatim>\<open>"vote "\<close> in bytes.\<close>

definition HASH_PREFIX :: bytes where
  "HASH_PREFIX = [118, 111, 116, 101, 32]"

definition vote_hash :: "endian \<Rightarrow> (bytes \<Rightarrow> block_hash) \<Rightarrow> vote \<Rightarrow> block_hash" where
  "vote_hash ne blake v =
     blake (HASH_PREFIX @ concat (map u256_serialize (vt_hashes v)) @ to_ne_bytes ne 8 (vt_timestamp v))"

text \<open>\<^verbatim>\<open>Vote::new\<close>; the assertion on the number of hashes is a panic.\<close>

definition vote_new :: "endian \<Rightarrow> (bytes \<Rightarrow> block_hash) \<Rightarrow> (block_hash \<Rightarrow> signature) \<Rightarrow> public_key \<Rightarrow>
    unix_millis_timestamp \<Rightarrow> u8 \<Rightarrow> block_hash list \<Rightarrow> vote option" where
  "vote_new ne blake sign key timestamp duration hashes =
     (if length hashes \<le> MAX_HASHES then
        let result = \<lparr>vt_timestamp = vote_timestamp_new timestamp duration, vt_voter = key,
          vt_signature = 0, vt_hashes = hashes\<rparr>
        in Some (result\<lparr>vt_signature := sign (vote_hash ne blake result)\<rparr>)
      else None)"

definition vote_new_final :: "endian \<Rightarrow> (bytes \<Rightarrow> block_hash) \<Rightarrow> (block_hash \<Rightarrow> signature) \<Rightarrow> public_key \<Rightarrow>
    block_hash list \<Rightarrow> vote option" where
  "vote_new_final ne blake sign key hashes =
     (if length hashes \<le> MAX_HASHES
      then vote_new ne blake sign key 0xFFFFFFFFFFFFFFF0 0x0F hashes else None)"

definition vote_validate :: "endian \<Rightarrow> (bytes \<Rightarrow> block_hash) \<Rightarrow> verifier \<Rightarrow> vote \<Rightarrow> bool" where
  "vote_validate ne blake verify v = verify (vt_voter v) (vote_hash ne blake v) (vt_signature v)"

definition vote_serialized_size :: "nat \<Rightarrow> nat" where
  "vote_serialized_size count = 32 + 64 + 8 + 32 * count"

definition vote_serialize :: "vote \<Rightarrow> bytes" where
  "vote_serialize v = u256_serialize (vt_voter v) @ signature_serialize (vt_signature v) @
     to_le_bytes 8 (vt_timestamp v) @ concat (map u256_serialize (vt_hashes v))"

fun read_hashes :: "nat \<Rightarrow> block_hash list reader" where
  "read_hashes 0 bs = Inr ([], bs)"
| "read_hashes (Suc n) bs =
     (if bs = [] then Inr ([], [])
      else read_bind u256_deserialize (\<lambda>h. read_bind (read_hashes n) (\<lambda>hs. read_return (h # hs))) bs)"

definition vote_deserialize :: "bytes \<Rightarrow> deserialization_error + vote" where
  "vote_deserialize bs =
     map_sum id fst (read_bind u256_deserialize (\<lambda>voter.
       read_bind signature_deserialize (\<lambda>signature.
       read_bind (read_exact 8) (\<lambda>buffer.
       read_bind (read_hashes MAX_HASHES) (\<lambda>hashes.
       read_return \<lparr>vt_timestamp = from_le_bytes buffer, vt_voter = voter,
         vt_signature = signature, vt_hashes = hashes\<rparr>)))) bs)"

section \<open>Round trip and signatures\<close>

lemma u256_serialize_ne [simp]: "u256_serialize h \<noteq> []"
  using u256_len [of h] by (metis list.size(3) zero_neq_numeral)

lemma read_hashes_enc:
  "length hs \<le> n \<Longrightarrow> read_hashes n (concat (map u256_serialize hs)) = Inr (hs, [])"
proof (induction n arbitrary: hs)
  case (Suc n)
  show ?case
  proof (cases hs)
    case (Cons h hs')
    then show ?thesis using Suc by simp
  qed simp
qed simp

lemma vote_dec_enc:
  assumes "length (vt_hashes v) \<le> MAX_HASHES"
  shows "vote_deserialize (vote_serialize v) = Inr v"
  using read_hashes_enc [OF assms] by (simp add: vote_deserialize_def vote_serialize_def)

lemma length_concat_hashes: "length (concat (map u256_serialize hs)) = 32 * length hs"
  by (induction hs) simp_all

lemma vote_serialize_length: "length (vote_serialize v) = vote_serialized_size (length (vt_hashes v))"
  by (simp add: vote_serialize_def vote_serialized_size_def length_concat_hashes)

text \<open>What is signed determines the hashes and the time stamp.\<close>

lemma concat_hashes_inj:
  "concat (map u256_serialize hs) = concat (map u256_serialize hs') \<Longrightarrow> hs = hs'"
proof (induction hs arbitrary: hs')
  case Nil
  then show ?case by (cases hs') auto
next
  case (Cons h hs)
  obtain h' ht where h': "hs' = h' # ht"
    using Cons.prems by (cases hs') auto
  have "h = h' \<and> concat (map u256_serialize hs) = concat (map u256_serialize ht)"
    by (rule u256.enc_prefix_free) (use Cons.prems h' in simp_all)
  then show ?case using Cons.IH h' by blast
qed

lemma vote_hash_input_inj:
  assumes "inj blake" "vote_hash ne blake v = vote_hash ne blake v'"
  shows "vt_hashes v = vt_hashes v' \<and> vt_timestamp v = vt_timestamp v'"
proof -
  have eq: "concat (map u256_serialize (vt_hashes v)) @ to_ne_bytes ne 8 (vt_timestamp v) =
      concat (map u256_serialize (vt_hashes v')) @ to_ne_bytes ne 8 (vt_timestamp v')"
    using assms by (simp add: vote_hash_def inj_eq)
  then have hs: "concat (map u256_serialize (vt_hashes v)) = concat (map u256_serialize (vt_hashes v'))"
    and ts: "to_ne_bytes ne 8 (vt_timestamp v) = to_ne_bytes ne 8 (vt_timestamp v')"
    by simp_all
  have "from_ne_bytes ne (to_ne_bytes ne 8 (vt_timestamp v)) = vt_timestamp v'"
    unfolding ts by (rule from_to_ne_bytes) simp
  then have "vt_timestamp v = vt_timestamp v'" by simp
  then show ?thesis using concat_hashes_inj [OF hs] by blast
qed

lemma vote_new_validates:
  assumes "vote_new ne blake sign key t d hs = Some v" "\<And>h. verify key h (sign h)"
  shows "vote_validate ne blake verify v"
  using assms by (auto simp: vote_new_def vote_validate_def vote_hash_def Let_def split: if_splits)

lemma vote_new_final_is_final:
  assumes "vote_new_final ne blake sign key hs = Some v"
  shows "vote_is_final v \<and> vote_timestamp_of v = - 1 \<and> vt_hashes v = hs \<and> vt_voter v = key"
proof -
  have "vote_timestamp_new 0xFFFFFFFFFFFFFFF0 0x0F = - 1"
    by (simp add: vote_timestamp_new_def timestamp_MASK_def)
  then show ?thesis
    using assms by (auto simp: vote_new_final_def vote_new_def Let_def vote_is_final_def vt_is_final_def
        vote_timestamp_FINAL_def vote_timestamp_of_def vt_unix_timestamp_def split: if_splits)
qed

lemma vote_new_not_final:
  assumes "vote_new ne blake sign key t d hs = Some v" "d \<le> 15" "t AND timestamp_MASK \<noteq> timestamp_MASK \<or> d < 15"
  shows "\<not> vote_is_final v \<and> vote_timestamp_of v = t AND timestamp_MASK"
proof -
  have v: "vt_timestamp v = vote_timestamp_new t d"
    using assms(1) by (auto simp: vote_new_def Let_def split: if_splits)
  have "vote_timestamp_new t d \<noteq> - 1"
  proof
    assume max: "vote_timestamp_new t d = - 1"
    then have "vt_duration_bits (vote_timestamp_new t d) = 15"
      by (simp add: vt_duration_bits_def timestamp_MASK_def)
    moreover have "t AND timestamp_MASK = timestamp_MASK"
      using low_bits_new(2) [OF assms(2), of t] max by simp
    ultimately show False using assms(3) low_bits_new(1) [OF assms(2), of t] by simp
  qed
  then show ?thesis
    using v low_bits_new(2) [OF assms(2), of t]
    by (simp add: vote_is_final_def vt_is_final_def vote_timestamp_FINAL_def vote_timestamp_of_def vt_unix_timestamp_def)
qed

end
