(* ===== verification/Hash_Maps.thy ===== *)
theory Hash_Maps
  imports Tables "HOL-Library.Multiset"
begin

text \<open>
  Iteration over a \<^verbatim>\<open>HashMap\<close>. The map is a finite map; the order in which an
  iterator visits it is not specified, so every operation that iterates takes the order as an
  argument: a function that permutes the list of keys. What is proved holds for every
  permutation.
\<close>

type_synonym 'k hash_order = "'k list \<Rightarrow> 'k list"

definition permutes :: "'k hash_order \<Rightarrow> bool" where
  "permutes ord \<longleftrightarrow> (\<forall>ks. mset (ord ks) = mset ks)"

definition hash_iter :: "'k::linorder hash_order \<Rightarrow> ('k, 'v) table \<Rightarrow> ('k \<times> 'v) list" where
  "hash_iter ord m = map (\<lambda>k. (k, the (tbl_get m k))) (ord (map fst (tbl_entries m)))"

abbreviation hash_values :: "'k::linorder hash_order \<Rightarrow> ('k, 'v) table \<Rightarrow> 'v list" where
  "hash_values ord m \<equiv> map snd (hash_iter ord m)"

lemma permutes_id [simp]: "permutes id" "permutes (\<lambda>ks. ks)" "permutes rev"
  by (simp_all add: permutes_def)

lemma mset_hash_iter:
  assumes "permutes ord"
  shows "mset (hash_iter ord m) = mset (tbl_entries m)"
proof -
  have "mset (hash_iter ord m) = image_mset (\<lambda>k. (k, the (tbl_get m k))) (mset (map fst (tbl_entries m)))"
    using assms by (simp add: hash_iter_def permutes_def)
  also have "\<dots> = mset (map (\<lambda>r. (fst r, the (tbl_get m (fst r)))) (tbl_entries m))"
    by (simp add: multiset.map_comp comp_def)
  also have "map (\<lambda>r. (fst r, the (tbl_get m (fst r)))) (tbl_entries m) = tbl_entries m"
    by (rule map_idI) (use lmdb.entries_get [of _ _ m] in force)
  finally show ?thesis .
qed

lemma set_hash_iter:
  "permutes ord \<Longrightarrow> set (hash_iter ord m) = {(k, v). tbl_get m k = Some v}"
  using mset_hash_iter [of ord m] lmdb.entries_get [of _ _ m] by (auto dest: mset_eq_setD)

lemma distinct_hash_iter:
  assumes "permutes ord"
  shows "distinct (map fst (hash_iter ord m))"
proof -
  have "mset (map fst (hash_iter ord m)) = mset (map fst (tbl_entries m))"
    using mset_hash_iter [OF assms, of m] by simp
  then show ?thesis
    using lmdb.entries_keys [of m] by (metis mset_eq_imp_distinct_iff)
qed

lemma length_hash_iter: "permutes ord \<Longrightarrow> length (hash_iter ord m) = length (tbl_entries m)"
  using mset_hash_iter [of ord m] by (metis size_mset)

text \<open>A sum over the values does not depend on the order.\<close>

lemma sum_hash_values:
  fixes f :: "'v \<Rightarrow> nat"
  assumes "permutes ord"
  shows "(\<Sum>v\<leftarrow>hash_values ord m. f v) = (\<Sum>k\<in>fmdom' m. f (the (tbl_get m k)))"
proof -
  have "(\<Sum>v\<leftarrow>hash_values ord m. f v) = (\<Sum>r\<leftarrow>hash_iter ord m. f (snd r))"
    by (simp add: comp_def)
  also have "\<dots> = (\<Sum>(k, v)\<leftarrow>tbl_entries m. f v)"
    by (simp add: sum_mset_sum_list [symmetric] mset_hash_iter [OF assms] case_prod_unfold)
  also have "\<dots> = (\<Sum>k\<in>dom (tbl_get m). f (the (tbl_get m k)))"
    by (rule lmdb.sum_entries [where f = "\<lambda>k v. f v"])
  also have "dom (tbl_get m) = fmdom' m" by (auto simp: fmdom'_alt_def fmlookup_dom_iff)
  finally show ?thesis .
qed

lemma card_fmdom_entries: "card (fmdom' m) = length (tbl_entries m)"
proof -
  have "fmdom' m = fst ` set (tbl_entries m)"
    using lmdb.entries_get [of _ _ m] by (force simp: fmlookup_dom'_iff)
  moreover have "distinct (map fst (tbl_entries m))" using lmdb.entries_keys by blast
  ultimately show ?thesis by (metis distinct_card length_map list.set_map)
qed

lemma set_hash_values:
  "permutes ord \<Longrightarrow> set (hash_values ord m) = {v. \<exists>k. tbl_get m k = Some v}"
  by (auto simp: set_hash_iter image_iff)

end
