(* ===== verification/Election.thy ===== *)
theory Election
  imports Votes Hash_Maps
begin

text \<open>
  One election: \<^verbatim>\<open>node/src/consensus/election\<close> (\<^verbatim>\<open>election.rs\<close>,
  \<^verbatim>\<open>block_tallies.rs\<close>, \<^verbatim>\<open>election_state.rs\<close>). Time stamps of the
  steady clock are integers (nanoseconds), durations natural numbers of nanoseconds. A panic
  is \<open>None\<close>; operations that iterate over a \<^verbatim>\<open>HashMap\<close> take the order of
  the iteration as an argument.
\<close>

section \<open>Time\<close>

type_synonym timestamp = int
type_synonym duration = nat

text \<open>
  \<^verbatim>\<open>Timestamp::elapsed\<close> casts the difference to \<^verbatim>\<open>u64\<close>: a time stamp in
  the future gives a huge duration.
\<close>

definition elapsed :: "timestamp \<Rightarrow> timestamp \<Rightarrow> duration" where
  "elapsed t now = nat ((now - t) mod 2 ^ 64)"

abbreviation from_secs :: "nat \<Rightarrow> duration" where
  "from_secs n \<equiv> n * 1000000000"

section \<open>States and data\<close>

datatype election_state = Passive | Active | Confirmed | ExpiredConfirmed | ExpiredUnconfirmed | Cancelled

definition state_is_confirmed :: "election_state \<Rightarrow> bool" where
  "state_is_confirmed s \<longleftrightarrow> s \<in> {Confirmed, ExpiredConfirmed}"

definition has_ended :: "election_state \<Rightarrow> bool" where
  "has_ended s \<longleftrightarrow> s \<in> {Confirmed, Cancelled, ExpiredConfirmed, ExpiredUnconfirmed}"

datatype election_behavior = Manual | Priority | Hinted | Optimistic

fun time_to_live :: "election_behavior \<Rightarrow> duration" where
  "time_to_live Manual = from_secs (60 * 5)"
| "time_to_live Priority = from_secs (60 * 5)"
| "time_to_live Hinted = from_secs 30"
| "time_to_live Optimistic = from_secs 30"

datatype vote_type = NonFinal | Final

datatype maybe_saved_block = Saved saved_block | Unsaved block

fun maybe_block :: "maybe_saved_block \<Rightarrow> block" where
  "maybe_block (Saved b) = svb_block b"
| "maybe_block (Unsaved b) = b"

abbreviation maybe_hash :: "maybe_saved_block \<Rightarrow> block_hash" where
  "maybe_hash b \<equiv> block_hash_of (maybe_block b)"

record vote_summary =
  vs_voter :: public_key
  vs_created :: unix_millis_timestamp
  vs_received :: timestamp
  vs_hash :: block_hash
  vs_weight :: amount

definition is_final_vote :: "vote_summary \<Rightarrow> bool" where
  "is_final_vote v \<longleftrightarrow> vs_created v = - 1"

definition ensure_no_replay :: "vote_summary \<Rightarrow> vote \<Rightarrow> block_hash \<Rightarrow> vote_error + unit" where
  "ensure_no_replay v new_vote h =
     (if vs_created v > vote_timestamp_of new_vote then Inl VE_Replay
      else if vs_created v = vote_timestamp_of new_vote \<and> vs_hash v \<ge> h then Inl VE_Replay
      else Inr ())"

definition has_switched_to_final_vote :: "vote_summary \<Rightarrow> vote \<Rightarrow> bool" where
  "has_switched_to_final_vote v new_vote \<longleftrightarrow>
     vote_is_final new_vote \<and> vs_created v < vote_timestamp_of new_vote"

section \<open>Tallies\<close>

definition MAX_BLOCKS :: nat where
  "MAX_BLOCKS = 10"

text \<open>The used part of the array.\<close>

type_synonym block_tallies = "(block_hash \<times> amount) list"

definition tallies_insert_unsorted :: "block_hash \<Rightarrow> amount \<Rightarrow> block_tallies \<Rightarrow> block_tallies option" where
  "tallies_insert_unsorted h tally ts = (if length ts = MAX_BLOCKS then None else Some (ts @ [(h, tally)]))"

text \<open>\<^verbatim>\<open>sort_by\<close> is stable; equal tallies stay in the order they were counted.\<close>

definition sort_by_descending_tally :: "block_tallies \<Rightarrow> block_tallies" where
  "sort_by_descending_tally ts = sort_key (\<lambda>r. - uint (snd r)) ts"

fun tallies_add :: "block_hash \<Rightarrow> amount \<Rightarrow> block_tallies \<Rightarrow> block_tallies" where
  "tallies_add h w [] = []"
| "tallies_add h w ((k, tally) # ts) =
     (if k = h then (k, amount_add tally w) # ts else (k, tally) # tallies_add h w ts)"

definition tallies_count :: "vote_summary \<Rightarrow> block_tallies \<Rightarrow> block_tallies option" where
  "tallies_count v ts =
     (if vs_hash v \<in> fst ` set ts then Some (tallies_add (vs_hash v) (vs_weight v) ts)
      else tallies_insert_unsorted (vs_hash v) (vs_weight v) ts)"

fun tallies_count_all :: "vote_summary list \<Rightarrow> block_tallies \<Rightarrow> block_tallies option" where
  "tallies_count_all [] ts = Some ts"
| "tallies_count_all (v # vs) ts = do { ts \<leftarrow> tallies_count v ts; tallies_count_all vs ts }"

definition tallies_calculate :: "vote_summary list \<Rightarrow> block_tallies option" where
  "tallies_calculate vs = map_option sort_by_descending_tally (tallies_count_all vs [])"

definition tallies_insert :: "block_hash \<Rightarrow> amount \<Rightarrow> block_tallies \<Rightarrow> block_tallies option" where
  "tallies_insert h tally ts = map_option sort_by_descending_tally (tallies_insert_unsorted h tally ts)"

definition tallies_get :: "block_tallies \<Rightarrow> block_hash \<Rightarrow> amount" where
  "tallies_get ts h = unwrap_or_zero (map_of ts h)"

definition tallies_contains :: "block_tallies \<Rightarrow> block_hash \<Rightarrow> bool" where
  "tallies_contains ts h \<longleftrightarrow> h \<in> fst ` set ts"

definition tallies_sum :: "block_tallies \<Rightarrow> amount" where
  "tallies_sum ts = fold (\<lambda>r total. amount_add total (snd r)) ts 0"

fun tallies_remove :: "block_hash \<Rightarrow> block_tallies \<Rightarrow> block_tallies" where
  "tallies_remove h [] = []"
| "tallies_remove h ((k, tally) # ts) = (if k = h then ts else (k, tally) # tallies_remove h ts)"

fun check_quorum :: "amount \<Rightarrow> block_tallies \<Rightarrow> bool" where
  "check_quorum quorum_delta [] = (amount_sub 0 0 \<ge> quorum_delta)"
| "check_quorum quorum_delta [(_, first)] = (amount_sub first 0 \<ge> quorum_delta)"
| "check_quorum quorum_delta ((_, first) # (_, second) # _) = (amount_sub first second \<ge> quorum_delta)"

section \<open>The election\<close>

record election =
  el_root :: qualified_root
  el_winner :: maybe_saved_block
  el_state :: election_state
  el_candidates :: "(block_hash, maybe_saved_block) table"
  el_votes :: "(public_key, vote_summary) table"
  el_winner_tally :: amount
  el_winner_final_tally :: amount
  el_tallies :: block_tallies
  el_final_tallies :: block_tallies
  el_behavior :: election_behavior
  el_has_quorum :: bool
  el_start :: timestamp
  el_base_latency :: duration
  el_account :: account
  el_last_final_vote :: "timestamp option"
  el_last_non_final_vote :: "timestamp option"
  el_last_voted_winner :: block_hash

definition election_new :: "saved_block \<Rightarrow> election_behavior \<Rightarrow> duration \<Rightarrow> timestamp \<Rightarrow> election" where
  "election_new b behavior base_latency now = \<lparr>
     el_root = qualified_root_of (svb_block b), el_winner = Saved b, el_state = Passive,
     el_candidates = tbl_put (saved_hash b) (Saved b) fmempty, el_votes = fmempty,
     el_winner_tally = 0, el_winner_final_tally = 0, el_tallies = [], el_final_tallies = [],
     el_behavior = behavior, el_has_quorum = False, el_start = now, el_base_latency = base_latency,
     el_account = saved_account b, el_last_final_vote = None, el_last_non_final_vote = None,
     el_last_voted_winner = 0\<rparr>"

definition block_count :: "election \<Rightarrow> nat" where
  "block_count e = length (tbl_entries (el_candidates e))"

definition el_is_confirmed :: "election \<Rightarrow> bool" where
  "el_is_confirmed e = state_is_confirmed (el_state e)"

definition el_is_final :: "election \<Rightarrow> bool" where
  "el_is_final e \<longleftrightarrow> el_is_confirmed e \<or> el_has_quorum e"

definition el_vote_type :: "election \<Rightarrow> vote_type" where
  "el_vote_type e = (if el_is_final e then Final else NonFinal)"

definition remove_block :: "block_hash \<Rightarrow> election \<Rightarrow> maybe_saved_block option \<times> election" where
  "remove_block h e =
     (if maybe_hash (el_winner e) \<noteq> h then
        (case tbl_get (el_candidates e) h of
           Some existing \<Rightarrow>
             (Some existing, e\<lparr>el_candidates := fmdrop h (el_candidates e),
                el_votes := fmfilter (\<lambda>k. vs_hash (the (tbl_get (el_votes e) k)) \<noteq> h) (el_votes e),
                el_tallies := tallies_remove h (el_tallies e),
                el_final_tallies := tallies_remove h (el_final_tallies e)\<rparr>)
         | None \<Rightarrow> (None, e))
      else (None, e))"

text \<open>
  The block to remove for a fork with the given tally, \<open>0\<close> if there is none. The two
  \<^verbatim>\<open>unwrap\<close> are panics on short tallies.
\<close>

definition untallied_block :: "block_hash hash_order \<Rightarrow> election \<Rightarrow> block_hash" where
  "untallied_block ord e =
     (if length (el_tallies e) < MAX_BLOCKS then
        (case find (\<lambda>r. \<not> tallies_contains (el_tallies e) (fst r) \<and> fst r \<noteq> maybe_hash (el_winner e))
            (hash_iter ord (el_candidates e)) of
           Some r \<Rightarrow> fst r
         | None \<Rightarrow> 0)
      else 0)"

definition lowest_block :: "amount \<Rightarrow> election \<Rightarrow> block_hash option" where
  "lowest_block min_tally e =
     (case rev (el_tallies e) of
        [] \<Rightarrow> None
      | (lowest_hash, lowest_tally) # rest \<Rightarrow>
          if min_tally > lowest_tally then
            if lowest_hash \<noteq> maybe_hash (el_winner e) then Some lowest_hash
            else (case rest of
                [] \<Rightarrow> None
              | (second_hash, second_tally) # _ \<Rightarrow> Some (if min_tally > second_tally then second_hash else 0))
          else Some 0)"

definition remove_tally_below ::
    "block_hash hash_order \<Rightarrow> amount \<Rightarrow> election \<Rightarrow> (maybe_saved_block option \<times> election) option" where
  "remove_tally_below ord min_tally e =
     (if min_tally = 0 then Some (None, e)
      else do {
        let block_to_remove = untallied_block ord e;
        block_to_remove \<leftarrow> (if block_to_remove = 0 then lowest_block min_tally e else Some block_to_remove);
        Some (if block_to_remove \<noteq> 0 then remove_block block_to_remove e else (None, e))
      })"

datatype add_fork_result = Added | Replaced maybe_saved_block | TallyTooLow | Duplicate | ElectionEnded

definition insert_candidate :: "block \<Rightarrow> amount \<Rightarrow> election \<Rightarrow> election option" where
  "insert_candidate fork fork_tally e = do {
     ts \<leftarrow> tallies_insert (block_hash_of fork) fork_tally (el_tallies e);
     Some (e\<lparr>el_tallies := ts, el_candidates := tbl_put (block_hash_of fork) (Unsaved fork) (el_candidates e)\<rparr>)
   }"

definition el_try_add_fork ::
    "block_hash hash_order \<Rightarrow> block \<Rightarrow> amount \<Rightarrow> election \<Rightarrow> (add_fork_result \<times> election) option" where
  "el_try_add_fork ord fork fork_tally e =
     (if has_ended (el_state e) then Some (ElectionEnded, e)
      else if tbl_get (el_candidates e) (block_hash_of fork) \<noteq> None then Some (Duplicate, e)
      else if block_count e \<ge> MAX_BLOCKS then do {
        (removed, e) \<leftarrow> remove_tally_below ord fork_tally e;
        (case removed of
           None \<Rightarrow> Some (TallyTooLow, e)
         | Some r \<Rightarrow> map_option (\<lambda>e. (Replaced r, e)) (insert_candidate fork fork_tally e))
      }
      else map_option (\<lambda>e. (Added, e)) (insert_candidate fork fork_tally e))"

definition el_add_vote :: "public_key \<Rightarrow> block_hash \<Rightarrow> unix_millis_timestamp \<Rightarrow> timestamp \<Rightarrow> election \<Rightarrow> election" where
  "el_add_vote voter h created received e = e\<lparr>el_votes := tbl_put voter
     \<lparr>vs_voter = voter, vs_created = created, vs_received = received, vs_hash = h, vs_weight = 0\<rparr> (el_votes e)\<rparr>"

definition voted :: "vote_type \<Rightarrow> timestamp \<Rightarrow> election \<Rightarrow> election" where
  "voted t now e =
     (let e = (case t of NonFinal \<Rightarrow> e\<lparr>el_last_non_final_vote := Some now\<rparr>
        | Final \<Rightarrow> e\<lparr>el_last_final_vote := Some now\<rparr>)
      in e\<lparr>el_last_voted_winner := maybe_hash (el_winner e)\<rparr>)"

definition can_vote :: "duration \<Rightarrow> timestamp \<Rightarrow> election \<Rightarrow> bool" where
  "can_vote broadcast_interval now e =
     (if el_last_voted_winner e \<noteq> maybe_hash (el_winner e) then True
      else (case (case el_vote_type e of NonFinal \<Rightarrow> el_last_non_final_vote e | Final \<Rightarrow> el_last_final_vote e) of
          Some last_vote \<Rightarrow> now \<ge> last_vote + int broadcast_interval
        | None \<Rightarrow> True))"

definition el_transition_time :: "timestamp \<Rightarrow> election \<Rightarrow> election" where
  "el_transition_time now e =
     (let duration = elapsed (el_start e) now;
          s = (case el_state e of
             Passive \<Rightarrow> if el_base_latency e * 5 < duration then Active else Passive
           | Confirmed \<Rightarrow> ExpiredConfirmed
           | s \<Rightarrow> s)
      in e\<lparr>el_state := (if \<not> has_ended s \<and> time_to_live (el_behavior e) < duration
           then ExpiredUnconfirmed else s)\<rparr>)"

definition el_cancel :: "election \<Rightarrow> election" where
  "el_cancel e = (if \<not> has_ended (el_state e) then e\<lparr>el_state := Cancelled\<rparr> else e)"

definition el_transition_active :: "election \<Rightarrow> election" where
  "el_transition_active e = (if el_state e = Passive then e\<lparr>el_state := Active\<rparr> else e)"

definition maybe_upgrade_to :: "election_behavior \<Rightarrow> election \<Rightarrow> bool \<times> election" where
  "maybe_upgrade_to new_behavior e =
     (if new_behavior \<noteq> Priority then (False, e)
      else if el_behavior e \<in> {Priority, Manual} then (False, e)
      else (True, e\<lparr>el_behavior := Priority\<rparr>))"

definition el_force_confirm :: "election \<Rightarrow> bool \<times> election" where
  "el_force_confirm e =
     (if \<not> has_ended (el_state e) then (True, e\<lparr>el_state := Confirmed\<rparr>) else (False, e))"

definition update_vote_weights :: "(public_key, amount) table \<Rightarrow> election \<Rightarrow> election" where
  "update_vote_weights rep_weights e = e\<lparr>el_votes :=
     fmmap (\<lambda>v. v\<lparr>vs_weight := unwrap_or_zero (tbl_get rep_weights (vs_voter v))\<rparr>) (el_votes e)\<rparr>"

definition recalculate_tallies :: "public_key hash_order \<Rightarrow> election \<Rightarrow> election option" where
  "recalculate_tallies ord e = do {
     ts \<leftarrow> tallies_calculate (hash_values ord (el_votes e));
     fts \<leftarrow> tallies_calculate (filter is_final_vote (hash_values ord (el_votes e)));
     Some (e\<lparr>el_tallies := ts, el_final_tallies := fts\<rparr>)
   }"

definition check_new_winner :: "amount \<Rightarrow> election \<Rightarrow> block_hash option" where
  "check_new_winner quorum_delta e =
     (if tallies_sum (el_tallies e) < quorum_delta then None
      else
        let old_winner = maybe_hash (el_winner e);
            new_winner = (case el_tallies e of (h, _) # _ \<Rightarrow> h | [] \<Rightarrow> old_winner)
        in if new_winner \<noteq> old_winner then Some new_winner else None)"

definition change_winner_to :: "block_hash \<Rightarrow> election \<Rightarrow> election option" where
  "change_winner_to h e = map_option (\<lambda>b. e\<lparr>el_winner := b\<rparr>) (tbl_get (el_candidates e) h)"

definition update_winner_tally :: "election \<Rightarrow> election" where
  "update_winner_tally e = e\<lparr>
     el_winner_tally := tallies_get (el_tallies e) (maybe_hash (el_winner e)),
     el_winner_final_tally := tallies_get (el_final_tallies e) (maybe_hash (el_winner e))\<rparr>"

definition try_set_quorum :: "amount \<Rightarrow> election \<Rightarrow> election" where
  "try_set_quorum quorum_delta e =
     (if check_quorum quorum_delta (el_tallies e) then e\<lparr>el_has_quorum := True\<rparr> else e)"

definition try_confirm :: "amount \<Rightarrow> election \<Rightarrow> election" where
  "try_confirm quorum_delta e =
     (if el_winner_final_tally e \<ge> quorum_delta then e\<lparr>el_state := Confirmed\<rparr> else e)"

definition update_tallies ::
    "public_key hash_order \<Rightarrow> (public_key, amount) table \<Rightarrow> amount \<Rightarrow> election \<Rightarrow> election option" where
  "update_tallies ord rep_weights quorum_delta e =
     (if has_ended (el_state e) then Some e
      else do {
        let e = update_vote_weights rep_weights e;
        e \<leftarrow> recalculate_tallies ord e;
        e \<leftarrow> (case check_new_winner quorum_delta e of
            Some new_winner \<Rightarrow> change_winner_to new_winner e
          | None \<Rightarrow> Some e);
        let e = update_winner_tally e;
        let e = try_set_quorum quorum_delta e;
        Some (try_confirm quorum_delta e)
      })"

definition el_remove_vote :: "public_key \<Rightarrow> election \<Rightarrow> election" where
  "el_remove_vote voter e = e\<lparr>el_votes := fmdrop voter (el_votes e)\<rparr>"

section \<open>Confirmed elections\<close>

datatype confirmation_type = ActiveConfirmedQuorum | ActiveConfirmationHeight | InactiveConfirmationHeight

text \<open>The wall clock time of the end is not modelled.\<close>

record confirmed_election =
  ce_winner :: maybe_saved_block
  ce_tally :: amount
  ce_final_tally :: amount
  ce_block_count :: nat
  ce_voter_count :: nat
  ce_election_duration :: duration
  ce_confirmation_type :: confirmation_type
  ce_votes :: "(public_key, vote_summary) table"

definition confirmed_election_new :: "saved_block \<Rightarrow> confirmation_type \<Rightarrow> confirmed_election" where
  "confirmed_election_new b t = \<lparr>ce_winner = Saved b, ce_tally = 0, ce_final_tally = 0, ce_block_count = 1,
     ce_voter_count = 0, ce_election_duration = 0, ce_confirmation_type = t, ce_votes = fmempty\<rparr>"

definition into_confirmed_election :: "timestamp \<Rightarrow> confirmation_type \<Rightarrow> election \<Rightarrow> confirmed_election" where
  "into_confirmed_election now t e = \<lparr>ce_winner = el_winner e, ce_tally = el_winner_tally e,
     ce_final_tally = el_winner_final_tally e, ce_block_count = block_count e,
     ce_voter_count = length (tbl_entries (el_votes e)), ce_election_duration = elapsed (el_start e) now,
     ce_confirmation_type = t, ce_votes = el_votes e\<rparr>"

end
