(* ===== verification/Election_Inv.thy ===== *)
theory Election_Inv
  imports Election
begin

text \<open>
  Correctness of one election. The tallies are the exact weights of the votes for every
  order in which they are counted; every operation keeps the invariant and none panics, in
  particular the fixed array of tallies never overflows; the state only moves forward; a
  confirmed election has a winner with final votes of at least the quorum.
\<close>

section \<open>Tallies\<close>

definition weight_for :: "vote_summary list \<Rightarrow> block_hash \<Rightarrow> nat" where
  "weight_for vs h = (\<Sum>v\<leftarrow>filter (\<lambda>v. vs_hash v = h) vs. unat (vs_weight v))"

definition tallies_ok :: "block_hash set \<Rightarrow> block_tallies \<Rightarrow> bool" where
  "tallies_ok H ts \<longleftrightarrow> distinct (map fst ts) \<and> fst ` set ts \<subseteq> H \<and> sorted (map (\<lambda>r. - uint (snd r)) ts)"

lemma tallies_okD:
  assumes "tallies_ok H ts"
  shows "distinct (map fst ts)" "fst ` set ts \<subseteq> H" "sorted (map (\<lambda>r. - uint (snd r)) ts)"
  using assms by (simp_all add: tallies_ok_def)

lemma tallies_ok_mono: "tallies_ok H ts \<Longrightarrow> H \<subseteq> H' \<Longrightarrow> tallies_ok H' ts"
  by (auto simp: tallies_ok_def)

lemma tallies_ok_Nil [simp]: "tallies_ok H []"
  by (simp add: tallies_ok_def)

lemma tallies_add_keys [simp]: "map fst (tallies_add h w ts) = map fst ts"
  by (induction h w ts rule: tallies_add.induct) auto

lemma tallies_add_keys_set [simp]: "fst ` set (tallies_add h w ts) = fst ` set ts"
  using tallies_add_keys [of h w ts] by (metis list.set_map)

lemma tallies_add_get:
  "h \<in> fst ` set ts \<Longrightarrow> tallies_get (tallies_add h w ts) k = tallies_get ts k + (if k = h then w else 0)"
proof (induction h w ts rule: tallies_add.induct)
  case (2 h w k' t ts)
  then show ?case by (cases "k' = h") (auto simp: tallies_get_def amount_add_def)
qed simp

lemma tallies_get_missing: "h \<notin> fst ` set ts \<Longrightarrow> tallies_get ts h = 0"
  using map_of_eq_None_iff [of ts h] by (simp add: tallies_get_def)

lemma tallies_get_append:
  "k \<notin> fst ` set ts \<Longrightarrow> tallies_get (ts @ [(k, w)]) h = tallies_get ts h + (if h = k then w else 0)"
  by (auto simp: tallies_get_def map_add_def split: option.splits)
    (metis domI dom_map_of_conv_image_fst)

lemma tallies_count_ok:
  assumes "distinct (map fst ts)" "card (insert (vs_hash v) (fst ` set ts)) \<le> MAX_BLOCKS"
  shows "\<exists>ts'. tallies_count v ts = Some ts' \<and> distinct (map fst ts') \<and>
    fst ` set ts' = insert (vs_hash v) (fst ` set ts) \<and>
    (\<forall>h. tallies_get ts' h = tallies_get ts h + (if h = vs_hash v then vs_weight v else 0))"
proof (cases "vs_hash v \<in> fst ` set ts")
  case True
  then show ?thesis using assms(1) by (auto simp: tallies_count_def tallies_add_get insert_absorb)
next
  case False
  have "card (insert (vs_hash v) (fst ` set ts)) = Suc (length ts)"
    using False assms(1) by (metis List.finite_set card_insert_disjoint distinct_card length_map list.set_map)
  then have "length ts \<noteq> MAX_BLOCKS" using assms(2) by simp
  then show ?thesis
    using False assms(1) by (auto simp: tallies_count_def tallies_insert_unsorted_def tallies_get_append)
qed

lemma tallies_count_all_ok:
  "distinct (map fst ts) \<Longrightarrow> card (fst ` set ts \<union> vs_hash ` set vs) \<le> MAX_BLOCKS \<Longrightarrow>
   \<exists>ts'. tallies_count_all vs ts = Some ts' \<and> distinct (map fst ts') \<and>
     fst ` set ts' = fst ` set ts \<union> vs_hash ` set vs \<and>
     (\<forall>h. tallies_get ts' h = tallies_get ts h + of_nat (weight_for vs h))"
proof (induction vs arbitrary: ts)
  case (Cons v vs)
  have "card (insert (vs_hash v) (fst ` set ts)) \<le> card (fst ` set ts \<union> vs_hash ` set (v # vs))"
    by (rule card_mono) auto
  then obtain ts1 where ts1: "tallies_count v ts = Some ts1" "distinct (map fst ts1)"
    "fst ` set ts1 = insert (vs_hash v) (fst ` set ts)"
    "\<forall>h. tallies_get ts1 h = tallies_get ts h + (if h = vs_hash v then vs_weight v else 0)"
    using tallies_count_ok [OF Cons.prems(1), of v] Cons.prems(2) by auto
  have "fst ` set ts1 \<union> vs_hash ` set vs = fst ` set ts \<union> vs_hash ` set (v # vs)"
    using ts1(3) by auto
  then obtain ts' where "tallies_count_all vs ts1 = Some ts'" "distinct (map fst ts')"
    "fst ` set ts' = fst ` set ts \<union> vs_hash ` set (v # vs)"
    "\<forall>h. tallies_get ts' h = tallies_get ts1 h + of_nat (weight_for vs h)"
    using Cons.IH [OF ts1(2)] Cons.prems(2) by metis
  then show ?case using ts1(1,4) by (auto simp: weight_for_def)
qed (simp add: weight_for_def)

lemma map_of_perm:
  assumes "mset xs = mset ys" "distinct (map fst ys)"
  shows "map_of xs = map_of ys"
proof -
  have "distinct (map fst xs)"
    using assms by (metis mset_eq_imp_distinct_iff mset_map)
  moreover have "set xs = set ys" using assms(1) by (rule mset_eq_setD)
  ultimately show ?thesis using assms(2) by (simp add: map_of_inject_set)
qed

lemma mset_sort [simp]: "mset (sort_by_descending_tally ts) = mset ts"
  by (simp add: sort_by_descending_tally_def)

lemma set_sort [simp]: "set (sort_by_descending_tally ts) = set ts"
  by (simp add: sort_by_descending_tally_def)

lemma tallies_sorted:
  assumes "distinct (map fst ts)" "fst ` set ts \<subseteq> H"
  shows "tallies_ok H (sort_by_descending_tally ts)"
    "tallies_get (sort_by_descending_tally ts) h = tallies_get ts h"
proof -
  have "distinct (map fst (sort_by_descending_tally ts))"
    using assms(1) mset_eq_imp_distinct_iff [of "map fst (sort_by_descending_tally ts)" "map fst ts"] by simp
  moreover have "sorted (map (\<lambda>r. - uint (snd r)) (sort_by_descending_tally ts))"
    unfolding sort_by_descending_tally_def by (rule sorted_sort_key)
  ultimately show "tallies_ok H (sort_by_descending_tally ts)"
    using assms(2) by (simp add: tallies_ok_def)
  show "tallies_get (sort_by_descending_tally ts) h = tallies_get ts h"
    using map_of_perm [OF mset_sort assms(1)] by (simp add: tallies_get_def)
qed

lemma tallies_calculate_ok:
  assumes "vs_hash ` set vs \<subseteq> H" "finite H" "card H \<le> MAX_BLOCKS"
  shows "\<exists>ts. tallies_calculate vs = Some ts \<and> tallies_ok H ts \<and> fst ` set ts = vs_hash ` set vs \<and>
    (\<forall>h. tallies_get ts h = of_nat (weight_for vs h))"
proof -
  have "card (vs_hash ` set vs) \<le> MAX_BLOCKS" using card_mono [OF assms(2,1)] assms(3) by simp
  then obtain ts where ts: "tallies_count_all vs [] = Some ts" "distinct (map fst ts)"
    "fst ` set ts = vs_hash ` set vs" "\<forall>h. tallies_get ts h = of_nat (weight_for vs h)"
    using tallies_count_all_ok [of "[]" vs] by (auto simp: tallies_get_def)
  then show ?thesis
    using tallies_sorted [OF ts(2)] assms(1) by (auto simp: tallies_calculate_def)
qed

text \<open>The sum of the tallies is the sum of the weights.\<close>

lemma tallies_sum_list: "tallies_sum ts = sum_list (map snd ts)"
proof -
  have "fold (\<lambda>r total. amount_add total (snd r)) ts a = a + sum_list (map snd ts)" for a
    by (induction ts arbitrary: a) (simp_all add: amount_add_def algebra_simps)
  then show ?thesis by (simp add: tallies_sum_def)
qed

lemma tallies_sum_Nil [simp]: "tallies_sum [] = 0"
  by (simp add: tallies_sum_def)

lemma tallies_sum_sort [simp]: "tallies_sum (sort_by_descending_tally ts) = tallies_sum ts"
  unfolding tallies_sum_list sum_mset_sum_list [symmetric] by simp

lemma tallies_add_sum: "h \<in> fst ` set ts \<Longrightarrow> sum_list (map snd (tallies_add h w ts)) = sum_list (map snd ts) + w"
proof (induction h w ts rule: tallies_add.induct)
  case (2 h w k t ts)
  then show ?case by (cases "k = h") (auto simp: amount_add_def algebra_simps)
qed simp

lemma tallies_count_sum:
  "tallies_count v ts = Some ts' \<Longrightarrow> tallies_sum ts' = tallies_sum ts + vs_weight v"
  using tallies_add_sum [of "vs_hash v" ts "vs_weight v"]
  by (cases "vs_hash v \<in> fst ` set ts")
    (auto simp: tallies_count_def tallies_insert_unsorted_def tallies_sum_list split: if_splits)

lemma tallies_calculate_sum:
  assumes "tallies_calculate vs = Some ts"
  shows "tallies_sum ts = of_nat (\<Sum>v\<leftarrow>vs. unat (vs_weight v))"
proof -
  have "tallies_count_all vs ts0 = Some ts1 \<Longrightarrow> tallies_sum ts1 = tallies_sum ts0 + of_nat (\<Sum>v\<leftarrow>vs. unat (vs_weight v))" for ts0 ts1
    by (induction vs arbitrary: ts0) (auto simp: tallies_count_sum algebra_simps split: Option.bind_splits)
  then show ?thesis using assms by (auto simp: tallies_calculate_def)
qed

text \<open>Weights below the supply are counted without wrap-around.\<close>

lemma weight_for_bound: "weight_for vs h \<le> (\<Sum>v\<leftarrow>vs. unat (vs_weight v))"
  unfolding weight_for_def by (induction vs) auto

lemma tallies_get_exact:
  assumes "tallies_get ts h = of_nat (weight_for vs h)" "(\<Sum>v\<leftarrow>vs. unat (vs_weight v)) < 2 ^ 128"
  shows "unat (tallies_get ts h) = weight_for vs h"
  using assms weight_for_bound [of vs h] by (simp add: unat_of_nat)

lemma tallies_remove_keys: "distinct (map fst ts) \<Longrightarrow> fst ` set (tallies_remove h ts) = fst ` set ts - {h}"
  by (induction h ts rule: tallies_remove.induct) auto

lemma tallies_remove_set: "set (tallies_remove h ts) \<subseteq> set ts"
  by (induction h ts rule: tallies_remove.induct) auto

lemma tallies_remove_ok:
  assumes "tallies_ok H ts"
  shows "tallies_ok (H - {h}) (tallies_remove h ts)"
proof -
  have "distinct (map fst ts) \<Longrightarrow> distinct (map fst (tallies_remove h ts))"
    by (induction h ts rule: tallies_remove.induct) (use tallies_remove_set in force)+
  moreover have "sorted (map (\<lambda>r. - uint (snd r)) ts) \<Longrightarrow> sorted (map (\<lambda>r. - uint (snd r)) (tallies_remove h ts))"
    by (induction h ts rule: tallies_remove.induct) (use tallies_remove_set in force)+
  ultimately show ?thesis using assms tallies_remove_keys [of ts h] by (auto simp: tallies_ok_def)
qed

lemma tallies_length:
  assumes "tallies_ok H ts" "finite H"
  shows "length ts \<le> card H"
proof -
  have "length ts = card (fst ` set ts)"
    using tallies_okD(1) [OF assms(1)] by (metis distinct_card length_map list.set_map)
  then show ?thesis using card_mono [OF assms(2) tallies_okD(2) [OF assms(1)]] by simp
qed

lemma tallies_insert_ok:
  assumes "tallies_ok H ts" "h \<notin> H" "finite H" "card H < MAX_BLOCKS"
  shows "\<exists>ts'. tallies_insert h w ts = Some ts' \<and> tallies_ok (insert h H) ts'"
proof -
  have len: "length ts \<noteq> MAX_BLOCKS" using tallies_length [OF assms(1,3)] assms(4) by simp
  have "distinct (map fst (ts @ [(h, w)]))" "fst ` set (ts @ [(h, w)]) \<subseteq> insert h H"
    using tallies_okD [OF assms(1)] assms(2) by auto
  from tallies_sorted(1) [OF this] show ?thesis
    using len by (simp add: tallies_insert_def tallies_insert_unsorted_def)
qed

text \<open>The first entry has the largest tally, so the difference of the first two does not wrap.\<close>

lemma tallies_first:
  assumes "tallies_ok H ((h, w) # ts)"
  shows "tallies_get ((h, w) # ts) k \<le> w" "\<And>r. r \<in> set ts \<Longrightarrow> snd r \<le> w"
proof -
  show le: "snd r \<le> w" if "r \<in> set ts" for r
    using tallies_okD(3) [OF assms] that by (auto simp: word_le_def)
  show "tallies_get ((h, w) # ts) k \<le> w"
  proof (cases "map_of ts k")
    case (Some v)
    then show ?thesis using le [of "(k, v)"] by (auto simp: tallies_get_def dest: map_of_SomeD)
  qed (auto simp: tallies_get_def)
qed

section \<open>The invariant\<close>

abbreviation candidate_hashes :: "election \<Rightarrow> block_hash set" where
  "candidate_hashes e \<equiv> fmdom' (el_candidates e)"

text \<open>
  All candidates compete for the root of the election, the winner is one of them, there are
  at most ten, votes are for candidates, and so are the tallies.
\<close>

definition election_inv :: "election \<Rightarrow> bool" where
  "election_inv e \<longleftrightarrow>
     (\<forall>h b. tbl_get (el_candidates e) h = Some b \<longrightarrow>
        maybe_hash b = h \<and> h \<noteq> 0 \<and> qualified_root_of (maybe_block b) = el_root e) \<and>
     tbl_get (el_candidates e) (maybe_hash (el_winner e)) = Some (el_winner e) \<and>
     card (candidate_hashes e) \<le> MAX_BLOCKS \<and>
     (\<forall>k v. tbl_get (el_votes e) k = Some v \<longrightarrow> vs_voter v = k \<and> vs_hash v \<in> candidate_hashes e) \<and>
     tallies_ok (candidate_hashes e) (el_tallies e) \<and> tallies_ok (candidate_hashes e) (el_final_tallies e)"

lemma election_invD:
  assumes "election_inv e"
  shows "tbl_get (el_candidates e) h = Some b \<Longrightarrow> maybe_hash b = h"
    "tbl_get (el_candidates e) h = Some b \<Longrightarrow> h \<noteq> 0"
    "tbl_get (el_candidates e) h = Some b \<Longrightarrow> qualified_root_of (maybe_block b) = el_root e"
    "tbl_get (el_candidates e) (maybe_hash (el_winner e)) = Some (el_winner e)"
    "card (candidate_hashes e) \<le> MAX_BLOCKS"
    "tbl_get (el_votes e) k = Some v \<Longrightarrow> vs_voter v = k"
    "tbl_get (el_votes e) k = Some v \<Longrightarrow> vs_hash v \<in> candidate_hashes e"
    "tallies_ok (candidate_hashes e) (el_tallies e)" "tallies_ok (candidate_hashes e) (el_final_tallies e)"
  using assms unfolding election_inv_def by blast+

lemma election_invI:
  assumes "\<And>h b. tbl_get (el_candidates e) h = Some b \<Longrightarrow>
      maybe_hash b = h \<and> h \<noteq> 0 \<and> qualified_root_of (maybe_block b) = el_root e"
    "tbl_get (el_candidates e) (maybe_hash (el_winner e)) = Some (el_winner e)"
    "card (candidate_hashes e) \<le> MAX_BLOCKS"
    "\<And>k v. tbl_get (el_votes e) k = Some v \<Longrightarrow> vs_voter v = k \<and> vs_hash v \<in> candidate_hashes e"
    "tallies_ok (candidate_hashes e) (el_tallies e)" "tallies_ok (candidate_hashes e) (el_final_tallies e)"
  shows "election_inv e"
  unfolding election_inv_def using assms by blast

text \<open>Operations that touch neither candidates nor votes nor tallies keep it.\<close>

lemma election_inv_cong:
  assumes "election_inv e" "el_candidates e' = el_candidates e" "el_root e' = el_root e" "el_winner e' = el_winner e"
    "el_votes e' = el_votes e" "el_tallies e' = el_tallies e" "el_final_tallies e' = el_final_tallies e"
  shows "election_inv e'"
  using assms by (simp add: election_inv_def)

lemma fmdom'_put [simp]: "fmdom' (tbl_put k v m) = insert k (fmdom' m)"
  by (auto simp: fmlookup_dom'_iff)

lemma fmdom'_drop [simp]: "fmdom' (fmdrop k m) = fmdom' m - {k}"
  by (auto simp: fmlookup_dom'_iff)

lemma block_count_eq: "block_count e = card (candidate_hashes e)"
  by (simp add: block_count_def card_fmdom_entries)

lemma election_new_inv:
  "saved_hash b \<noteq> 0 \<Longrightarrow> election_inv (election_new b behavior latency now)"
  by (auto simp: election_inv_def election_new_def MAX_BLOCKS_def)

lemma el_add_vote_inv:
  assumes "election_inv e" "h \<in> candidate_hashes e"
  shows "election_inv (el_add_vote voter h created received e)"
  using assms by (auto simp: election_inv_def el_add_vote_def)

lemma el_remove_vote_inv: "election_inv e \<Longrightarrow> election_inv (el_remove_vote voter e)"
  by (auto simp: election_inv_def el_remove_vote_def)

lemma election_inv_simple_ops:
  assumes "election_inv e"
  shows "election_inv (voted t now e)" "election_inv (el_transition_time now e)" "election_inv (el_cancel e)"
    "election_inv (el_transition_active e)" "election_inv (snd (maybe_upgrade_to nb e))"
    "election_inv (snd (el_force_confirm e))"
proof -
  show "election_inv (voted t now e)"
    by (rule election_inv_cong [OF assms]) (cases t; simp add: voted_def)+
qed (rule election_inv_cong [OF assms];
    simp add: el_transition_time_def el_cancel_def el_transition_active_def maybe_upgrade_to_def el_force_confirm_def
      Let_def)+

section \<open>Forks\<close>

lemma remove_block_inv:
  assumes inv: "election_inv e" and r: "remove_block h e = (Some b, e')"
  shows "election_inv e'" "candidate_hashes e' = candidate_hashes e - {h}" "h \<in> candidate_hashes e"
    "el_root e' = el_root e" "el_winner e' = el_winner e" "el_state e' = el_state e" "maybe_hash b = h"
    "el_behavior e' = el_behavior e"
proof -
  have h: "maybe_hash (el_winner e) \<noteq> h" "tbl_get (el_candidates e) h = Some b"
    and e': "e' = e\<lparr>el_candidates := fmdrop h (el_candidates e),
        el_votes := fmfilter (\<lambda>k. vs_hash (the (tbl_get (el_votes e) k)) \<noteq> h) (el_votes e),
        el_tallies := tallies_remove h (el_tallies e),
        el_final_tallies := tallies_remove h (el_final_tallies e)\<rparr>"
    using r by (auto simp: remove_block_def split: if_splits option.splits)
  show "candidate_hashes e' = candidate_hashes e - {h}" using e' by simp
  show "h \<in> candidate_hashes e" using h(2) by (simp add: fmlookup_dom'_iff)
  show "maybe_hash b = h" using election_invD(1) [OF inv h(2)] .
  note I = election_invD [OF inv]
  have card: "card (candidate_hashes e') \<le> MAX_BLOCKS"
    using I(5) card_Diff1_le [of "candidate_hashes e" h] e' by simp
  have votes: "vs_voter v = k \<and> vs_hash v \<in> candidate_hashes e'" if "tbl_get (el_votes e') k = Some v" for k v
    using that I(6,7) [of k v] e' by (auto split: if_splits)
  have cand: "maybe_hash x = k \<and> k \<noteq> 0 \<and> qualified_root_of (maybe_block x) = el_root e'"
    if "tbl_get (el_candidates e') k = Some x" for k x
    using that I(1-3) [of k x] e' by (auto split: if_splits)
  have tallies: "tallies_ok (candidate_hashes e') (el_tallies e')" "tallies_ok (candidate_hashes e') (el_final_tallies e')"
    using tallies_remove_ok [OF I(8), of h] tallies_remove_ok [OF I(9), of h] e' by simp_all
  have win: "tbl_get (el_candidates e') (maybe_hash (el_winner e')) = Some (el_winner e')" using I(4) h(1) e' by simp
  show "election_inv e'" by (rule election_invI [OF cand win card votes tallies])
qed (use r in \<open>auto simp: remove_block_def split: if_splits option.splits\<close>)

text \<open>With ten candidates there is always a tally to look at, and a second one below the winner.\<close>

lemma lowest_block_total:
  assumes inv: "election_inv e" and full: "card (candidate_hashes e) = MAX_BLOCKS" and ord: "permutes ord"
    and none: "untallied_block ord e = 0"
  shows "\<exists>h. lowest_block m e = Some h"
proof -
  have "candidate_hashes e - {maybe_hash (el_winner e)} \<subseteq> fst ` set (el_tallies e)" if "length (el_tallies e) < MAX_BLOCKS"
  proof
    fix h assume h: "h \<in> candidate_hashes e - {maybe_hash (el_winner e)}"
    then obtain b where b: "tbl_get (el_candidates e) h = Some b" by (auto simp: fmlookup_dom'_iff)
    show "h \<in> fst ` set (el_tallies e)"
    proof (rule ccontr)
      assume nt: "h \<notin> fst ` set (el_tallies e)"
      have "(h, b) \<in> set (hash_iter ord (el_candidates e))" using b by (simp add: set_hash_iter [OF ord])
      then obtain r where r: "find (\<lambda>r. \<not> tallies_contains (el_tallies e) (fst r) \<and> fst r \<noteq> maybe_hash (el_winner e))
          (hash_iter ord (el_candidates e)) = Some r"
        using nt h by (cases "find (\<lambda>r. \<not> tallies_contains (el_tallies e) (fst r) \<and> fst r \<noteq> maybe_hash (el_winner e))
          (hash_iter ord (el_candidates e))") (auto simp: find_None_iff tallies_contains_def)
      then have "r \<in> set (hash_iter ord (el_candidates e))" by (auto simp: find_Some_iff)
      then have "fst r \<noteq> 0" using election_invD(2) [OF inv] by (auto simp: set_hash_iter [OF ord])
      then show False using none r that by (simp add: untallied_block_def)
    qed
  qed
  then have "9 \<le> card (fst ` set (el_tallies e))" if "length (el_tallies e) < MAX_BLOCKS"
    using card_mono [of "fst ` set (el_tallies e)" "candidate_hashes e - {maybe_hash (el_winner e)}"] that full
      election_invD(4) [OF inv]
    by (auto simp: MAX_BLOCKS_def fmlookup_dom'_iff)
  then have "9 \<le> length (el_tallies e)"
    using card_image_le [of "set (el_tallies e)" fst] card_length [of "el_tallies e"]
    by (cases "length (el_tallies e) < MAX_BLOCKS") (auto simp: MAX_BLOCKS_def)
  then obtain r1 r2 rest where "rev (el_tallies e) = r1 # r2 # rest"
    by (cases "rev (el_tallies e)"; cases "tl (rev (el_tallies e))") (auto dest: arg_cong [where f = length])
  then show ?thesis by (auto simp: lowest_block_def split: prod.splits)
qed

lemma remove_tally_below_ok:
  assumes inv: "election_inv e" and full: "card (candidate_hashes e) = MAX_BLOCKS" and ord: "permutes ord"
  obtains b e' where "remove_tally_below ord m e = Some (Some b, e')" "remove_block (maybe_hash b) e = (Some b, e')"
  | "remove_tally_below ord m e = Some (None, e)"
proof (cases "m = 0")
  case False
  obtain x where x: "(if untallied_block ord e = 0 then lowest_block m e else Some (untallied_block ord e)) = Some x"
    using lowest_block_total [OF inv full ord] by fastforce
  then have r: "remove_tally_below ord m e = Some (if x \<noteq> 0 then remove_block x e else (None, e))"
    using False by (simp add: remove_tally_below_def)
  show thesis
  proof (cases "x \<noteq> 0 \<and> fst (remove_block x e) \<noteq> None")
    case True
    then obtain b e' where be: "remove_block x e = (Some b, e')" by (cases "remove_block x e") auto
    moreover have "maybe_hash b = x" by (rule remove_block_inv(7) [OF inv be])
    ultimately show thesis using that(1) [of b e'] r True by simp
  next
    case False
    then show thesis using that(2) r by (auto simp: remove_block_def split: if_splits option.splits)
  qed
qed (use that(2) in \<open>simp add: remove_tally_below_def\<close>)

lemma insert_candidate_ok:
  assumes inv: "election_inv e" and new: "block_hash_of fork \<notin> candidate_hashes e" "block_hash_of fork \<noteq> 0"
    "qualified_root_of fork = el_root e" and room: "card (candidate_hashes e) < MAX_BLOCKS"
  shows "\<exists>e'. insert_candidate fork tally e = Some e' \<and> election_inv e' \<and> el_winner e' = el_winner e \<and>
    el_state e' = el_state e \<and> el_root e' = el_root e \<and> el_behavior e' = el_behavior e \<and>
    candidate_hashes e' = insert (block_hash_of fork) (candidate_hashes e)"
proof -
  note I = election_invD [OF inv]
  obtain ts where ts: "tallies_insert (block_hash_of fork) tally (el_tallies e) = Some ts"
    "tallies_ok (insert (block_hash_of fork) (candidate_hashes e)) ts"
    using tallies_insert_ok [OF I(8) new(1) _ room] by auto
  let ?e = "e\<lparr>el_tallies := ts, el_candidates := tbl_put (block_hash_of fork) (Unsaved fork) (el_candidates e)\<rparr>"
  have "election_inv ?e"
  proof (rule election_invI)
    show "maybe_hash b = h \<and> h \<noteq> 0 \<and> qualified_root_of (maybe_block b) = el_root ?e"
      if "tbl_get (el_candidates ?e) h = Some b" for h b
      using that I(1-3) [of h b] new(2,3) by (auto split: if_splits)
    show "tbl_get (el_candidates ?e) (maybe_hash (el_winner ?e)) = Some (el_winner ?e)"
      using I(4) new(1) by (auto simp: fmlookup_dom'_iff)
    show "card (candidate_hashes ?e) \<le> MAX_BLOCKS" using room new(1) by simp
    show "vs_voter v = k \<and> vs_hash v \<in> candidate_hashes ?e" if "tbl_get (el_votes ?e) k = Some v" for k v
      using that I(6,7) [of k v] by simp
    show "tallies_ok (candidate_hashes ?e) (el_tallies ?e)" "tallies_ok (candidate_hashes ?e) (el_final_tallies ?e)"
      using ts(2) tallies_ok_mono [OF I(9)] by (simp_all add: subset_insertI)
  qed
  then show ?thesis using ts(1) by (simp add: insert_candidate_def)
qed

lemma el_try_add_fork_ok:
  assumes inv: "election_inv e" and ord: "permutes ord"
    and fork: "block_hash_of fork \<noteq> 0" "qualified_root_of fork = el_root e"
  shows "\<exists>r e'. el_try_add_fork ord fork tally e = Some (r, e') \<and> election_inv e' \<and> el_winner e' = el_winner e \<and>
    el_state e' = el_state e \<and> el_root e' = el_root e \<and> el_behavior e' = el_behavior e \<and>
    candidate_hashes e' = (case r of
        Added \<Rightarrow> insert (block_hash_of fork) (candidate_hashes e)
      | Replaced b \<Rightarrow> insert (block_hash_of fork) (candidate_hashes e - {maybe_hash b})
      | _ \<Rightarrow> candidate_hashes e) \<and>
    (\<forall>b. r = Replaced b \<longrightarrow> maybe_hash b \<in> candidate_hashes e \<and> maybe_hash b \<noteq> block_hash_of fork)"
proof -
  have new: "tbl_get (el_candidates e) (block_hash_of fork) = None \<Longrightarrow> block_hash_of fork \<notin> candidate_hashes e"
    by (simp add: fmlookup_dom'_iff)
  consider "has_ended (el_state e)" | "\<not> has_ended (el_state e)" "tbl_get (el_candidates e) (block_hash_of fork) \<noteq> None"
    | (full) "\<not> has_ended (el_state e)" "tbl_get (el_candidates e) (block_hash_of fork) = None" "block_count e \<ge> MAX_BLOCKS"
    | (room) "\<not> has_ended (el_state e)" "tbl_get (el_candidates e) (block_hash_of fork) = None" "block_count e < MAX_BLOCKS"
    by linarith
  then show ?thesis
  proof cases
    case full
    have card: "card (candidate_hashes e) = MAX_BLOCKS"
      using full(3) election_invD(5) [OF inv] by (simp add: block_count_eq)
    show ?thesis
    proof (rule remove_tally_below_ok [OF inv card ord, of tally])
      fix b e1 assume r: "remove_tally_below ord tally e = Some (Some b, e1)" "remove_block (maybe_hash b) e = (Some b, e1)"
      note R = remove_block_inv [OF inv r(2)]
      have "block_hash_of fork \<notin> candidate_hashes e1" "card (candidate_hashes e1) < MAX_BLOCKS"
        using R(2,3) new [OF full(2)] card card_Diff1_less [of "candidate_hashes e" "maybe_hash b"] by auto
      then obtain e2 where "insert_candidate fork tally e1 = Some e2" "election_inv e2" "el_winner e2 = el_winner e1"
        "el_state e2 = el_state e1" "el_root e2 = el_root e1" "el_behavior e2 = el_behavior e1"
        "candidate_hashes e2 = insert (block_hash_of fork) (candidate_hashes e1)"
        using insert_candidate_ok [OF R(1) _ fork(1)] fork(2) R(4) by metis
      then show ?thesis
        using full r(1) R(2-6,8) new [OF full(2)] by (auto simp: el_try_add_fork_def)
    qed (use full inv in \<open>simp add: el_try_add_fork_def\<close>)
  next
    case room
    then show ?thesis
      using insert_candidate_ok [OF inv new [OF room(2)] fork, of tally] by (auto simp: el_try_add_fork_def block_count_eq)
  qed (use inv in \<open>simp_all add: el_try_add_fork_def\<close>)
qed

section \<open>Counting votes\<close>

text \<open>The weight behind a block, of all votes and of the final votes.\<close>

definition weight_of_votes ::
    "(public_key, amount) table \<Rightarrow> (vote_summary \<Rightarrow> bool) \<Rightarrow> (public_key, vote_summary) table \<Rightarrow> nat" where
  "weight_of_votes ws P votes = (\<Sum>k\<in>fmdom' votes.
     if P (the (tbl_get votes k)) then unat (unwrap_or_zero (tbl_get ws k)) else 0)"

abbreviation voted_weight :: "(public_key, amount) table \<Rightarrow> (vote_summary \<Rightarrow> bool) \<Rightarrow> election \<Rightarrow> nat" where
  "voted_weight ws P e \<equiv> weight_of_votes ws P (el_votes e)"

abbreviation vote_weight :: "(public_key, amount) table \<Rightarrow> election \<Rightarrow> block_hash \<Rightarrow> nat" where
  "vote_weight ws e h \<equiv> voted_weight ws (\<lambda>v. vs_hash v = h) e"

abbreviation final_weight :: "(public_key, amount) table \<Rightarrow> election \<Rightarrow> block_hash \<Rightarrow> nat" where
  "final_weight ws e h \<equiv> voted_weight ws (\<lambda>v. vs_hash v = h \<and> is_final_vote v) e"

lemma sum_filter_list:
  "(\<Sum>x\<leftarrow>filter P xs. f x) = (\<Sum>x\<leftarrow>xs. if P x then f x else (0 :: nat))"
  by (induction xs) auto

lemma voted_weight_list:
  assumes inv: "election_inv e" and ord: "permutes ord"
    and P: "\<And>v w. P (v\<lparr>vs_weight := w\<rparr>) = P v"
  shows "(\<Sum>v\<leftarrow>filter P (hash_values ord (el_votes (update_vote_weights ws e))). unat (vs_weight v)) = voted_weight ws P e"
proof -
  let ?f = "\<lambda>v. v\<lparr>vs_weight := unwrap_or_zero (tbl_get ws (vs_voter v))\<rparr>"
  have dom: "fmdom' (fmmap ?f (el_votes e)) = fmdom' (el_votes e)" by (auto simp: fmlookup_dom'_iff)
  have "(\<Sum>v\<leftarrow>filter P (hash_values ord (fmmap ?f (el_votes e))). unat (vs_weight v)) =
      (\<Sum>k\<in>fmdom' (el_votes e). if P (the (tbl_get (fmmap ?f (el_votes e)) k))
         then unat (vs_weight (the (tbl_get (fmmap ?f (el_votes e)) k))) else 0)"
    unfolding sum_filter_list sum_hash_values [OF ord] dom ..
  also have "\<dots> = voted_weight ws P e"
    unfolding weight_of_votes_def
  proof (rule sum.cong [OF refl])
    fix k assume "k \<in> fmdom' (el_votes e)"
    then obtain v where "tbl_get (el_votes e) k = Some v" by (auto simp: fmlookup_dom'_iff)
    then show "(if P (the (tbl_get (fmmap ?f (el_votes e)) k))
         then unat (vs_weight (the (tbl_get (fmmap ?f (el_votes e)) k))) else 0) =
       (if P (the (tbl_get (el_votes e) k)) then unat (unwrap_or_zero (tbl_get ws k)) else 0)"
      using election_invD(6) [OF inv] P by simp
  qed
  finally show ?thesis by (simp add: update_vote_weights_def)
qed

lemma weight_of_updated_votes:
  assumes "\<And>v w. P (v\<lparr>vs_weight := w\<rparr>) = P v"
  shows "weight_of_votes ws P (el_votes (update_vote_weights ws' e)) = voted_weight ws P e"
proof -
  let ?f = "\<lambda>v. v\<lparr>vs_weight := unwrap_or_zero (tbl_get ws' (vs_voter v))\<rparr>"
  have "fmdom' (fmmap ?f (el_votes e)) = fmdom' (el_votes e)" by (auto simp: fmlookup_dom'_iff)
  then show ?thesis
    unfolding weight_of_votes_def update_vote_weights_def by (auto intro!: sum.cong simp: assms fmlookup_dom'_iff)
qed

lemma recalculated_votes:
  assumes inv: "election_inv e" and ord: "permutes ord" and v: "v \<in> set (hash_values ord (el_votes (update_vote_weights ws e)))"
  shows "vs_hash v \<in> candidate_hashes e"
proof -
  obtain k x where "tbl_get (el_votes e) k = Some x" "vs_hash v = vs_hash x"
    using v by (auto simp: set_hash_iter [OF ord] update_vote_weights_def)
  then show ?thesis using election_invD(7) [OF inv] by auto
qed

lemma recalculate_ok:
  assumes inv: "election_inv e" and ord: "permutes ord"
  obtains ts fts where "recalculate_tallies ord (update_vote_weights ws e) =
      Some ((update_vote_weights ws e)\<lparr>el_tallies := ts, el_final_tallies := fts\<rparr>)"
    "tallies_ok (candidate_hashes e) ts" "tallies_ok (candidate_hashes e) fts"
    "\<forall>h. tallies_get ts h = of_nat (vote_weight ws e h)" "\<forall>h. tallies_get fts h = of_nat (final_weight ws e h)"
    "tallies_sum ts = of_nat (voted_weight ws (\<lambda>_. True) e)"
proof -
  let ?vs = "hash_values ord (el_votes (update_vote_weights ws e))"
  have h: "vs_hash ` set ?vs \<subseteq> candidate_hashes e" "vs_hash ` set (filter is_final_vote ?vs) \<subseteq> candidate_hashes e"
    using recalculated_votes [OF inv ord] by auto
  obtain ts where ts: "tallies_calculate ?vs = Some ts" "tallies_ok (candidate_hashes e) ts"
    "\<forall>h. tallies_get ts h = of_nat (weight_for ?vs h)"
    using tallies_calculate_ok [OF h(1) _ election_invD(5) [OF inv]] by auto
  obtain fts where fts: "tallies_calculate (filter is_final_vote ?vs) = Some fts" "tallies_ok (candidate_hashes e) fts"
    "\<forall>h. tallies_get fts h = of_nat (weight_for (filter is_final_vote ?vs) h)"
    using tallies_calculate_ok [OF h(2) _ election_invD(5) [OF inv]] by auto
  have get: "tallies_get ts h = of_nat (vote_weight ws e h)" "tallies_get fts h = of_nat (final_weight ws e h)" for h
    using ts(3) voted_weight_list [OF inv ord, of "\<lambda>v. vs_hash v = h" ws]
      fts(3) voted_weight_list [OF inv ord, of "\<lambda>v. vs_hash v = h \<and> is_final_vote v" ws]
    by (simp_all add: weight_for_def is_final_vote_def conj_commute)
  have sum: "tallies_sum ts = of_nat (voted_weight ws (\<lambda>_. True) e)"
    using tallies_calculate_sum [OF ts(1)] voted_weight_list [OF inv ord, of "\<lambda>_. True" ws] by simp
  show thesis
    by (rule that [OF _ ts(2) fts(2) _ _ sum]) (use ts(1) fts(1) get in \<open>simp_all add: recalculate_tallies_def\<close>)
qed

lemma change_winner_ok:
  assumes cand: "\<And>h b. tbl_get (el_candidates e) h = Some b \<Longrightarrow> maybe_hash b = h"
    and ts: "tallies_ok (candidate_hashes e) (el_tallies e)"
  obtains e' where "(case check_new_winner d e of Some w \<Rightarrow> change_winner_to w e | None \<Rightarrow> Some e) = Some e'"
    "e' = e\<lparr>el_winner := el_winner e'\<rparr>"
    "el_winner e' = el_winner e \<or> tbl_get (el_candidates e) (maybe_hash (el_winner e')) = Some (el_winner e')"
    "el_winner e' \<noteq> el_winner e \<Longrightarrow> d \<le> tallies_sum (el_tallies e)"
    "\<And>h. d \<le> tallies_sum (el_tallies e) \<Longrightarrow>
       tallies_get (el_tallies e) h \<le> tallies_get (el_tallies e) (maybe_hash (el_winner e'))"
proof (cases "el_tallies e")
  case Nil
  then have "check_new_winner d e = None" by (simp add: check_new_winner_def)
  then show thesis using that [of e] Nil by (simp add: tallies_get_def)
next
  case (Cons r rest)
  obtain w t where r: "r = (w, t)" by (cases r)
  have first: "tallies_get (el_tallies e) h \<le> tallies_get (el_tallies e) w" for h
    using tallies_first(1) [of "candidate_hashes e" w t rest h] ts Cons r by (simp add: tallies_get_def)
  have "w \<in> candidate_hashes e" using tallies_okD(2) [OF ts] Cons r by auto
  then obtain b where b: "tbl_get (el_candidates e) w = Some b" by (auto simp: fmlookup_dom'_iff)
  show thesis
  proof (cases "tallies_sum (el_tallies e) < d \<or> w = maybe_hash (el_winner e)")
    case True
    then show thesis using that [of e] first Cons r by (auto simp: check_new_winner_def)
  next
    case False
    then have "check_new_winner d e = Some w" using Cons r by (simp add: check_new_winner_def)
    then show thesis
      using that [of "e\<lparr>el_winner := b\<rparr>"] first b cand [OF b] False by (simp add: change_winner_to_def not_less)
  qed
qed

lemma update_tallies_ok:
  assumes inv: "election_inv e" and ord: "permutes ord" and live: "\<not> has_ended (el_state e)"
  obtains e' where "update_tallies ord ws d e = Some e'" "election_inv e'" "el_root e' = el_root e"
    "candidate_hashes e' = candidate_hashes e" "el_votes e' = el_votes (update_vote_weights ws e)"
    "el_winner_tally e' = of_nat (vote_weight ws e (maybe_hash (el_winner e')))"
    "el_winner_final_tally e' = of_nat (final_weight ws e (maybe_hash (el_winner e')))"
    "el_state e' = (if d \<le> el_winner_final_tally e' then Confirmed else el_state e)"
    "el_winner e' \<noteq> el_winner e \<Longrightarrow> d \<le> of_nat (voted_weight ws (\<lambda>_. True) e)"
    "\<And>h. d \<le> of_nat (voted_weight ws (\<lambda>_. True) e) \<Longrightarrow>
       (of_nat (vote_weight ws e h) :: amount) \<le> of_nat (vote_weight ws e (maybe_hash (el_winner e')))"
    "el_behavior e' = el_behavior e"
proof -
  note I = election_invD [OF inv]
  obtain ts fts where r: "recalculate_tallies ord (update_vote_weights ws e) =
      Some ((update_vote_weights ws e)\<lparr>el_tallies := ts, el_final_tallies := fts\<rparr>)"
    "tallies_ok (candidate_hashes e) ts" "tallies_ok (candidate_hashes e) fts"
    "\<forall>h. tallies_get ts h = of_nat (vote_weight ws e h)" "\<forall>h. tallies_get fts h = of_nat (final_weight ws e h)"
    "tallies_sum ts = of_nat (voted_weight ws (\<lambda>_. True) e)"
    by (rule recalculate_ok [OF inv ord, of ws])
  define e1 where "e1 = (update_vote_weights ws e)\<lparr>el_tallies := ts, el_final_tallies := fts\<rparr>"
  have e1: "el_candidates e1 = el_candidates e" "el_root e1 = el_root e" "el_winner e1 = el_winner e"
    "el_tallies e1 = ts" "el_final_tallies e1 = fts" "el_state e1 = el_state e" "el_behavior e1 = el_behavior e"
    "el_votes e1 = el_votes (update_vote_weights ws e)"
    by (simp_all add: e1_def update_vote_weights_def)
  have votes: "vs_voter v = k \<and> vs_hash v \<in> candidate_hashes e" if "tbl_get (el_votes e1) k = Some v" for k v
    using that I(6,7) by (auto simp: e1(8) update_vote_weights_def)
  obtain e2 where w: "(case check_new_winner d e1 of Some w \<Rightarrow> change_winner_to w e1 | None \<Rightarrow> Some e1) = Some e2"
    "e2 = e1\<lparr>el_winner := el_winner e2\<rparr>"
    "el_winner e2 = el_winner e1 \<or> tbl_get (el_candidates e1) (maybe_hash (el_winner e2)) = Some (el_winner e2)"
    "el_winner e2 \<noteq> el_winner e1 \<Longrightarrow> d \<le> tallies_sum (el_tallies e1)"
    "\<And>h. d \<le> tallies_sum (el_tallies e1) \<Longrightarrow>
       tallies_get (el_tallies e1) h \<le> tallies_get (el_tallies e1) (maybe_hash (el_winner e2))"
    by (rule change_winner_ok [of e1 d]) (use I(1) r(2) e1 in auto)
  have e2: "el_candidates e2 = el_candidates e" "el_root e2 = el_root e" "el_votes e2 = el_votes e1"
    "el_tallies e2 = ts" "el_final_tallies e2 = fts" "el_state e2 = el_state e" "el_behavior e2 = el_behavior e"
    by (subst w(2); simp add: e1)+
  let ?e' = "try_confirm d (try_set_quorum d (update_winner_tally e2))"
  have f: "el_candidates ?e' = el_candidates e2" "el_root ?e' = el_root e2" "el_winner ?e' = el_winner e2"
    "el_votes ?e' = el_votes e2" "el_tallies ?e' = el_tallies e2" "el_final_tallies ?e' = el_final_tallies e2"
    "el_behavior ?e' = el_behavior e2"
    "el_winner_tally ?e' = tallies_get ts (maybe_hash (el_winner e2))"
    "el_winner_final_tally ?e' = tallies_get fts (maybe_hash (el_winner e2))"
    "el_state ?e' = (if d \<le> tallies_get fts (maybe_hash (el_winner e2)) then Confirmed else el_state e2)"
    by (simp_all add: try_confirm_def try_set_quorum_def update_winner_tally_def e2(4,5))
  have "tbl_get (el_candidates e) (maybe_hash (el_winner e2)) = Some (el_winner e2)"
    using w(3) I(4) by (auto simp: e1)
  then have "election_inv e2"
    unfolding election_inv_def e2 using inv votes r(2,3) unfolding election_inv_def e1(8) by blast
  then have "election_inv ?e'" by (rule election_inv_cong) (simp_all add: f)
  moreover have "update_tallies ord ws d e = Some ?e'"
    using live r(1) w(1) by (simp add: update_tallies_def flip: e1_def)
  ultimately show thesis
    using that [of ?e'] w(4,5) r(4-6) e1 e2 by (simp add: f)
qed

end
