(* ===== verification/Bucketing.thy ===== *)
theory Bucketing
  imports Election
begin

text \<open>
  The order in which elections are scheduled: the buckets by balance
  (\<^verbatim>\<open>election_schedulers/priority/bucketing.rs\<close>), and the order of the entries
  inside a bucket of active elections (\<^verbatim>\<open>active_elections/root_container.rs\<close>).
  The orders are instances of \<^typ>\<open>'a::linorder\<close>, so that a
  \<^verbatim>\<open>BTreeSet\<close> is a sorted list without duplicates.
\<close>

section \<open>Orders\<close>

instantiation qualified_root :: linorder
begin

definition less_eq_qualified_root :: "qualified_root \<Rightarrow> qualified_root \<Rightarrow> bool" where
  "less_eq_qualified_root r s \<longleftrightarrow> qr_root r < qr_root s \<or> qr_root r = qr_root s \<and> qr_previous r \<le> qr_previous s"

definition less_qualified_root :: "qualified_root \<Rightarrow> qualified_root \<Rightarrow> bool" where
  "less_qualified_root r s \<longleftrightarrow> qr_root r < qr_root s \<or> qr_root r = qr_root s \<and> qr_previous r < qr_previous s"

instance
  by standard (auto simp: less_eq_qualified_root_def less_qualified_root_def intro: qualified_root.expand)

end

datatype bucket_entry = BucketEntry (be_root: qualified_root) (be_priority: block_priority)

text \<open>
  \<^verbatim>\<open>impl Ord for BucketEntry\<close>: the comparison of every field is reversed, the one of
  the time twice.
\<close>

instantiation bucket_entry :: linorder
begin

definition less_bucket_entry :: "bucket_entry \<Rightarrow> bucket_entry \<Rightarrow> bool" where
  "less_bucket_entry x y \<longleftrightarrow>
     (let s = be_priority x; t = be_priority y in
      bp_time t < bp_time s \<or> bp_time t = bp_time s \<and>
        (bp_balance t < bp_balance s \<or> bp_balance t = bp_balance s \<and> be_root y < be_root x))"

definition less_eq_bucket_entry :: "bucket_entry \<Rightarrow> bucket_entry \<Rightarrow> bool" where
  "less_eq_bucket_entry x y \<longleftrightarrow> x = y \<or> x < y"

instance
proof
  fix x y z :: bucket_entry
  show "x < y \<longleftrightarrow> x \<le> y \<and> \<not> y \<le> x"
    by (auto simp: less_eq_bucket_entry_def less_bucket_entry_def Let_def)
  show "x \<le> x" by (simp add: less_eq_bucket_entry_def)
  show "x \<le> y \<Longrightarrow> y \<le> z \<Longrightarrow> x \<le> z"
    by (auto simp: less_eq_bucket_entry_def less_bucket_entry_def Let_def)
  show "x \<le> y \<Longrightarrow> y \<le> x \<Longrightarrow> x = y"
    by (auto simp: less_eq_bucket_entry_def less_bucket_entry_def Let_def)
  show "x \<le> y \<or> y \<le> x"
    by (auto simp: less_eq_bucket_entry_def less_bucket_entry_def Let_def not_less
        intro!: bucket_entry.expand block_priority.expand)
qed

end

section \<open>Buckets by balance\<close>

definition build_region :: "nat \<Rightarrow> nat \<Rightarrow> nat \<Rightarrow> amount list" where
  "build_region from to n =
     (let width = (to - from) div n in map (\<lambda>i. of_nat (from + i * width)) [0..<n])"

definition bucketing_minimums :: "amount list" where
  "bucketing_minimums =
     build_region 0 (2 ^ 79) 1 @
     build_region (2 ^ 79) (2 ^ 88) 1 @
     build_region (2 ^ 88) (2 ^ 92) 2 @
     build_region (2 ^ 92) (2 ^ 96) 4 @
     build_region (2 ^ 96) (2 ^ 100) 8 @
     build_region (2 ^ 100) (2 ^ 104) 16 @
     build_region (2 ^ 104) (2 ^ 108) 16 @
     build_region (2 ^ 108) (2 ^ 112) 8 @
     build_region (2 ^ 112) (2 ^ 116) 4 @
     build_region (2 ^ 116) (2 ^ 120) 2 @
     build_region (2 ^ 120) (2 ^ 127) 1"

text \<open>\<open>None\<close> is the \<^verbatim>\<open>unreachable!\<close> branch.\<close>

definition prio_bucket_index :: "amount \<Rightarrow> nat option" where
  "prio_bucket_index balance =
     map_option fst (find (\<lambda>(_, minimum). minimum \<le> balance) (rev (enumerate 0 bucketing_minimums)))"

definition prio_bucket_count :: nat where
  "prio_bucket_count = length bucketing_minimums"

definition bucket_count :: nat where
  "bucket_count = prio_bucket_count + 1 + 1 + 1"

fun bucket_index :: "election_behavior \<Rightarrow> amount \<Rightarrow> nat option" where
  "bucket_index Priority balance = prio_bucket_index balance"
| "bucket_index Manual balance = Some prio_bucket_count"
| "bucket_index Hinted balance = Some (prio_bucket_count + 1)"
| "bucket_index Optimistic balance = Some (prio_bucket_count + 2)"

lemma prio_bucket_count_eq: "prio_bucket_count = 63"
  by (simp add: prio_bucket_count_def bucketing_minimums_def build_region_def Let_def)

text \<open>The index is the last bucket whose minimum the balance reaches.\<close>

lemma prio_bucket_index_eq_Some:
  "prio_bucket_index balance = Some i \<longleftrightarrow>
     i < prio_bucket_count \<and> bucketing_minimums ! i \<le> balance \<and>
     (\<forall>j. i < j \<and> j < prio_bucket_count \<longrightarrow> balance < bucketing_minimums ! j)" (is "?l \<longleftrightarrow> ?r")
proof -
  let ?n = "length bucketing_minimums"
  have nth: "rev (enumerate 0 bucketing_minimums) ! k = (?n - Suc k, bucketing_minimums ! (?n - Suc k))" if "k < ?n" for k
    using that by (simp add: rev_nth nth_enumerate_eq)
  have "?l \<longleftrightarrow> (\<exists>k<?n. bucketing_minimums ! (?n - Suc k) \<le> balance \<and> i = ?n - Suc k \<and>
      (\<forall>j<k. balance < bucketing_minimums ! (?n - Suc j)))"
  proof
    assume ?l
    then obtain b where "find (\<lambda>(_, minimum). minimum \<le> balance) (rev (enumerate 0 bucketing_minimums)) = Some (i, b)"
      by (auto simp: prio_bucket_index_def)
    then show "\<exists>k<?n. bucketing_minimums ! (?n - Suc k) \<le> balance \<and> i = ?n - Suc k \<and>
        (\<forall>j<k. balance < bucketing_minimums ! (?n - Suc j))"
      by (auto simp: find_Some_iff nth not_le)
  next
    assume "\<exists>k<?n. bucketing_minimums ! (?n - Suc k) \<le> balance \<and> i = ?n - Suc k \<and>
        (\<forall>j<k. balance < bucketing_minimums ! (?n - Suc j))"
    then obtain k where "k < ?n" "bucketing_minimums ! (?n - Suc k) \<le> balance" "i = ?n - Suc k"
      "\<forall>j<k. balance < bucketing_minimums ! (?n - Suc j)" by blast
    then have "find (\<lambda>(_, minimum). minimum \<le> balance) (rev (enumerate 0 bucketing_minimums)) =
        Some (i, bucketing_minimums ! i)"
      by (auto simp: find_Some_iff nth not_le intro!: exI [of _ k])
    then show ?l by (simp add: prio_bucket_index_def)
  qed
  also have "\<dots> \<longleftrightarrow> ?r"
  proof
    assume "\<exists>k<?n. bucketing_minimums ! (?n - Suc k) \<le> balance \<and> i = ?n - Suc k \<and>
      (\<forall>j<k. balance < bucketing_minimums ! (?n - Suc j))"
    then obtain k where k: "k < ?n" "bucketing_minimums ! (?n - Suc k) \<le> balance" "i = ?n - Suc k"
      "\<forall>j<k. balance < bucketing_minimums ! (?n - Suc j)" by blast
    have "balance < bucketing_minimums ! j" if "i < j" "j < ?n" for j
      using k(4) [rule_format, of "?n - Suc j"] that k(1,3) by simp
    then show ?r using k by (simp add: prio_bucket_count_def)
  next
    assume r: ?r
    then have above: "balance < bucketing_minimums ! j" if "i < j" "j < ?n" for j
      using that by (simp add: prio_bucket_count_def)
    have "balance < bucketing_minimums ! (?n - Suc j)" if "j < ?n - Suc i" for j
      by (rule above) (use that in linarith)+
    then show "\<exists>k<?n. bucketing_minimums ! (?n - Suc k) \<le> balance \<and> i = ?n - Suc k \<and>
      (\<forall>j<k. balance < bucketing_minimums ! (?n - Suc j))"
      using r by (intro exI [of _ "?n - Suc i"]) (auto simp: prio_bucket_count_def)
  qed
  finally show ?thesis .
qed

lemma bucketing_minimums_first: "bucketing_minimums ! 0 = 0"
  by (simp add: bucketing_minimums_def build_region_def)

text \<open>The first bucket takes every balance, so the search never fails.\<close>

lemma prio_bucket_index_total: "\<exists>i. prio_bucket_index balance = Some i \<and> i < prio_bucket_count"
proof -
  let ?I = "{i. i < prio_bucket_count \<and> bucketing_minimums ! i \<le> balance}"
  have fin: "finite ?I" by simp
  have "0 \<in> ?I" by (simp add: bucketing_minimums_first prio_bucket_count_eq)
  then have "Max ?I \<in> ?I" using fin Max_in by blast
  moreover have "balance < bucketing_minimums ! j" if "Max ?I < j" "j < prio_bucket_count" for j
    using Max_ge [OF fin, of j] that by (metis (mono_tags, lifting) mem_Collect_eq not_le)
  ultimately show ?thesis using prio_bucket_index_eq_Some by blast
qed

lemma bucket_index_total: "\<exists>i. bucket_index behavior balance = Some i \<and> i < bucket_count"
  using prio_bucket_index_total [of balance] by (cases behavior) (auto simp: bucket_count_def)

text \<open>A richer block is never in a lower bucket.\<close>

lemma prio_bucket_index_mono:
  assumes "prio_bucket_index b = Some i" "prio_bucket_index c = Some j" "b \<le> c"
  shows "i \<le> j"
proof (rule ccontr)
  assume "\<not> i \<le> j"
  then have "c < bucketing_minimums ! i" "bucketing_minimums ! i \<le> b"
    using assms(1,2) by (auto simp: prio_bucket_index_eq_Some)
  then show False using assms(3) by simp
qed

end
