(* ===== verification/Active_Elections.thy ===== *)
theory Active_Elections
  imports Election_Inv Bucketing
begin

text \<open>
  The container of all running elections: \<^verbatim>\<open>node/src/consensus/active_elections\<close>.
  The root container with its buckets and the vote router, the cache of recently confirmed
  roots, the cooldown controller, and the operations of
  \<^verbatim>\<open>ActiveElectionsContainer\<close>. The events sent to the observer are appended to a list.
  A panic is \<open>None\<close>: an index out of range, a counter below zero, an
  \<^verbatim>\<open>unwrap\<close>. The statistics counters are left out.
\<close>

section \<open>The root container\<close>

record aec_entry =
  en_root :: qualified_root
  en_election :: election
  en_priority :: block_priority

definition entry_bucket :: "aec_entry \<Rightarrow> nat option" where
  "entry_bucket en = bucket_index (el_behavior (en_election en)) (bp_balance (en_priority en))"

record root_container =
  rc_by_root :: "(qualified_root, aec_entry) table"
  rc_buckets :: "bucket_entry list list"
  rc_vote_router :: "(block_hash, qualified_root) table"

definition root_container_default :: root_container where
  "root_container_default = \<lparr>rc_by_root = fmempty, rc_buckets = replicate bucket_count [], rc_vote_router = fmempty\<rparr>"

text \<open>An update of the bucket at an index; out of range panics.\<close>

definition update_bucket ::
    "nat \<Rightarrow> (bucket_entry list \<Rightarrow> bucket_entry list) \<Rightarrow> root_container \<Rightarrow> root_container option" where
  "update_bucket i f rc =
     (if i < length (rc_buckets rc) then Some (rc\<lparr>rc_buckets := (rc_buckets rc)[i := f (rc_buckets rc ! i)]\<rparr>)
      else None)"

definition connect :: "block_hash \<Rightarrow> qualified_root \<Rightarrow> root_container \<Rightarrow> root_container" where
  "connect h root rc = rc\<lparr>rc_vote_router := tbl_put h root (rc_vote_router rc)\<rparr>"

definition disconnect :: "block_hash \<Rightarrow> root_container \<Rightarrow> root_container" where
  "disconnect h rc = rc\<lparr>rc_vote_router := fmdrop h (rc_vote_router rc)\<rparr>"

definition disconnect_election :: "election \<Rightarrow> root_container \<Rightarrow> root_container" where
  "disconnect_election e rc = fold disconnect (map fst (tbl_entries (el_candidates e))) rc"

definition rc_insert :: "aec_entry \<Rightarrow> root_container \<Rightarrow> root_container option" where
  "rc_insert en rc = do {
     i \<leftarrow> entry_bucket en;
     rc \<leftarrow> update_bucket i (insort_insert (BucketEntry (en_root en) (en_priority en))) rc;
     let rc = rc\<lparr>rc_by_root := tbl_put (en_root en) en (rc_by_root rc)\<rparr>;
     Some (connect (maybe_hash (el_winner (en_election en))) (en_root en) rc)
   }"

definition rc_entry_for_block :: "root_container \<Rightarrow> block_hash \<Rightarrow> aec_entry option" where
  "rc_entry_for_block rc h = do {
     root \<leftarrow> tbl_get (rc_vote_router rc) h;
     tbl_get (rc_by_root rc) root
   }"

text \<open>Writing through the \<^verbatim>\<open>&mut Election\<close> of an entry.\<close>

definition rc_set_election :: "qualified_root \<Rightarrow> election \<Rightarrow> root_container \<Rightarrow> root_container" where
  "rc_set_election root e rc =
     (case tbl_get (rc_by_root rc) root of
        Some en \<Rightarrow> rc\<lparr>rc_by_root := tbl_put root (en\<lparr>en_election := e\<rparr>) (rc_by_root rc)\<rparr>
      | None \<Rightarrow> rc)"

record aec_insert_request =
  rq_block :: saved_block
  rq_behavior :: election_behavior
  rq_priority :: block_priority

definition try_upgrade_to_priority_election ::
    "aec_insert_request \<Rightarrow> root_container \<Rightarrow> ((bool \<times> election_behavior option) \<times> root_container) option" where
  "try_upgrade_to_priority_election rq rc =
     (let root = qualified_root_of (svb_block (rq_block rq)) in
      case tbl_get (rc_by_root rc) root of
        None \<Rightarrow> Some ((False, None), rc)
      | Some en \<Rightarrow>
          let previous_behavior = el_behavior (en_election en) in
          if rq_behavior rq \<noteq> Priority then Some ((False, Some previous_behavior), rc)
          else
            let (upgraded, e) = maybe_upgrade_to Priority (en_election en);
                rc = rc_set_election root e rc in
            if \<not> upgraded then Some ((False, Some previous_behavior), rc)
            else do {
              old_index \<leftarrow> bucket_index previous_behavior (bp_balance (en_priority en));
              rc \<leftarrow> update_bucket old_index (remove1 (BucketEntry root (en_priority en))) rc;
              new_index \<leftarrow> bucket_index Priority (bp_balance (en_priority en));
              rc \<leftarrow> update_bucket new_index (insort_insert (BucketEntry root (en_priority en))) rc;
              Some ((True, Some previous_behavior), rc)
            })"

definition rc_erase :: "qualified_root \<Rightarrow> root_container \<Rightarrow> (aec_entry option \<times> root_container) option" where
  "rc_erase root rc =
     (case tbl_get (rc_by_root rc) root of
        None \<Rightarrow> Some (None, rc)
      | Some en \<Rightarrow> do {
          let rc = rc\<lparr>rc_by_root := fmdrop root (rc_by_root rc)\<rparr>;
          let rc = disconnect_election (en_election en) rc;
          i \<leftarrow> entry_bucket en;
          rc \<leftarrow> update_bucket i (remove1 (BucketEntry (en_root en) (en_priority en))) rc;
          Some (Some en, rc)
        })"

fun rc_erase_all :: "qualified_root list \<Rightarrow> root_container \<Rightarrow> (aec_entry list \<times> root_container) option" where
  "rc_erase_all [] rc = Some ([], rc)"
| "rc_erase_all (root # roots) rc = do {
     (erased, rc) \<leftarrow> rc_erase root rc;
     (removed, rc) \<leftarrow> rc_erase_all roots rc;
     Some ((case erased of Some en \<Rightarrow> en # removed | None \<Rightarrow> removed), rc)
   }"

definition drain_filter ::
    "qualified_root hash_order \<Rightarrow> (aec_entry \<Rightarrow> bool) \<Rightarrow> root_container \<Rightarrow> (aec_entry list \<times> root_container) option" where
  "drain_filter ord predicate rc =
     rc_erase_all (map en_root (filter predicate (hash_values ord (rc_by_root rc)))) rc"

definition rc_clear :: "root_container \<Rightarrow> root_container" where
  "rc_clear rc = rc\<lparr>rc_by_root := fmempty, rc_buckets := map (\<lambda>_. []) (rc_buckets rc)\<rparr>"

definition rc_len :: "root_container \<Rightarrow> nat" where
  "rc_len rc = length (tbl_entries (rc_by_root rc))"

definition lowest_priority :: "nat \<Rightarrow> root_container \<Rightarrow> (qualified_root \<times> time_priority) option option" where
  "lowest_priority bucket_id rc =
     (if bucket_id < length (rc_buckets rc) then
        Some (case rev (rc_buckets rc ! bucket_id) of
            [] \<Rightarrow> None
          | x # _ \<Rightarrow> Some (be_root x, bp_time (be_priority x)))
      else None)"

text \<open>
  \<^verbatim>\<open>RoundRobinIterator\<close>: the iterators over the buckets that were not empty, the
  highest bucket first, the position, and whether the current pass yielded anything. The loop
  of \<^verbatim>\<open>next\<close> ends at the end of a pass without items.
\<close>

record round_robin =
  rr_iters :: "bucket_entry list list"
  rr_current :: nat
  rr_yielded :: bool

definition round_robin_new :: "root_container \<Rightarrow> round_robin" where
  "round_robin_new rc = \<lparr>rr_iters = filter (\<lambda>b. b \<noteq> []) (rev (rc_buckets rc)), rr_current = 0, rr_yielded = False\<rparr>"

text \<open>One turn of the loop.\<close>

definition round_robin_turn :: "round_robin \<Rightarrow> bucket_entry option \<times> round_robin" where
  "round_robin_turn rr =
     (let iter = rr_iters rr ! rr_current rr;
          item = (case iter of [] \<Rightarrow> None | x # _ \<Rightarrow> Some x);
          yielded = (rr_yielded rr \<or> item \<noteq> None);
          current = rr_current rr + 1;
          iters = (rr_iters rr)[rr_current rr := tl iter]
      in (item, if current \<ge> length iters \<and> yielded
           then \<lparr>rr_iters = iters, rr_current = 0, rr_yielded = False\<rparr>
           else \<lparr>rr_iters = iters, rr_current = current, rr_yielded = yielded\<rparr>))"

abbreviation rr_left :: "round_robin \<Rightarrow> nat" where
  "rr_left rr \<equiv> sum_list (map length (rr_iters rr))"

lemma sum_length_update:
  "i < length xss \<Longrightarrow> sum_list (map length (xss[i := ys])) + length (xss ! i) = sum_list (map length xss) + length ys"
  by (induction xss arbitrary: i) (auto split: nat.split simp: less_Suc_eq_0_disj)

function round_robin_next :: "round_robin \<Rightarrow> bucket_entry option \<times> round_robin" where
  "round_robin_next rr =
     (if rr_current rr < length (rr_iters rr) then
        (case round_robin_turn rr of
           (Some x, rr) \<Rightarrow> (Some x, rr)
         | (None, rr) \<Rightarrow> round_robin_next rr)
      else (None, rr))"
  by pat_completeness auto

termination
  by (relation "inv_image (less_than <*lex*> less_than)
      (\<lambda>rr. (of_bool (rr_yielded rr) :: nat, length (rr_iters rr) - rr_current rr))")
    (auto simp: round_robin_turn_def Let_def split: list.splits if_splits)

declare round_robin_next.simps [simp del]

text \<open>Every item comes from a bucket, so the iteration ends.\<close>

lemma round_robin_turn_left:
  assumes "rr_current rr < length (rr_iters rr)" "round_robin_turn rr = (item, rr')"
  shows "rr_left rr = rr_left rr' + (if item = None then 0 else 1)"
  using assms sum_length_update [OF assms(1), of "tl (rr_iters rr ! rr_current rr)"]
  by (cases "rr_iters rr ! rr_current rr") (auto simp: round_robin_turn_def Let_def split: if_splits)

lemma round_robin_next_left:
  "round_robin_next rr = (item, rr') \<Longrightarrow> rr_left rr = rr_left rr' + (if item = None then 0 else 1)"
proof (induction rr rule: round_robin_next.induct)
  case (1 rr)
  then show ?case
    using round_robin_turn_left [of rr]
    by (auto simp: round_robin_next.simps [of rr] split: if_splits option.splits prod.splits)
qed

function round_robin_all :: "round_robin \<Rightarrow> bucket_entry list" where
  "round_robin_all rr = (case round_robin_next rr of (Some x, rr) \<Rightarrow> x # round_robin_all rr | (None, _) \<Rightarrow> [])"
  by pat_completeness auto

termination
  by (relation "measure rr_left") (auto dest: round_robin_next_left [OF sym])

declare round_robin_all.simps [simp del]

text \<open>The entries in the order of the iterator; a bucket entry without election would end it.\<close>

fun while_some :: "'a option list \<Rightarrow> 'a list" where
  "while_some (Some x # xs) = x # while_some xs"
| "while_some _ = []"

definition rc_iter :: "root_container \<Rightarrow> aec_entry list" where
  "rc_iter rc = while_some (map (\<lambda>x. tbl_get (rc_by_root rc) (be_root x)) (round_robin_all (round_robin_new rc)))"

section \<open>Recently confirmed roots\<close>

record recently_confirmed_cache =
  rcc_by_root :: "(qualified_root, block_hash) table"
  rcc_by_hash :: "(block_hash, qualified_root) table"
  rcc_sequential :: "block_hash list"
  rcc_max_len :: nat

definition rcc_new :: "nat \<Rightarrow> recently_confirmed_cache" where
  "rcc_new max_len = \<lparr>rcc_by_root = fmempty, rcc_by_hash = fmempty, rcc_sequential = [], rcc_max_len = max_len\<rparr>"

definition rcc_put :: "qualified_root \<Rightarrow> block_hash \<Rightarrow> recently_confirmed_cache \<Rightarrow> bool \<times> recently_confirmed_cache" where
  "rcc_put root h c =
     (if tbl_get (rcc_by_hash c) h \<noteq> None \<or> tbl_get (rcc_by_root c) root \<noteq> None then (False, c)
      else
        let c = c\<lparr>rcc_sequential := rcc_sequential c @ [h], rcc_by_root := tbl_put root h (rcc_by_root c),
              rcc_by_hash := tbl_put h root (rcc_by_hash c)\<rparr>
        in (True, if length (rcc_sequential c) > rcc_max_len c then
              (case rcc_sequential c of
                 [] \<Rightarrow> c
               | old_hash # rest \<Rightarrow>
                   let c' = c\<lparr>rcc_sequential := rest, rcc_by_hash := fmdrop old_hash (rcc_by_hash c)\<rparr>
                   in (case tbl_get (rcc_by_hash c) old_hash of
                         Some old_root \<Rightarrow> c'\<lparr>rcc_by_root := fmdrop old_root (rcc_by_root c')\<rparr>
                       | None \<Rightarrow> c'))
            else c))"

definition rcc_erase :: "block_hash \<Rightarrow> recently_confirmed_cache \<Rightarrow> recently_confirmed_cache" where
  "rcc_erase h c =
     (case tbl_get (rcc_by_hash c) h of
        Some root \<Rightarrow> c\<lparr>rcc_by_hash := fmdrop h (rcc_by_hash c), rcc_by_root := fmdrop root (rcc_by_root c),
            rcc_sequential := filter (\<lambda>i. i \<noteq> h) (rcc_sequential c)\<rparr>
      | None \<Rightarrow> c)"

definition root_exists :: "qualified_root \<Rightarrow> recently_confirmed_cache \<Rightarrow> bool" where
  "root_exists root c \<longleftrightarrow> tbl_get (rcc_by_root c) root \<noteq> None"

definition hash_exists :: "block_hash \<Rightarrow> recently_confirmed_cache \<Rightarrow> bool" where
  "hash_exists h c \<longleftrightarrow> tbl_get (rcc_by_hash c) h \<noteq> None"

definition rcc_clear :: "recently_confirmed_cache \<Rightarrow> recently_confirmed_cache" where
  "rcc_clear c = c\<lparr>rcc_sequential := [], rcc_by_root := fmempty, rcc_by_hash := fmempty\<rparr>"

section \<open>Cooldown\<close>

datatype aec_cooldown_reason = ConfirmingSetFull | AecEventQueueFull

fun cooldown_reason_index :: "aec_cooldown_reason \<Rightarrow> nat" where
  "cooldown_reason_index ConfirmingSetFull = 0"
| "cooldown_reason_index AecEventQueueFull = 1"

record cooldown_controller =
  cd_source_states :: "bool list"
  cd_cool_down :: bool

definition cooldown_default :: cooldown_controller where
  "cooldown_default = \<lparr>cd_source_states = [False, False], cd_cool_down = False\<rparr>"

datatype cooldown_result = CooldownStarted | CooldownRecovered | Unchanged

definition cd_set_cooldown ::
    "bool \<Rightarrow> aec_cooldown_reason \<Rightarrow> cooldown_controller \<Rightarrow> cooldown_result \<times> cooldown_controller" where
  "cd_set_cooldown cool_down reason c =
     (let was_cooling_down_before = cd_cool_down c;
          states = (cd_source_states c)[cooldown_reason_index reason := cool_down];
          cooling = (True \<in> set states);
          c = \<lparr>cd_source_states = states, cd_cool_down = cooling\<rparr>
      in if cooling \<and> \<not> was_cooling_down_before then (CooldownStarted, c)
         else if \<not> cooling \<and> was_cooling_down_before then (CooldownRecovered, c)
         else (Unchanged, c))"

section \<open>The container\<close>

datatype aec_event =
    ElectionStarted block_hash qualified_root
  | ElectionConfirmed confirmed_election
  | AecElectionEnded election
  | BlockAddedToElection block_hash
  | BlockDiscarded block
  | AecBlockConfirmed saved_block confirmed_election
  | WinnerChanged block_hash block
  | Recovered

datatype aec_insert_error = Stopped | AecDuplicate | RecentlyConfirmed

record aec =
  ac_roots :: root_container
  ac_observer :: bool
  ac_stopped :: bool
  ac_count :: "election_behavior \<Rightarrow> nat"
  ac_base_latency :: duration
  ac_recently_confirmed :: recently_confirmed_cache
  ac_cooldown :: cooldown_controller
  ac_max_elections :: nat
  ac_events :: "aec_event list"

definition aec_new :: "nat \<Rightarrow> nat \<Rightarrow> duration \<Rightarrow> aec" where
  "aec_new max_elections confirmation_cache base_latency = \<lparr>ac_roots = root_container_default, ac_observer = False,
     ac_stopped = False, ac_count = (\<lambda>_. 0), ac_base_latency = base_latency,
     ac_recently_confirmed = rcc_new confirmation_cache, ac_cooldown = cooldown_default,
     ac_max_elections = max_elections, ac_events = []\<rparr>"

definition set_observer :: "aec \<Rightarrow> aec" where
  "set_observer c = c\<lparr>ac_observer := True\<rparr>"

definition notify :: "aec_event \<Rightarrow> aec \<Rightarrow> aec" where
  "notify ev c = (if ac_observer c then c\<lparr>ac_events := ac_events c @ [ev]\<rparr> else c)"

text \<open>Two counter updates; a decrement below zero panics.\<close>

definition count_inc :: "election_behavior \<Rightarrow> aec \<Rightarrow> aec" where
  "count_inc b c = c\<lparr>ac_count := (ac_count c)(b := ac_count c b + 1)\<rparr>"

definition count_dec :: "election_behavior \<Rightarrow> aec \<Rightarrow> aec option" where
  "count_dec b c = (if ac_count c b = 0 then None else Some (c\<lparr>ac_count := (ac_count c)(b := ac_count c b - 1)\<rparr>))"

definition try_upgrade_priority_election :: "aec_insert_request \<Rightarrow> aec \<Rightarrow> ((aec_insert_error + bool) \<times> aec) option" where
  "try_upgrade_priority_election rq c = do {
     ((upgraded, previous_behavior), rc) \<leftarrow> try_upgrade_to_priority_election rq (ac_roots c);
     let c = c\<lparr>ac_roots := rc\<rparr>;
     if upgraded then do {
       previous \<leftarrow> previous_behavior;
       c \<leftarrow> count_dec previous c;
       Some (Inr True, count_inc (rq_behavior rq) c)
     }
     else if previous_behavior \<noteq> None then Some (Inl AecDuplicate, c)
     else Some (Inr False, c)
   }"

definition insert_new_election :: "aec_insert_request \<Rightarrow> timestamp \<Rightarrow> aec \<Rightarrow> aec option" where
  "insert_new_election rq now c = do {
     let root = qualified_root_of (svb_block (rq_block rq));
     let e = election_new (rq_block rq) (rq_behavior rq) (ac_base_latency c) now;
     rc \<leftarrow> rc_insert \<lparr>en_root = root, en_election = e, en_priority = rq_priority rq\<rparr> (ac_roots c);
     let c = count_inc (rq_behavior rq) (c\<lparr>ac_roots := rc\<rparr>);
     Some (notify (ElectionStarted (saved_hash (rq_block rq)) root) c)
   }"

definition aec_insert :: "aec_insert_request \<Rightarrow> timestamp \<Rightarrow> aec \<Rightarrow> ((aec_insert_error + unit) \<times> aec) option" where
  "aec_insert rq now c =
     (if ac_stopped c then Some (Inl Stopped, c)
      else if root_exists (qualified_root_of (svb_block (rq_block rq))) (ac_recently_confirmed c)
        then Some (Inl RecentlyConfirmed, c)
      else do {
        (r, c) \<leftarrow> try_upgrade_priority_election rq c;
        (case r of
           Inl err \<Rightarrow> Some (Inl err, c)
         | Inr True \<Rightarrow> Some (Inr (), c)
         | Inr False \<Rightarrow> map_option (\<lambda>c. (Inr (), c)) (insert_new_election rq now c))
      })"

text \<open>An operation on the election of an entry, through \<^verbatim>\<open>get_mut\<close>.\<close>

definition with_election :: "qualified_root \<Rightarrow> (election \<Rightarrow> election) \<Rightarrow> aec \<Rightarrow> aec" where
  "with_election root f c =
     (case tbl_get (rc_by_root (ac_roots c)) root of
        Some en \<Rightarrow> c\<lparr>ac_roots := rc_set_election root (f (en_election en)) (ac_roots c)\<rparr>
      | None \<Rightarrow> c)"

definition set_last_voted :: "qualified_root \<Rightarrow> vote_type \<Rightarrow> timestamp \<Rightarrow> aec \<Rightarrow> aec" where
  "set_last_voted root t now c = with_election root (voted t now) c"

definition aec_try_add_fork :: "block_hash hash_order \<Rightarrow> block \<Rightarrow> amount \<Rightarrow> aec \<Rightarrow> (bool \<times> aec) option" where
  "aec_try_add_fork ord fork fork_tally c =
     (let root = qualified_root_of fork in
      case tbl_get (rc_by_root (ac_roots c)) root of
        None \<Rightarrow> Some (False, c)
      | Some en \<Rightarrow> do {
          (r, e) \<leftarrow> el_try_add_fork ord fork fork_tally (en_election en);
          let c = c\<lparr>ac_roots := rc_set_election root e (ac_roots c)\<rparr>;
          let (added, c) = (case r of
              Added \<Rightarrow> (True, notify (BlockAddedToElection (block_hash_of fork)) c)
            | Replaced removed \<Rightarrow>
                (True, notify (BlockAddedToElection (block_hash_of fork))
                  (notify (BlockDiscarded (maybe_block removed))
                    (c\<lparr>ac_roots := disconnect (maybe_hash removed) (ac_roots c)\<rparr>)))
            | TallyTooLow \<Rightarrow> (False, notify (BlockDiscarded fork) c)
            | Duplicate \<Rightarrow> (False, c)
            | ElectionEnded \<Rightarrow> (False, c));
          Some (if added then (True, c\<lparr>ac_roots := connect (block_hash_of fork) root (ac_roots c)\<rparr>) else (False, c))
        })"

definition vacancy :: "aec \<Rightarrow> int" where
  "vacancy c = (if cd_cool_down (ac_cooldown c) then 0 else int (ac_max_elections c) - int (rc_len (ac_roots c)))"

definition set_cooldown :: "bool \<Rightarrow> aec_cooldown_reason \<Rightarrow> aec \<Rightarrow> aec" where
  "set_cooldown cool_down reason c =
     (let (r, cd) = cd_set_cooldown cool_down reason (ac_cooldown c); c = c\<lparr>ac_cooldown := cd\<rparr>
      in if r = CooldownRecovered then notify Recovered c else c)"

definition aec_stop :: "aec \<Rightarrow> aec" where
  "aec_stop c = c\<lparr>ac_observer := False, ac_stopped := True, ac_roots := rc_clear (ac_roots c)\<rparr>"

definition is_active_root :: "qualified_root \<Rightarrow> aec \<Rightarrow> bool" where
  "is_active_root root c \<longleftrightarrow> tbl_get (rc_by_root (ac_roots c)) root \<noteq> None"

definition is_active_hash :: "block_hash \<Rightarrow> aec \<Rightarrow> bool" where
  "is_active_hash h c \<longleftrightarrow> tbl_get (rc_vote_router (ac_roots c)) h \<noteq> None"

definition cleanup_election :: "aec_entry \<Rightarrow> aec \<Rightarrow> aec option" where
  "cleanup_election en c = do {
     c \<leftarrow> count_dec (el_behavior (en_election en)) c;
     Some (notify (AecElectionEnded (en_election en)) c)
   }"

fun cleanup_all :: "aec_entry list \<Rightarrow> aec \<Rightarrow> aec option" where
  "cleanup_all [] c = Some c"
| "cleanup_all (en # ens) c = do { c \<leftarrow> cleanup_election en c; cleanup_all ens c }"

definition erase_ended_elections :: "qualified_root hash_order \<Rightarrow> aec \<Rightarrow> aec option" where
  "erase_ended_elections ord c = do {
     (removed, rc) \<leftarrow> drain_filter ord (\<lambda>en. has_ended (el_state (en_election en))) (ac_roots c);
     cleanup_all removed (c\<lparr>ac_roots := rc\<rparr>)
   }"

definition aec_transition_time :: "qualified_root hash_order \<Rightarrow> timestamp \<Rightarrow> aec \<Rightarrow> aec option" where
  "aec_transition_time ord now c =
     erase_ended_elections ord (c\<lparr>ac_roots := (ac_roots c)\<lparr>rc_by_root :=
       fmmap (\<lambda>en. en\<lparr>en_election := el_transition_time now (en_election en)\<rparr>) (rc_by_root (ac_roots c))\<rparr>\<rparr>)"

definition transition_active :: "block_hash \<Rightarrow> aec \<Rightarrow> bool \<times> aec" where
  "transition_active h c =
     (case rc_entry_for_block (ac_roots c) h of
        None \<Rightarrow> (False, c)
      | Some en \<Rightarrow> (True, with_election (en_root en) el_transition_active c))"

definition remove_votes :: "qualified_root \<Rightarrow> public_key list \<Rightarrow> aec \<Rightarrow> aec" where
  "remove_votes root voters c = with_election root (fold el_remove_vote voters) c"

definition aec_erase :: "qualified_root \<Rightarrow> aec \<Rightarrow> (bool \<times> aec) option" where
  "aec_erase root c = do {
     (erased, rc) \<leftarrow> rc_erase root (ac_roots c);
     let c = c\<lparr>ac_roots := rc\<rparr>;
     (case erased of None \<Rightarrow> Some (False, c) | Some en \<Rightarrow> map_option (Pair True) (cleanup_election en c))
   }"

definition erase_lowest_prio_election :: "nat \<Rightarrow> aec \<Rightarrow> aec option" where
  "erase_lowest_prio_election bucket_id c = do {
     lowest \<leftarrow> lowest_priority bucket_id (ac_roots c);
     (case lowest of None \<Rightarrow> Some c | Some (root, _) \<Rightarrow> map_option snd (aec_erase root c))
   }"

definition confirm_dependent_election ::
    "saved_block \<Rightarrow> confirmed_election option \<Rightarrow> timestamp \<Rightarrow> aec \<Rightarrow> confirmed_election \<times> aec" where
  "confirm_dependent_election b source now c =
     (let root = qualified_root_of (svb_block b);
          directly = (case source of Some s \<Rightarrow> saved_hash b = maybe_hash (ce_winner s) | None \<Rightarrow> False) in
      if directly then (the source, c)
      else (case tbl_get (rc_by_root (ac_roots c)) root of
          None \<Rightarrow> (confirmed_election_new b InactiveConfirmationHeight, c)
        | Some en \<Rightarrow>
            if maybe_hash (el_winner (en_election en)) = saved_hash b then
              let e = snd (el_force_confirm (en_election en))
              in (into_confirmed_election now ActiveConfirmationHeight e,
                  c\<lparr>ac_roots := rc_set_election root e (ac_roots c)\<rparr>)
            else (confirmed_election_new b ActiveConfirmationHeight,
                  c\<lparr>ac_roots := rc_set_election root (el_cancel (en_election en)) (ac_roots c)\<rparr>)))"

fun confirm_dependent_elections ::
    "(saved_block \<times> confirmed_election option) list \<Rightarrow> timestamp \<Rightarrow> aec \<Rightarrow> aec" where
  "confirm_dependent_elections [] now c = c"
| "confirm_dependent_elections ((b, source) # rest) now c =
     (let (ce, c) = confirm_dependent_election b source now c
      in confirm_dependent_elections rest now (notify (AecBlockConfirmed b ce) c))"

definition remove_recently_confirmed :: "block_hash \<Rightarrow> aec \<Rightarrow> aec" where
  "remove_recently_confirmed h c = c\<lparr>ac_recently_confirmed := rcc_erase h (ac_recently_confirmed c)\<rparr>"

definition clear_recently_confirmed :: "aec \<Rightarrow> aec" where
  "clear_recently_confirmed c = c\<lparr>ac_recently_confirmed := rcc_clear (ac_recently_confirmed c)\<rparr>"

definition aec_force_confirm :: "block_hash \<Rightarrow> timestamp \<Rightarrow> aec \<Rightarrow> aec option" where
  "aec_force_confirm h now c =
     (case rc_entry_for_block (ac_roots c) h of
        None \<Rightarrow> None
      | Some en \<Rightarrow>
          let (done, e) = el_force_confirm (en_election en);
              c = c\<lparr>ac_roots := rc_set_election (en_root en) e (ac_roots c)\<rparr>
          in Some (if done then notify (ElectionConfirmed (into_confirmed_election now ActiveConfirmedQuorum e)) c else c))"

definition aec_cancel :: "qualified_root \<Rightarrow> aec \<Rightarrow> aec" where
  "aec_cancel root c = with_election root el_cancel c"

section \<open>Applying votes\<close>

record quorum_specs =
  qs_online_weight :: amount
  qs_quorum_delta :: amount

definition cooldown_time :: "quorum_specs \<Rightarrow> amount \<Rightarrow> duration" where
  "cooldown_time q rep_weight =
     (if rep_weight > qs_online_weight q div 20 then from_secs 1
      else if rep_weight > qs_online_weight q div 100 then from_secs 5
      else from_secs 15)"

text \<open>\<^verbatim>\<open>FilteredVote\<close> and the other arguments.\<close>

record apply_vote_args =
  av_vote :: vote
  av_source :: vote_source
  av_filter :: block_hash
  av_rep_weights :: "(public_key, amount) table"
  av_quorum_specs :: quorum_specs
  av_now :: timestamp

definition filtered_blocks :: "apply_vote_args \<Rightarrow> block_hash list" where
  "filtered_blocks a = filter (\<lambda>h. if av_filter a = 0 then True else h = av_filter a) (vt_hashes (av_vote a))"

definition should_cool_down :: "apply_vote_args \<Rightarrow> vote_summary \<Rightarrow> amount \<Rightarrow> bool" where
  "should_cool_down a last_vote rep_weight =
     (if av_source a = Cache then False
      else if has_switched_to_final_vote last_vote (av_vote a) then False
      else elapsed (vs_received last_vote) (av_now a) < cooldown_time (av_quorum_specs a) rep_weight)"

definition confirm_if_quorum ::
    "public_key hash_order \<Rightarrow> apply_vote_args \<Rightarrow> election \<Rightarrow> aec \<Rightarrow> (election \<times> aec) option" where
  "confirm_if_quorum ord a e c = do {
     let old_winner = maybe_hash (el_winner e);
     e \<leftarrow> update_tallies ord (av_rep_weights a) (qs_quorum_delta (av_quorum_specs a)) e;
     let c = (if maybe_hash (el_winner e) \<noteq> old_winner
              then notify (WinnerChanged old_winner (maybe_block (el_winner e))) c else c);
     let c = (if el_is_final e \<and> el_is_confirmed e then
                notify (ElectionConfirmed (into_confirmed_election (av_now a) ActiveConfirmedQuorum e))
                  (c\<lparr>ac_recently_confirmed :=
                     snd (rcc_put (el_root e) (maybe_hash (el_winner e)) (ac_recently_confirmed c))\<rparr>)
              else c);
     Some (e, c)
   }"

definition apply_vote_to_election ::
    "public_key hash_order \<Rightarrow> apply_vote_args \<Rightarrow> block_hash \<Rightarrow> election \<Rightarrow> aec \<Rightarrow>
     ((vote_error + unit) \<times> election \<times> aec) option" where
  "apply_vote_to_election ord a h e c =
     (if el_is_confirmed e then Some (Inl VE_Late, e, c)
      else
        let v = av_vote a;
            rep_weight = unwrap_or_zero (tbl_get (av_rep_weights a) (vt_voter v));
            rejected = (case tbl_get (el_votes e) (vt_voter v) of
                None \<Rightarrow> None
              | Some last_vote \<Rightarrow>
                  (case ensure_no_replay last_vote v h of
                     Inl err \<Rightarrow> Some err
                   | Inr _ \<Rightarrow> if should_cool_down a last_vote rep_weight then Some VE_Ignored else None))
        in (case rejected of
              Some err \<Rightarrow> Some (Inl err, e, c)
            | None \<Rightarrow> do {
                (e, c) \<leftarrow> confirm_if_quorum ord a (el_add_vote (vt_voter v) h (vote_timestamp_of v) (av_now a) e) c;
                Some (Inr (), e, c)
              }))"

text \<open>The result per block and the entries of the confirmed elections.\<close>

type_synonym vote_results = "(block_hash, vote_error + unit) table"

fun apply_vote_blocks ::
    "public_key hash_order \<Rightarrow> apply_vote_args \<Rightarrow> block_hash list \<Rightarrow> vote_results \<Rightarrow> aec_entry list \<Rightarrow> aec \<Rightarrow>
     (vote_results \<times> aec_entry list \<times> aec) option" where
  "apply_vote_blocks ord a [] per_block confirmed c = Some (per_block, confirmed, c)"
| "apply_vote_blocks ord a (h # hs) per_block confirmed c =
     (if tbl_get per_block h \<noteq> None then apply_vote_blocks ord a hs per_block confirmed c
      else (case rc_entry_for_block (ac_roots c) h of
          Some en \<Rightarrow> do {
            (r, e, c) \<leftarrow> apply_vote_to_election ord a h (en_election en) c;
            let c = c\<lparr>ac_roots := rc_set_election (en_root en) e (ac_roots c)\<rparr>;
            let per_block = tbl_put h r per_block;
            (erased, rc) \<leftarrow> (if el_is_confirmed e then rc_erase (el_root e) (ac_roots c) else Some (None, ac_roots c));
            apply_vote_blocks ord a hs per_block
              (case erased of Some en \<Rightarrow> confirmed @ [en] | None \<Rightarrow> confirmed) (c\<lparr>ac_roots := rc\<rparr>)
          }
        | None \<Rightarrow>
            apply_vote_blocks ord a hs
              (tbl_put h (Inl (if hash_exists h (ac_recently_confirmed c) then VE_Late else VE_Indeterminate)) per_block)
              confirmed c))"

definition aec_apply_vote ::
    "public_key hash_order \<Rightarrow> apply_vote_args \<Rightarrow> aec \<Rightarrow> (vote_results \<times> aec) option" where
  "aec_apply_vote ord a c = do {
     (per_block, confirmed, c) \<leftarrow> apply_vote_blocks ord a (filtered_blocks a) fmempty [] c;
     c \<leftarrow> cleanup_all confirmed c;
     Some (per_block, c)
   }"

end
