(* ===== verification/Active_Inv.thy ===== *)
theory Active_Inv
  imports Active_Elections
begin

text \<open>
  The invariant of the container of active elections and that every operation keeps it: the
  buckets hold exactly the elections, in order; the vote router leads every candidate block to
  its election; the counters count the elections of each kind. It follows that no operation
  panics. Blocks are identified by their hash: a function \<open>root_of\<close> from hashes to
  qualified roots stands for the assumption that no two blocks that reach the container have
  the same hash and different roots.
\<close>

section \<open>Recently confirmed roots\<close>

definition rcc_inv :: "recently_confirmed_cache \<Rightarrow> bool" where
  "rcc_inv c \<longleftrightarrow>
     (\<forall>r h. tbl_get (rcc_by_root c) r = Some h \<longleftrightarrow> tbl_get (rcc_by_hash c) h = Some r) \<and>
     (\<forall>h. h \<in> set (rcc_sequential c) \<longleftrightarrow> tbl_get (rcc_by_hash c) h \<noteq> None) \<and>
     distinct (rcc_sequential c) \<and> length (rcc_sequential c) \<le> rcc_max_len c"

lemma rcc_new_inv: "rcc_inv (rcc_new n)"
  by (simp add: rcc_inv_def rcc_new_def)

lemma rcc_clear_inv: "rcc_inv (rcc_clear c)"
  by (simp add: rcc_inv_def rcc_clear_def)

lemma rcc_invD:
  assumes "rcc_inv c"
  shows "tbl_get (rcc_by_hash c) h = Some r \<Longrightarrow> tbl_get (rcc_by_hash c) k = Some r \<Longrightarrow> h = k"
    "tbl_get (rcc_by_root c) r = None \<Longrightarrow> tbl_get (rcc_by_hash c) h \<noteq> Some r"
    "tbl_get (rcc_by_root c) r = Some h \<longleftrightarrow> tbl_get (rcc_by_hash c) h = Some r"
  using assms unfolding rcc_inv_def by (metis option.inject, metis option.distinct(1), blast)

lemma rcc_erase_inv: "rcc_inv c \<Longrightarrow> rcc_inv (rcc_erase h c)"
  using rcc_invD(1) [of c h _] unfolding rcc_inv_def rcc_erase_def
  by (auto split: option.splits intro: order_trans [OF length_filter_le])

lemma rcc_put_inv:
  assumes "rcc_inv c"
  shows "rcc_inv (snd (rcc_put root h c))"
proof (cases "tbl_get (rcc_by_hash c) h = None \<and> tbl_get (rcc_by_root c) root = None")
  case True
  let ?c = "c\<lparr>rcc_sequential := rcc_sequential c @ [h], rcc_by_root := tbl_put root h (rcc_by_root c),
     rcc_by_hash := tbl_put h root (rcc_by_hash c)\<rparr>"
  obtain old rest where old: "rcc_sequential c @ [h] = old # rest" by (cases "rcc_sequential c @ [h]") auto
  have all: "tbl_get (rcc_by_root ?c) r = Some k \<longleftrightarrow> tbl_get (rcc_by_hash ?c) k = Some r" for r k
    using rcc_invD(2,3) [OF assms] True by (cases "r = root"; cases "k = h") auto
  have seq: "k \<in> set (old # rest) \<longleftrightarrow> tbl_get (rcc_by_hash ?c) k \<noteq> None" for k
    using assms unfolding rcc_inv_def old [symmetric] by auto
  have dist: "distinct (old # rest)" using assms True unfolding rcc_inv_def old [symmetric] by auto
  obtain r where r: "tbl_get (rcc_by_hash ?c) old = Some r" using seq [of old] by auto
  have len: "length rest \<le> rcc_max_len c" using assms arg_cong [OF old, of length] unfolding rcc_inv_def by simp
  show ?thesis
  proof (cases "length (old # rest) > rcc_max_len c")
    case False
    then show ?thesis using True old all seq dist by (simp add: rcc_put_def rcc_inv_def)
  next
    case over: True
    then have "snd (rcc_put root h c) = ?c\<lparr>rcc_sequential := rest, rcc_by_hash := fmdrop old (rcc_by_hash ?c),
        rcc_by_root := fmdrop r (rcc_by_root ?c)\<rparr>"
      using True old r by (simp add: rcc_put_def)
    moreover have "tbl_get (fmdrop r (rcc_by_root ?c)) s = Some k \<longleftrightarrow> tbl_get (fmdrop old (rcc_by_hash ?c)) k = Some s" for s k
      using all [of s k] all [of r old] all [of s old] all [of r k] r by auto
    moreover have "k \<in> set rest \<longleftrightarrow> tbl_get (fmdrop old (rcc_by_hash ?c)) k \<noteq> None" for k
      using seq [of k] dist by auto
    ultimately show ?thesis using dist len by (simp add: rcc_inv_def)
  qed
next
  case False
  then have "snd (rcc_put root h c) = c" by (auto simp: rcc_put_def)
  then show ?thesis using assms by simp
qed

section \<open>Buckets\<close>

definition buckets_ok :: "(qualified_root, aec_entry) table \<Rightarrow> bucket_entry list list \<Rightarrow> bool" where
  "buckets_ok m bs \<longleftrightarrow> length bs = bucket_count \<and> (\<forall>b\<in>set bs. sorted b \<and> distinct b) \<and>
     (\<forall>i<bucket_count. \<forall>x. x \<in> set (bs ! i) \<longleftrightarrow>
        (\<exists>en. tbl_get m (be_root x) = Some en \<and> en_priority en = be_priority x \<and> entry_bucket en = Some i))"

lemma buckets_okD:
  assumes "buckets_ok m bs"
  shows "length bs = bucket_count" "i < bucket_count \<Longrightarrow> sorted (bs ! i)" "i < bucket_count \<Longrightarrow> distinct (bs ! i)"
    "i < bucket_count \<Longrightarrow> x \<in> set (bs ! i) \<longleftrightarrow>
      (\<exists>en. tbl_get m (be_root x) = Some en \<and> en_priority en = be_priority x \<and> entry_bucket en = Some i)"
  using assms unfolding buckets_ok_def by auto

lemma entry_bucket_total: "\<exists>i. entry_bucket en = Some i \<and> i < bucket_count"
  using bucket_index_total by (simp add: entry_bucket_def)

lemma buckets_ok_empty: "buckets_ok fmempty (replicate bucket_count [])"
  by (simp add: buckets_ok_def)

text \<open>Only priority and bucket of the entries matter.\<close>

lemma buckets_ok_cong:
  assumes "buckets_ok m bs"
    "\<And>r. map_option (\<lambda>en. (en_priority en, entry_bucket en)) (tbl_get m' r) =
      map_option (\<lambda>en. (en_priority en, entry_bucket en)) (tbl_get m r)"
  shows "buckets_ok m' bs"
proof -
  have "(\<exists>en. tbl_get m' r = Some en \<and> en_priority en = p \<and> entry_bucket en = Some i) \<longleftrightarrow>
      (\<exists>en. tbl_get m r = Some en \<and> en_priority en = p \<and> entry_bucket en = Some i)" for r p i
    using assms(2) [of r] by (cases "tbl_get m r"; cases "tbl_get m' r") auto
  then show ?thesis using assms(1) by (simp add: buckets_ok_def)
qed

lemma set_bucket_update:
  "i < length bs \<Longrightarrow> j < length bs \<Longrightarrow> set (bs[i := b] ! j) = (if i = j then set b else set (bs ! j))"
  by simp

lemma buckets_insert:
  assumes ok: "buckets_ok m bs" and new: "tbl_get m (en_root en) = None" and i: "entry_bucket en = Some i"
  shows "buckets_ok (tbl_put (en_root en) en m)
    (bs[i := insort_insert (BucketEntry (en_root en) (en_priority en)) (bs ! i)])"
proof -
  note B = buckets_okD [OF ok]
  have lt: "i < bucket_count" using entry_bucket_total [of en] i by auto
  have "sorted b \<and> distinct b"
    if "b \<in> set (bs[i := insort_insert (BucketEntry (en_root en) (en_priority en)) (bs ! i)])" for b
    using that ok B(2,3) lt unfolding buckets_ok_def
    by (auto simp: sorted_insort_insert distinct_insort_insert dest!: set_update_subset_insert [THEN subsetD])
  moreover have "x \<in> set (bs[i := insort_insert (BucketEntry (en_root en) (en_priority en)) (bs ! i)] ! j) \<longleftrightarrow>
    (\<exists>en'. tbl_get (tbl_put (en_root en) en m) (be_root x) = Some en' \<and> en_priority en' = be_priority x \<and>
      entry_bucket en' = Some j)" if "j < bucket_count" for j x
    using B(1) B(4) [OF that, of x] lt that new i
    by (cases x) (auto simp: set_bucket_update set_insort_insert)
  ultimately show ?thesis using B(1) by (simp add: buckets_ok_def)
qed

lemma buckets_drop:
  assumes ok: "buckets_ok m bs" and old: "tbl_get m r = Some en" and i: "entry_bucket en = Some i"
  shows "buckets_ok (fmdrop r m) (bs[i := remove1 (BucketEntry r (en_priority en)) (bs ! i)])"
proof -
  note B = buckets_okD [OF ok]
  have lt: "i < bucket_count" using entry_bucket_total [of en] i by auto
  have "sorted b \<and> distinct b" if "b \<in> set (bs[i := remove1 (BucketEntry r (en_priority en)) (bs ! i)])" for b
    using that ok B(2,3) lt unfolding buckets_ok_def
    by (auto simp: sorted_remove1 dest!: set_update_subset_insert [THEN subsetD])
  moreover have "x \<in> set (bs[i := remove1 (BucketEntry r (en_priority en)) (bs ! i)] ! j) \<longleftrightarrow>
    (\<exists>en'. tbl_get (fmdrop r m) (be_root x) = Some en' \<and> en_priority en' = be_priority x \<and>
      entry_bucket en' = Some j)" if "j < bucket_count" for j x
    using B(1) B(3) [OF lt] B(4) [OF that, of x] lt that old i
    by (cases x) (auto simp: set_bucket_update)
  ultimately show ?thesis using B(1) by (simp add: buckets_ok_def)
qed

section \<open>Entries and routes\<close>

abbreviation entry_hashes :: "aec_entry \<Rightarrow> block_hash set" where
  "entry_hashes en \<equiv> candidate_hashes (en_election en)"

definition entry_ok :: "(block_hash \<Rightarrow> qualified_root) \<Rightarrow> qualified_root \<Rightarrow> aec_entry \<Rightarrow> bool" where
  "entry_ok root_of r en \<longleftrightarrow> en_root en = r \<and> el_root (en_election en) = r \<and> election_inv (en_election en) \<and>
     (\<forall>h\<in>entry_hashes en. root_of h = r)"

text \<open>Every candidate is routed to its election; the routes are exact if there are no others.\<close>

definition routed :: "(qualified_root, aec_entry) table \<Rightarrow> (block_hash, qualified_root) table \<Rightarrow> bool" where
  "routed m routes \<longleftrightarrow> (\<forall>r en h. tbl_get m r = Some en \<and> h \<in> entry_hashes en \<longrightarrow> tbl_get routes h = Some r)"

definition routes_exact :: "(qualified_root, aec_entry) table \<Rightarrow> (block_hash, qualified_root) table \<Rightarrow> bool" where
  "routes_exact m routes \<longleftrightarrow>
     (\<forall>h r. tbl_get routes h = Some r \<longrightarrow> (\<exists>en. tbl_get m r = Some en \<and> h \<in> entry_hashes en))"

definition rc_inv :: "(block_hash \<Rightarrow> qualified_root) \<Rightarrow> root_container \<Rightarrow> bool" where
  "rc_inv root_of rc \<longleftrightarrow> (\<forall>r en. tbl_get (rc_by_root rc) r = Some en \<longrightarrow> entry_ok root_of r en) \<and>
     routed (rc_by_root rc) (rc_vote_router rc) \<and> buckets_ok (rc_by_root rc) (rc_buckets rc)"

abbreviation rc_exact :: "root_container \<Rightarrow> bool" where
  "rc_exact rc \<equiv> routes_exact (rc_by_root rc) (rc_vote_router rc)"

lemma rc_invD:
  assumes "rc_inv root_of rc"
  shows "tbl_get (rc_by_root rc) r = Some en \<Longrightarrow> entry_ok root_of r en"
    "routed (rc_by_root rc) (rc_vote_router rc)" "buckets_ok (rc_by_root rc) (rc_buckets rc)"
  using assms unfolding rc_inv_def by blast+

lemma entry_okD:
  assumes "entry_ok root_of r en"
  shows "en_root en = r" "el_root (en_election en) = r" "election_inv (en_election en)"
    "h \<in> entry_hashes en \<Longrightarrow> root_of h = r"
  using assms unfolding entry_ok_def by blast+

lemma root_container_default_inv: "rc_inv root_of root_container_default" "rc_exact root_container_default"
  by (simp_all add: rc_inv_def root_container_default_def routed_def routes_exact_def buckets_ok_empty)

lemma update_bucket_eq:
  assumes "buckets_ok m (rc_buckets rc)" "i < bucket_count"
  shows "update_bucket i f rc = Some (rc\<lparr>rc_buckets := (rc_buckets rc)[i := f (rc_buckets rc ! i)]\<rparr>)"
  using buckets_okD(1) [OF assms(1)] assms(2) by (simp add: update_bucket_def)

text \<open>The election of an entry may change as long as candidates and kind stay.\<close>

lemma rc_set_election_inv:
  assumes inv: "rc_inv root_of rc" and en: "tbl_get (rc_by_root rc) r = Some en"
    and e: "election_inv e" "el_root e = r" "candidate_hashes e = entry_hashes en"
      "el_behavior e = el_behavior (en_election en)"
  shows "rc_inv root_of (rc_set_election r e rc)"
    "rc_exact rc \<Longrightarrow> rc_exact (rc_set_election r e rc)"
    "rc_by_root (rc_set_election r e rc) = tbl_put r (en\<lparr>en_election := e\<rparr>) (rc_by_root rc)"
proof -
  note I = rc_invD [OF inv]
  let ?m = "tbl_put r (en\<lparr>en_election := e\<rparr>) (rc_by_root rc)"
  have rc: "rc_set_election r e rc = rc\<lparr>rc_by_root := ?m\<rparr>" using en by (simp add: rc_set_election_def)
  have "entry_ok root_of k x" if "tbl_get ?m k = Some x" for k x
    using that I(1) [of k x] entry_okD [OF I(1) [OF en]] e by (auto simp: entry_ok_def split: if_splits)
  moreover have "routed ?m (rc_vote_router rc)"
    using I(2) en e(3) by (auto simp: routed_def)
  moreover have "buckets_ok ?m (rc_buckets rc)"
    by (rule buckets_ok_cong [OF I(3)]) (use en e(4) in \<open>auto simp: entry_bucket_def\<close>)
  ultimately show "rc_inv root_of (rc_set_election r e rc)" by (simp add: rc rc_inv_def)
  show "rc_exact (rc_set_election r e rc)" if "rc_exact rc"
    using that en e(3) by (fastforce simp: rc routes_exact_def)
  show "rc_by_root (rc_set_election r e rc) = ?m" by (simp add: rc)
qed

lemma rc_insert_ok:
  assumes inv: "rc_inv root_of rc" and new: "tbl_get (rc_by_root rc) (en_root en) = None"
    and ok: "entry_ok root_of (en_root en) en" and one: "entry_hashes en = {maybe_hash (el_winner (en_election en))}"
  obtains rc' where "rc_insert en rc = Some rc'" "rc_inv root_of rc'"
    "rc_by_root rc' = tbl_put (en_root en) en (rc_by_root rc)" "rc_exact rc \<Longrightarrow> rc_exact rc'"
proof -
  note I = rc_invD [OF inv]
  obtain i where i: "entry_bucket en = Some i" "i < bucket_count" using entry_bucket_total by blast
  let ?h = "maybe_hash (el_winner (en_election en))"
  let ?m = "tbl_put (en_root en) en (rc_by_root rc)" and ?r = "tbl_put ?h (en_root en) (rc_vote_router rc)"
  let ?b = "(rc_buckets rc)[i := insort_insert (BucketEntry (en_root en) (en_priority en)) (rc_buckets rc ! i)]"
  let ?rc = "rc\<lparr>rc_buckets := ?b, rc_by_root := ?m, rc_vote_router := ?r\<rparr>"
  have other: "?h \<notin> entry_hashes x" if "tbl_get (rc_by_root rc) k = Some x" for k x
    using entry_okD(4) [OF I(1) [OF that], of ?h] entry_okD(4) [OF ok, of ?h] that new by (auto simp: one)
  have "rc_insert en rc = Some ?rc"
    using i by (simp add: rc_insert_def update_bucket_eq [OF I(3)] connect_def)
  moreover have "entry_ok root_of k x" if "tbl_get ?m k = Some x" for k x
    using that I(1) ok by (auto split: if_splits)
  moreover have "routed ?m ?r"
    using I(2) one other by (auto simp: routed_def)
  moreover have "buckets_ok ?m ?b" by (rule buckets_insert [OF I(3) new i(1)])
  moreover have "routes_exact ?m ?r" if "rc_exact rc"
    using that one new by (fastforce simp: routes_exact_def)
  ultimately show thesis using that [of ?rc] by (simp add: rc_inv_def)
qed

lemma disconnect_election_eq:
  "disconnect_election e rc = rc\<lparr>rc_vote_router := fmfilter (\<lambda>h. h \<notin> candidate_hashes e) (rc_vote_router rc)\<rparr>"
proof -
  have "fold disconnect hs rc = rc\<lparr>rc_vote_router := fmfilter (\<lambda>h. h \<notin> set hs) (rc_vote_router rc)\<rparr>" for hs
  proof (induction hs arbitrary: rc)
    case (Cons h hs)
    have "fmfilter (\<lambda>k. k \<notin> set hs) (fmdrop h (rc_vote_router rc)) = fmfilter (\<lambda>k. k \<notin> set (h # hs)) (rc_vote_router rc)"
      by (rule fmap_ext) auto
    moreover have "rc_vote_router (disconnect h rc) = fmdrop h (rc_vote_router rc)"
      "disconnect h rc\<lparr>rc_vote_router := f\<rparr> = rc\<lparr>rc_vote_router := f\<rparr>" for f by (simp_all add: disconnect_def)
    ultimately show ?case using Cons.IH [of "disconnect h rc"] by simp
  qed simp
  moreover have "set (map fst (tbl_entries (el_candidates e))) = candidate_hashes e"
    using lmdb.entries_get [of _ _ "el_candidates e"] by (force simp: fmlookup_dom'_iff)
  ultimately show ?thesis by (simp add: disconnect_election_def)
qed

lemma rc_erase_ok:
  assumes inv: "rc_inv root_of rc"
  obtains rc' where "rc_erase r rc = Some (tbl_get (rc_by_root rc) r, rc')" "rc_inv root_of rc'"
    "rc_by_root rc' = fmdrop r (rc_by_root rc)" "rc_exact rc \<Longrightarrow> rc_exact rc'"
proof (cases "tbl_get (rc_by_root rc) r")
  case None
  then have "fmdrop r (rc_by_root rc) = rc_by_root rc" by (intro fmap_ext) auto
  then show thesis using that [of rc] None inv by (simp add: rc_erase_def)
next
  case (Some en)
  note I = rc_invD [OF inv]
  note E = entry_okD [OF I(1) [OF Some]]
  obtain i where i: "entry_bucket en = Some i" "i < bucket_count" using entry_bucket_total by blast
  let ?m = "fmdrop r (rc_by_root rc)" and ?r = "fmfilter (\<lambda>h. h \<notin> entry_hashes en) (rc_vote_router rc)"
  let ?b = "(rc_buckets rc)[i := remove1 (BucketEntry r (en_priority en)) (rc_buckets rc ! i)]"
  let ?rc = "rc\<lparr>rc_by_root := ?m, rc_vote_router := ?r, rc_buckets := ?b\<rparr>"
  have other: "h \<notin> entry_hashes en" if "tbl_get ?m k = Some x" "h \<in> entry_hashes x" for k x h
    using that I(1) [of k x] E(4) [of h] by (auto dest!: entry_okD(4) split: if_splits)
  have rc: "disconnect_election (en_election en) (rc\<lparr>rc_by_root := ?m\<rparr>) = rc\<lparr>rc_by_root := ?m, rc_vote_router := ?r\<rparr>"
    by (simp add: disconnect_election_eq)
  have "rc_erase r rc = Some (Some en, ?rc)"
    using Some i E(1) by (simp add: rc_erase_def rc update_bucket_def buckets_okD(1) [OF I(3)])
  moreover have "routed ?m ?r"
    unfolding routed_def
  proof (intro allI impI, elim conjE)
    fix k x h assume x: "tbl_get ?m k = Some x" "h \<in> entry_hashes x"
    then have "tbl_get (rc_by_root rc) k = Some x" by (simp split: if_splits)
    then have "tbl_get (rc_vote_router rc) h = Some k" using I(2) x(2) unfolding routed_def by blast
    then show "tbl_get ?r h = Some k" using other [OF x] by simp
  qed
  moreover have "buckets_ok ?m ?b" by (rule buckets_drop [OF I(3) Some i(1)])
  moreover have "routes_exact ?m ?r" if "rc_exact rc"
    using that Some by (fastforce simp: routes_exact_def)
  ultimately show thesis using that [of ?rc] Some I(1) by (simp add: rc_inv_def)
qed

text \<open>A hinted or optimistic election becomes a priority election and changes its bucket.\<close>

lemma rc_upgrade_step:
  assumes inv: "rc_inv root_of rc" and r: "r = qualified_root_of (svb_block (rq_block rq))"
    and en: "tbl_get (rc_by_root rc) r = Some en" "rq_behavior rq = Priority" "el_behavior (en_election en) \<notin> {Priority, Manual}"
  obtains rc' where "try_upgrade_to_priority_election rq rc = Some ((True, Some (el_behavior (en_election en))), rc')"
    "rc_inv root_of rc'" "rc_exact rc \<Longrightarrow> rc_exact rc'"
    "rc_by_root rc' = tbl_put r (en\<lparr>en_election := (en_election en)\<lparr>el_behavior := Priority\<rparr>\<rparr>) (rc_by_root rc)"
proof -
  note I = rc_invD [OF inv]
  note E = entry_okD [OF I(1) [OF en(1)]]
  let ?en = "en\<lparr>en_election := (en_election en)\<lparr>el_behavior := Priority\<rparr>\<rparr>" and ?x = "BucketEntry r (en_priority en)"
  obtain i where i: "entry_bucket en = Some i" "i < bucket_count" using entry_bucket_total by blast
  obtain j where j: "entry_bucket ?en = Some j" "j < bucket_count" using entry_bucket_total by blast
  let ?b = "(rc_buckets rc)[i := remove1 ?x (rc_buckets rc ! i)]"
  let ?b' = "?b[j := insort_insert ?x (?b ! j)]" and ?m = "tbl_put r ?en (rc_by_root rc)"
  let ?rc = "rc\<lparr>rc_by_root := ?m, rc_buckets := ?b'\<rparr>"
  have d: "buckets_ok (fmdrop r (rc_by_root rc)) ?b" by (rule buckets_drop [OF I(3) en(1) i(1)])
  have m: "tbl_put r ?en (fmdrop r (rc_by_root rc)) = ?m" by (rule fmap_ext) auto
  have "buckets_ok ?m ?b'" using buckets_insert [OF d, of ?en j] j E(1) by (simp add: m)
  moreover have "entry_ok root_of k x" if "tbl_get ?m k = Some x" for k x
    using that I(1) [of k x] E election_inv_cong [OF E(3), of "en_election ?en"]
    by (auto simp: entry_ok_def split: if_splits)
  moreover have "routed ?m (rc_vote_router rc)" using I(2) en(1) by (auto simp: routed_def)
  ultimately have inv': "rc_inv root_of ?rc" by (simp add: rc_inv_def)
  have eq: "try_upgrade_to_priority_election rq rc = Some ((True, Some (el_behavior (en_election en))), ?rc)"
    using en i j buckets_okD(1) [OF I(3)]
    by (simp add: r [symmetric] try_upgrade_to_priority_election_def maybe_upgrade_to_def rc_set_election_def
        update_bucket_def entry_bucket_def)
  have "rc_exact ?rc" if "rc_exact rc"
    using that en(1) by (fastforce simp: routes_exact_def)
  then show thesis by (intro that [OF eq inv']) simp_all
qed

lemma rc_upgrade_ok:
  assumes inv: "rc_inv root_of rc" and r: "r = qualified_root_of (svb_block (rq_block rq))"
  obtains (none) "tbl_get (rc_by_root rc) r = None" "try_upgrade_to_priority_election rq rc = Some ((False, None), rc)"
  | (duplicate) en where "tbl_get (rc_by_root rc) r = Some en"
      "rq_behavior rq \<noteq> Priority \<or> el_behavior (en_election en) \<in> {Priority, Manual}"
      "try_upgrade_to_priority_election rq rc = Some ((False, Some (el_behavior (en_election en))), rc)"
  | (upgraded) en rc' where "tbl_get (rc_by_root rc) r = Some en" "rq_behavior rq = Priority"
      "el_behavior (en_election en) \<notin> {Priority, Manual}"
      "try_upgrade_to_priority_election rq rc = Some ((True, Some (el_behavior (en_election en))), rc')"
      "rc_inv root_of rc'" "rc_exact rc \<Longrightarrow> rc_exact rc'"
      "rc_by_root rc' = tbl_put r (en\<lparr>en_election := (en_election en)\<lparr>el_behavior := Priority\<rparr>\<rparr>) (rc_by_root rc)"
proof (cases "tbl_get (rc_by_root rc) r")
  case None
  then show thesis using none by (simp add: r try_upgrade_to_priority_election_def)
next
  case (Some en)
  show thesis
  proof (cases "rq_behavior rq \<noteq> Priority \<or> el_behavior (en_election en) \<in> {Priority, Manual}")
    case True
    have "tbl_put r en (rc_by_root rc) = rc_by_root rc" by (rule fmap_ext) (simp add: Some)
    then have id: "rc_set_election r (en_election en) rc = rc" using Some by (simp add: rc_set_election_def)
    have "try_upgrade_to_priority_election rq rc = Some ((False, Some (el_behavior (en_election en))), rc)"
      using True Some id by (auto simp: r [symmetric] try_upgrade_to_priority_election_def maybe_upgrade_to_def Let_def)
    then show thesis by (rule duplicate [OF Some True])
  next
    case False
    then have b: "rq_behavior rq = Priority" "el_behavior (en_election en) \<notin> {Priority, Manual}" by auto
    show thesis by (rule rc_upgrade_step [OF inv r Some b]) (rule upgraded [OF Some b])
  qed
qed

section \<open>The container\<close>

abbreviation entry_kind :: "aec_entry \<Rightarrow> election_behavior" where
  "entry_kind en \<equiv> el_behavior (en_election en)"

text \<open>The kinds of all elections, with their multiplicity.\<close>

definition kinds :: "(qualified_root, aec_entry) table \<Rightarrow> election_behavior multiset" where
  "kinds m = image_mset (\<lambda>r. entry_kind (the (tbl_get m r))) (mset_set (fmdom' m))"

lemma kinds_empty [simp]: "kinds fmempty = {#}"
  by (simp add: kinds_def)

lemma kinds_put_new:
  assumes "tbl_get m r = None"
  shows "kinds (tbl_put r en m) = add_mset (entry_kind en) (kinds m)"
proof -
  have "r \<notin> fmdom' m" using assms by (simp add: fmlookup_dom'_iff)
  then have "image_mset (\<lambda>k. entry_kind (the (tbl_get (tbl_put r en m) k))) (mset_set (fmdom' m)) = kinds m"
    unfolding kinds_def by (intro image_mset_cong) auto
  then show ?thesis using \<open>r \<notin> fmdom' m\<close> by (simp add: kinds_def)
qed

lemma kinds_drop:
  assumes "tbl_get m r = Some en"
  shows "kinds m = add_mset (entry_kind en) (kinds (fmdrop r m))"
proof -
  have "m = tbl_put r en (fmdrop r m)" by (rule fmap_ext) (use assms in auto)
  then show ?thesis using kinds_put_new [of "fmdrop r m" r en] by simp
qed

lemma kinds_update:
  assumes "tbl_get m r = Some en"
  shows "kinds (tbl_put r en' m) = add_mset (entry_kind en') (kinds (fmdrop r m))"
proof -
  have "tbl_put r en' m = tbl_put r en' (fmdrop r m)" by (rule fmap_ext) auto
  then show ?thesis using kinds_put_new [of "fmdrop r m" r en'] by simp
qed

lemma kinds_map:
  assumes "\<And>en. entry_kind (f en) = entry_kind en"
  shows "kinds (fmmap f m) = kinds m"
proof -
  have "fmdom' (fmmap f m) = fmdom' m" by (auto simp: fmlookup_dom'_iff)
  then show ?thesis unfolding kinds_def by (auto intro!: image_mset_cong simp: assms fmlookup_dom'_iff)
qed

text \<open>
  The invariant, for a container whose counters still count the erased elections of a list.
  After a stop no election is left, but routes and counters are not reset.
\<close>

definition aec_inv :: "(block_hash \<Rightarrow> qualified_root) \<Rightarrow> aec_entry list \<Rightarrow> aec \<Rightarrow> bool" where
  "aec_inv root_of pending c \<longleftrightarrow> rc_inv root_of (ac_roots c) \<and> rcc_inv (ac_recently_confirmed c) \<and>
     (ac_stopped c \<longrightarrow> rc_by_root (ac_roots c) = fmempty) \<and>
     (\<forall>b. count (kinds (rc_by_root (ac_roots c)) + mset (map entry_kind pending)) b \<le> ac_count c b) \<and>
     (\<not> ac_stopped c \<longrightarrow> rc_exact (ac_roots c) \<and>
        (\<forall>b. count (kinds (rc_by_root (ac_roots c)) + mset (map entry_kind pending)) b = ac_count c b))"

lemma aec_invD:
  assumes "aec_inv root_of pending c"
  shows "rc_inv root_of (ac_roots c)" "rcc_inv (ac_recently_confirmed c)"
    "ac_stopped c \<Longrightarrow> rc_by_root (ac_roots c) = fmempty" "\<not> ac_stopped c \<Longrightarrow> rc_exact (ac_roots c)"
    "count (kinds (rc_by_root (ac_roots c)) + mset (map entry_kind pending)) b \<le> ac_count c b"
    "\<not> ac_stopped c \<Longrightarrow> count (kinds (rc_by_root (ac_roots c)) + mset (map entry_kind pending)) b = ac_count c b"
  using assms unfolding aec_inv_def by blast+

lemma notify_simps [simp]:
  "ac_roots (notify ev c) = ac_roots c" "ac_stopped (notify ev c) = ac_stopped c" "ac_count (notify ev c) = ac_count c"
  "ac_recently_confirmed (notify ev c) = ac_recently_confirmed c" "ac_observer (notify ev c) = ac_observer c"
  "ac_base_latency (notify ev c) = ac_base_latency c" "ac_cooldown (notify ev c) = ac_cooldown c"
  "ac_events (notify ev c) = ac_events c @ (if ac_observer c then [ev] else [])"
  by (simp_all add: notify_def)

lemma aec_inv_cong:
  assumes "aec_inv root_of pending c" "ac_roots c' = ac_roots c" "ac_stopped c' = ac_stopped c" "ac_count c' = ac_count c"
    "rcc_inv (ac_recently_confirmed c')"
  shows "aec_inv root_of pending c'"
  using assms by (simp add: aec_inv_def)

lemma notify_inv [simp]: "aec_inv root_of pending (notify ev c) = aec_inv root_of pending c"
  by (simp add: aec_inv_def)

lemma aec_new_inv: "aec_inv root_of [] (aec_new n k l)"
  by (simp add: aec_inv_def aec_new_def root_container_default_inv rcc_new_inv)
    (simp add: root_container_default_def)

text \<open>A change of the roots that keeps the kinds.\<close>

lemma aec_inv_roots:
  assumes "aec_inv root_of pending c" "rc_inv root_of rc" "rc_exact (ac_roots c) \<Longrightarrow> rc_exact rc"
    "kinds (rc_by_root rc) = kinds (rc_by_root (ac_roots c))"
    "rc_by_root (ac_roots c) = fmempty \<Longrightarrow> rc_by_root rc = fmempty"
  shows "aec_inv root_of pending (c\<lparr>ac_roots := rc\<rparr>)"
  using assms by (simp add: aec_inv_def)

lemma aec_set_election_inv:
  assumes inv: "aec_inv root_of pending c" and en: "tbl_get (rc_by_root (ac_roots c)) r = Some en"
    and e: "election_inv e" "el_root e = r" "candidate_hashes e = entry_hashes en" "el_behavior e = entry_kind en"
  shows "aec_inv root_of pending (c\<lparr>ac_roots := rc_set_election r e (ac_roots c)\<rparr>)"
proof (rule aec_inv_roots [OF inv])
  note R = rc_set_election_inv [OF aec_invD(1) [OF inv] en e]
  show "rc_inv root_of (rc_set_election r e (ac_roots c))" by (rule R(1))
  show "rc_exact (rc_set_election r e (ac_roots c))" if "rc_exact (ac_roots c)" by (rule R(2) [OF that])
  show "kinds (rc_by_root (rc_set_election r e (ac_roots c))) = kinds (rc_by_root (ac_roots c))"
    using kinds_update [OF en, of "en\<lparr>en_election := e\<rparr>"] kinds_drop [OF en] e(4) by (simp add: R(3))
  show "rc_by_root (ac_roots c) = fmempty \<Longrightarrow> rc_by_root (rc_set_election r e (ac_roots c)) = fmempty"
    using en by auto
qed

text \<open>Operations on one election that keep its candidates and its kind.\<close>

definition keeps_election :: "(election \<Rightarrow> election) \<Rightarrow> bool" where
  "keeps_election f \<longleftrightarrow> (\<forall>e. election_inv e \<longrightarrow> election_inv (f e) \<and> el_root (f e) = el_root e \<and>
     candidate_hashes (f e) = candidate_hashes e \<and> el_behavior (f e) = el_behavior e)"

lemma keeps_electionD:
  assumes "keeps_election f" "election_inv e"
  shows "election_inv (f e)" "el_root (f e) = el_root e" "candidate_hashes (f e) = candidate_hashes e"
    "el_behavior (f e) = el_behavior e"
  using assms unfolding keeps_election_def by blast+

lemma with_election_inv:
  assumes "aec_inv root_of pending c" "keeps_election f"
  shows "aec_inv root_of pending (with_election r f c)"
proof (cases "tbl_get (rc_by_root (ac_roots c)) r")
  case None
  then show ?thesis using assms by (simp add: with_election_def)
next
  case (Some en)
  note E = entry_okD [OF rc_invD(1) [OF aec_invD(1) [OF assms(1)] Some]]
  note K = keeps_electionD [OF assms(2) E(3)]
  show ?thesis
    using aec_set_election_inv [OF assms(1) Some K(1) _ K(3,4)] Some E(2) K(2) by (simp add: with_election_def)
qed

lemma keeps_election_ops:
  "keeps_election (voted t now)" "keeps_election (el_transition_time now)" "keeps_election el_cancel"
  "keeps_election el_transition_active" "keeps_election (\<lambda>e. snd (el_force_confirm e))"
  "keeps_election (el_remove_vote k)"
  unfolding keeps_election_def
  using election_inv_simple_ops el_remove_vote_inv
  by (auto simp: voted_def el_transition_time_def el_cancel_def el_transition_active_def el_force_confirm_def
      el_remove_vote_def Let_def split: vote_type.splits)

lemma keeps_election_fold: "(\<And>x. x \<in> set xs \<Longrightarrow> keeps_election (f x)) \<Longrightarrow> keeps_election (fold f xs)"
  by (induction xs) (auto simp: keeps_election_def)

end
