(* ===== verification/Active_Ops.thy ===== *)
theory Active_Ops
  imports Active_Inv
begin

text \<open>
  Every operation of the container of active elections returns and keeps the invariant, and
  what it does to the elections.
\<close>

section \<open>Erasing elections\<close>

lemma aec_inv_perm: "mset ps = mset qs \<Longrightarrow> aec_inv root_of ps c = aec_inv root_of qs c"
  by (simp add: aec_inv_def)

lemma cleanup_election_ok:
  assumes "aec_inv root_of (en # pending) c"
  obtains c' where "cleanup_election en c = Some c'" "aec_inv root_of pending c'" "ac_roots c' = ac_roots c"
    "ac_recently_confirmed c' = ac_recently_confirmed c" "ac_stopped c' = ac_stopped c" "ac_observer c' = ac_observer c"
    "ac_events c' = ac_events c @ (if ac_observer c then [AecElectionEnded (en_election en)] else [])"
proof -
  let ?k = "entry_kind en"
  have pos: "ac_count c ?k \<noteq> 0" using aec_invD(5) [OF assms, of ?k] by simp
  let ?c = "c\<lparr>ac_count := (ac_count c)(?k := ac_count c ?k - 1)\<rparr>"
  have cnt: "count (kinds (rc_by_root (ac_roots c)) + mset (map entry_kind (en # pending))) b =
      count (kinds (rc_by_root (ac_roots c)) + mset (map entry_kind pending)) b + (if b = ?k then 1 else 0)" for b by simp
  have "aec_inv root_of pending ?c"
    using assms pos unfolding aec_inv_def cnt by (auto split: if_splits)
  moreover have "cleanup_election en c = Some (notify (AecElectionEnded (en_election en)) ?c)"
    using pos by (simp add: cleanup_election_def count_dec_def)
  ultimately show thesis using that by simp
qed

lemma cleanup_all_ok:
  assumes "aec_inv root_of (ens @ pending) c"
  obtains c' where "cleanup_all ens c = Some c'" "aec_inv root_of pending c'" "ac_roots c' = ac_roots c"
    "ac_recently_confirmed c' = ac_recently_confirmed c" "ac_stopped c' = ac_stopped c" "ac_observer c' = ac_observer c"
    "ac_events c' = ac_events c @ (if ac_observer c then map (\<lambda>en. AecElectionEnded (en_election en)) ens else [])"
  using assms
proof (induction ens arbitrary: c thesis)
  case Nil
  then show ?case by simp
next
  case (Cons en ens)
  obtain d where d: "cleanup_election en c = Some d" "aec_inv root_of (ens @ pending) d" "ac_roots d = ac_roots c"
    "ac_recently_confirmed d = ac_recently_confirmed c" "ac_stopped d = ac_stopped c" "ac_observer d = ac_observer c"
    "ac_events d = ac_events c @ (if ac_observer c then [AecElectionEnded (en_election en)] else [])"
    using Cons.prems(2) by (auto elim: cleanup_election_ok)
  obtain e where "cleanup_all ens d = Some e" "aec_inv root_of pending e" "ac_roots e = ac_roots d"
    "ac_recently_confirmed e = ac_recently_confirmed d" "ac_stopped e = ac_stopped d" "ac_observer e = ac_observer d"
    "ac_events e = ac_events d @ (if ac_observer d then map (\<lambda>en. AecElectionEnded (en_election en)) ens else [])"
    by (rule Cons.IH [OF _ d(2)])
  then show ?case using Cons.prems(1) [of e] d by simp
qed

lemma aec_erase_root:
  assumes inv: "aec_inv root_of pending c"
  obtains rc where "rc_erase r (ac_roots c) = Some (tbl_get (rc_by_root (ac_roots c)) r, rc)"
    "rc_by_root rc = fmdrop r (rc_by_root (ac_roots c))"
    "aec_inv root_of (case tbl_get (rc_by_root (ac_roots c)) r of Some en \<Rightarrow> en # pending | None \<Rightarrow> pending)
      (c\<lparr>ac_roots := rc\<rparr>)"
proof -
  obtain rc where rc: "rc_erase r (ac_roots c) = Some (tbl_get (rc_by_root (ac_roots c)) r, rc)" "rc_inv root_of rc"
    "rc_by_root rc = fmdrop r (rc_by_root (ac_roots c))" "rc_exact (ac_roots c) \<Longrightarrow> rc_exact rc"
    using rc_erase_ok [OF aec_invD(1) [OF inv], of r] by blast
  show thesis
  proof (cases "tbl_get (rc_by_root (ac_roots c)) r")
    case None
    then have "rc_by_root rc = rc_by_root (ac_roots c)" unfolding rc(3) by (intro fmap_ext) auto
    then have "aec_inv root_of pending (c\<lparr>ac_roots := rc\<rparr>)"
      using aec_inv_roots [OF inv rc(2) rc(4)] by simp
    then show thesis using that [OF rc(1,3)] None by simp
  next
    case (Some en)
    then have "aec_inv root_of (en # pending) (c\<lparr>ac_roots := rc\<rparr>)"
      using inv rc kinds_drop [OF Some] unfolding aec_inv_def by simp
    then show thesis using that [OF rc(1,3)] Some by simp
  qed
qed

lemma aec_erase_ok:
  assumes inv: "aec_inv root_of [] c"
  obtains c' where "aec_erase r c = Some (is_active_root r c, c')" "aec_inv root_of [] c'"
    "rc_by_root (ac_roots c') = fmdrop r (rc_by_root (ac_roots c))"
proof -
  obtain rc where rc: "rc_erase r (ac_roots c) = Some (tbl_get (rc_by_root (ac_roots c)) r, rc)"
    "rc_by_root rc = fmdrop r (rc_by_root (ac_roots c))"
    "aec_inv root_of (case tbl_get (rc_by_root (ac_roots c)) r of Some en \<Rightarrow> [en] | None \<Rightarrow> [])
      (c\<lparr>ac_roots := rc\<rparr>)"
    by (rule aec_erase_root [OF inv])
  show thesis
  proof (cases "tbl_get (rc_by_root (ac_roots c)) r")
    case None
    then show thesis using that [of "c\<lparr>ac_roots := rc\<rparr>"] rc by (simp add: aec_erase_def is_active_root_def)
  next
    case (Some en)
    then have "aec_inv root_of [en] (c\<lparr>ac_roots := rc\<rparr>)" using rc(3) by simp
    then obtain c' where c': "cleanup_election en (c\<lparr>ac_roots := rc\<rparr>) = Some c'" "aec_inv root_of [] c'" "ac_roots c' = rc"
      by (auto elim: cleanup_election_ok)
    then show thesis using that [of c'] rc Some by (simp add: aec_erase_def is_active_root_def)
  qed
qed

lemma erase_lowest_prio_ok:
  assumes inv: "aec_inv root_of [] c" and i: "i < bucket_count"
  obtains c' where "erase_lowest_prio_election i c = Some c'" "aec_inv root_of [] c'"
proof -
  have len: "i < length (rc_buckets (ac_roots c))"
    using i buckets_okD(1) [OF rc_invD(3) [OF aec_invD(1) [OF inv]]] by simp
  obtain l where l: "lowest_priority i (ac_roots c) = Some l" using len by (simp add: lowest_priority_def)
  show thesis
  proof (cases l)
    case None
    then show thesis using that [of c] l inv by (simp add: erase_lowest_prio_election_def)
  next
    case (Some x)
    obtain c' where c': "aec_erase (fst x) c = Some (is_active_root (fst x) c, c')" "aec_inv root_of [] c'"
      using aec_erase_ok [OF inv] by blast
    then show thesis using that [of c'] l Some by (simp add: erase_lowest_prio_election_def case_prod_unfold)
  qed
qed

text \<open>Erasing several roots: exactly their elections are removed.\<close>

lemma rc_erase_all_ok:
  assumes "aec_inv root_of pending c"
  obtains removed rc where "rc_erase_all roots (ac_roots c) = Some (removed, rc)"
    "aec_inv root_of (removed @ pending) (c\<lparr>ac_roots := rc\<rparr>)"
    "rc_by_root rc = fmfilter (\<lambda>r. r \<notin> set roots) (rc_by_root (ac_roots c))"
    "set removed = {en. \<exists>r\<in>set roots. tbl_get (rc_by_root (ac_roots c)) r = Some en}"
  using assms
proof (induction roots arbitrary: c pending thesis)
  case Nil
  show ?case by (rule Nil.prems(1) [of "[]" "ac_roots c"]) (use Nil.prems(2) in \<open>auto intro: fmap_ext\<close>)
next
  case (Cons r roots)
  let ?m = "rc_by_root (ac_roots c)"
  obtain rc where rc: "rc_erase r (ac_roots c) = Some (tbl_get ?m r, rc)" "rc_by_root rc = fmdrop r ?m"
    "aec_inv root_of (case tbl_get ?m r of Some en \<Rightarrow> en # pending | None \<Rightarrow> pending) (c\<lparr>ac_roots := rc\<rparr>)"
    by (rule aec_erase_root [OF Cons.prems(2)])
  let ?p = "case tbl_get ?m r of Some en \<Rightarrow> en # pending | None \<Rightarrow> pending"
  obtain removed rc' where IH: "rc_erase_all roots rc = Some (removed, rc')"
    "aec_inv root_of (removed @ ?p) (c\<lparr>ac_roots := rc'\<rparr>)"
    "rc_by_root rc' = fmfilter (\<lambda>r. r \<notin> set roots) (rc_by_root rc)"
    "set removed = {en. \<exists>r\<in>set roots. tbl_get (rc_by_root rc) r = Some en}"
    by (rule Cons.IH [OF _ rc(3), simplified])
  let ?removed = "case tbl_get ?m r of Some en \<Rightarrow> en # removed | None \<Rightarrow> removed"
  have inv: "aec_inv root_of (?removed @ pending) (c\<lparr>ac_roots := rc'\<rparr>)"
    using IH(2) aec_inv_perm [of "removed @ ?p" "?removed @ pending"] by (auto split: option.splits)
  have m: "rc_by_root rc' = fmfilter (\<lambda>k. k \<notin> set (r # roots)) ?m"
    unfolding IH(3) rc(2) by (rule fmap_ext) auto
  have s: "set ?removed = {en. \<exists>k\<in>set (r # roots). tbl_get ?m k = Some en}"
    using IH(4) by (auto simp: rc(2) split: option.splits if_splits)
  show ?case
    by (rule Cons.prems(1) [OF _ inv m s]) (simp add: rc(1) IH(1))
qed

lemma erase_ended_ok:
  assumes inv: "aec_inv root_of [] c" and ord: "permutes ord"
  obtains c' where "erase_ended_elections ord c = Some c'" "aec_inv root_of [] c'"
    "\<And>r. tbl_get (rc_by_root (ac_roots c')) r =
      (case tbl_get (rc_by_root (ac_roots c)) r of
         Some en \<Rightarrow> if has_ended (el_state (en_election en)) then None else Some en | None \<Rightarrow> None)"
proof -
  let ?m = "rc_by_root (ac_roots c)"
  let ?ended = "\<lambda>en. has_ended (el_state (en_election en))"
  let ?roots = "map en_root (filter ?ended (hash_values ord ?m))"
  have roots: "r \<in> set ?roots \<longleftrightarrow> (\<exists>en. tbl_get ?m r = Some en \<and> ?ended en)" for r
  proof -
    have "en_root en = k" if "tbl_get ?m k = Some en" for k en
      using entry_okD(1) [OF rc_invD(1) [OF aec_invD(1) [OF inv] that]] .
    then show ?thesis using set_hash_values [OF ord, of ?m] by (auto simp: image_iff)
  qed
  obtain removed rc where rc: "rc_erase_all ?roots (ac_roots c) = Some (removed, rc)"
    "aec_inv root_of (removed @ []) (c\<lparr>ac_roots := rc\<rparr>)"
    "rc_by_root rc = fmfilter (\<lambda>r. r \<notin> set ?roots) ?m"
    by (rule rc_erase_all_ok [OF inv, of ?roots])
  obtain c' where c': "cleanup_all removed (c\<lparr>ac_roots := rc\<rparr>) = Some c'" "aec_inv root_of [] c'" "ac_roots c' = rc"
    using cleanup_all_ok [OF rc(2)] by auto
  show thesis
  proof (rule that [OF _ c'(2)])
    show "erase_ended_elections ord c = Some c'"
      using rc(1) c'(1) by (simp add: erase_ended_elections_def drain_filter_def)
    show "tbl_get (rc_by_root (ac_roots c')) r =
        (case tbl_get ?m r of Some en \<Rightarrow> if ?ended en then None else Some en | None \<Rightarrow> None)" for r
      unfolding c'(3) rc(3) fmlookup_filter roots by (auto split: option.splits)
  qed
qed

section \<open>Time\<close>

lemma aec_map_elections_inv:
  assumes inv: "aec_inv root_of [] c" and keeps: "keeps_election f"
  shows "aec_inv root_of [] (c\<lparr>ac_roots := (ac_roots c)\<lparr>rc_by_root :=
    fmmap (\<lambda>en. en\<lparr>en_election := f (en_election en)\<rparr>) (rc_by_root (ac_roots c))\<rparr>\<rparr>)"
    (is "aec_inv root_of [] (c\<lparr>ac_roots := ?rc\<rparr>)")
proof -
  note I = rc_invD [OF aec_invD(1) [OF inv]]
  let ?m = "rc_by_root (ac_roots c)" and ?f = "\<lambda>en. en\<lparr>en_election := f (en_election en)\<rparr>"
  have K: "election_inv (f (en_election en))" "el_root (f (en_election en)) = r" "candidate_hashes (f (en_election en)) = entry_hashes en"
    "el_behavior (f (en_election en)) = entry_kind en" "en_root en = r"
    if "tbl_get ?m r = Some en" for r en
    using keeps_electionD [OF keeps entry_okD(3) [OF I(1) [OF that]]] entry_okD(1,2) [OF I(1) [OF that]] by auto
  have "entry_ok root_of r en" if "tbl_get (fmmap ?f ?m) r = Some en" for r en
    using that K [of r] entry_okD(4) [OF I(1)] by (auto simp: entry_ok_def)
  moreover have "routed (fmmap ?f ?m) (rc_vote_router (ac_roots c))"
    using I(2) K(3) by (auto simp: routed_def)
  moreover have "buckets_ok (fmmap ?f ?m) (rc_buckets (ac_roots c))"
  proof (rule buckets_ok_cong [OF I(3)])
    show "map_option (\<lambda>en. (en_priority en, entry_bucket en)) (tbl_get (fmmap ?f ?m) r) =
        map_option (\<lambda>en. (en_priority en, entry_bucket en)) (tbl_get ?m r)" for r
      using K(4) [of r] by (cases "tbl_get ?m r") (auto simp: entry_bucket_def)
  qed
  ultimately have "rc_inv root_of ?rc" by (simp add: rc_inv_def)
  moreover have "rc_exact ?rc" if ex: "rc_exact (ac_roots c)"
    unfolding routes_exact_def
  proof (intro allI impI)
    fix h r assume "tbl_get (rc_vote_router ?rc) h = Some r"
    then obtain en where "tbl_get ?m r = Some en" "h \<in> entry_hashes en" using ex unfolding routes_exact_def by auto
    then show "\<exists>en. tbl_get (rc_by_root ?rc) r = Some en \<and> h \<in> entry_hashes en" using K(3) by auto
  qed
  moreover have "kinds (fmmap ?f ?m) = kinds ?m"
  proof -
    have "fmdom' (fmmap ?f ?m) = fmdom' ?m" by (auto simp: fmlookup_dom'_iff)
    then show ?thesis unfolding kinds_def using K(4) by (auto intro!: image_mset_cong simp: fmlookup_dom'_iff)
  qed
  ultimately show ?thesis by (intro aec_inv_roots [OF inv]) simp_all
qed

lemma aec_transition_time_ok:
  assumes inv: "aec_inv root_of [] c" and ord: "permutes ord"
  obtains c' where "aec_transition_time ord now c = Some c'" "aec_inv root_of [] c'"
    "\<And>r. tbl_get (rc_by_root (ac_roots c')) r =
      (case tbl_get (rc_by_root (ac_roots c)) r of
         Some en \<Rightarrow> let e = el_transition_time now (en_election en) in
           if has_ended (el_state e) then None else Some (en\<lparr>en_election := e\<rparr>)
       | None \<Rightarrow> None)"
proof -
  obtain c' where c': "erase_ended_elections ord (c\<lparr>ac_roots := (ac_roots c)\<lparr>rc_by_root :=
      fmmap (\<lambda>en. en\<lparr>en_election := el_transition_time now (en_election en)\<rparr>) (rc_by_root (ac_roots c))\<rparr>\<rparr>) = Some c'"
    "aec_inv root_of [] c'"
    "\<forall>r. tbl_get (rc_by_root (ac_roots c')) r =
      (case map_option (\<lambda>en. en\<lparr>en_election := el_transition_time now (en_election en)\<rparr>) (tbl_get (rc_by_root (ac_roots c)) r) of
         Some en \<Rightarrow> if has_ended (el_state (en_election en)) then None else Some en | None \<Rightarrow> None)"
    using erase_ended_ok [OF aec_map_elections_inv [OF inv keeps_election_ops(2)] ord] by auto
  show thesis
    by (rule that [OF _ c'(2)]) (use c'(1,3) in \<open>auto simp: aec_transition_time_def Let_def split: option.splits\<close>)
qed

section \<open>Starting elections\<close>

abbreviation rq_root :: "aec_insert_request \<Rightarrow> qualified_root" where
  "rq_root rq \<equiv> qualified_root_of (svb_block (rq_block rq))"

text \<open>A request may upgrade the election of its root.\<close>

definition upgrades :: "aec_insert_request \<Rightarrow> aec_entry \<Rightarrow> bool" where
  "upgrades rq en \<longleftrightarrow> rq_behavior rq = Priority \<and> entry_kind en \<notin> {Priority, Manual}"

lemma insert_new_ok:
  assumes inv: "aec_inv root_of [] c" and live: "\<not> ac_stopped c" and new: "tbl_get (rc_by_root (ac_roots c)) (rq_root rq) = None"
    and b: "saved_hash (rq_block rq) \<noteq> 0" "root_of (saved_hash (rq_block rq)) = rq_root rq"
  obtains c' where "insert_new_election rq now c = Some c'" "aec_inv root_of [] c'"
    "rc_by_root (ac_roots c') = tbl_put (rq_root rq) \<lparr>en_root = rq_root rq,
       en_election = election_new (rq_block rq) (rq_behavior rq) (ac_base_latency c) now, en_priority = rq_priority rq\<rparr>
       (rc_by_root (ac_roots c))"
proof -
  let ?en = "\<lparr>en_root = rq_root rq, en_election = election_new (rq_block rq) (rq_behavior rq) (ac_base_latency c) now,
     en_priority = rq_priority rq\<rparr>"
  have n: "tbl_get (rc_by_root (ac_roots c)) (en_root ?en) = None" using new by simp
  have ok: "entry_ok root_of (en_root ?en) ?en"
    using election_new_inv [OF b(1)] b by (auto simp: entry_ok_def election_new_def)
  have one: "entry_hashes ?en = {maybe_hash (el_winner (en_election ?en))}" by (simp add: election_new_def)
  obtain rc where rc: "rc_insert ?en (ac_roots c) = Some rc" "rc_inv root_of rc"
    "rc_by_root rc = tbl_put (en_root ?en) ?en (rc_by_root (ac_roots c))" "rc_exact (ac_roots c) \<Longrightarrow> rc_exact rc"
    using rc_insert_ok [OF aec_invD(1) [OF inv] n ok one] by blast
  have k: "entry_kind ?en = rq_behavior rq" by (simp add: election_new_def)
  have "aec_inv root_of [] (count_inc (rq_behavior rq) (c\<lparr>ac_roots := rc\<rparr>))"
    using inv rc(2-4) live kinds_put_new [OF new, of ?en] k unfolding aec_inv_def by (auto simp: count_inc_def)
  then show thesis
    using that rc(1,3) by (simp add: insert_new_election_def count_inc_def)
qed

lemma upgraded_inv:
  assumes inv: "aec_inv root_of [] c" and live: "\<not> ac_stopped c" and en: "tbl_get (rc_by_root (ac_roots c)) r = Some en"
    and rc: "rc_inv root_of rc" "rc_exact (ac_roots c) \<Longrightarrow> rc_exact rc"
      "rc_by_root rc = tbl_put r (en\<lparr>en_election := (en_election en)\<lparr>el_behavior := Priority\<rparr>\<rparr>) (rc_by_root (ac_roots c))"
    and k: "entry_kind en \<noteq> Priority"
  shows "aec_inv root_of [] (count_inc Priority
      ((c\<lparr>ac_roots := rc\<rparr>)\<lparr>ac_count := (ac_count c)(entry_kind en := ac_count c (entry_kind en) - 1)\<rparr>))"
    "0 < ac_count c (entry_kind en)"
proof -
  let ?m = "rc_by_root (ac_roots c)"
  have count: "ac_count c = count (add_mset (entry_kind en) (kinds (fmdrop r ?m)))"
    using aec_invD(6) [OF inv live] kinds_drop [OF en] by auto
  have kinds: "kinds (rc_by_root rc) = add_mset Priority (kinds (fmdrop r ?m))"
    using kinds_update [OF en, of "en\<lparr>en_election := (en_election en)\<lparr>el_behavior := Priority\<rparr>\<rparr>"] by (simp add: rc(3))
  show "aec_inv root_of [] (count_inc Priority
      ((c\<lparr>ac_roots := rc\<rparr>)\<lparr>ac_count := (ac_count c)(entry_kind en := ac_count c (entry_kind en) - 1)\<rparr>))"
    using k rc(1,2) live aec_invD(2,4) [OF inv] unfolding aec_inv_def by (simp add: count_inc_def count kinds)
  show "0 < ac_count c (entry_kind en)" by (simp add: count)
qed

lemma aec_insert_ok:
  assumes inv: "aec_inv root_of [] c"
    and b: "saved_hash (rq_block rq) \<noteq> 0" "root_of (saved_hash (rq_block rq)) = rq_root rq"
  obtains res c' where "aec_insert rq now c = Some (res, c')" "aec_inv root_of [] c'"
    "res = (if ac_stopped c then Inl Stopped
       else if root_exists (rq_root rq) (ac_recently_confirmed c) then Inl RecentlyConfirmed
       else (case tbl_get (rc_by_root (ac_roots c)) (rq_root rq) of
          Some en \<Rightarrow> if upgrades rq en then Inr () else Inl AecDuplicate | None \<Rightarrow> Inr ()))"
    "rc_by_root (ac_roots c') = (if res = Inr () then tbl_put (rq_root rq)
        (case tbl_get (rc_by_root (ac_roots c)) (rq_root rq) of
           Some en \<Rightarrow> en\<lparr>en_election := (en_election en)\<lparr>el_behavior := Priority\<rparr>\<rparr>
         | None \<Rightarrow> \<lparr>en_root = rq_root rq,
             en_election = election_new (rq_block rq) (rq_behavior rq) (ac_base_latency c) now,
             en_priority = rq_priority rq\<rparr>)
        (rc_by_root (ac_roots c)) else rc_by_root (ac_roots c))"
proof -
  let ?m = "rc_by_root (ac_roots c)"
  consider "ac_stopped c \<or> root_exists (rq_root rq) (ac_recently_confirmed c)"
    | (run) "\<not> ac_stopped c" "\<not> root_exists (rq_root rq) (ac_recently_confirmed c)" by blast
  then show thesis
  proof cases
    case 1
    then show thesis using that [of _ c] inv by (auto simp: aec_insert_def)
  next
    case run
    show thesis
    proof (cases rule: rc_upgrade_ok [OF aec_invD(1) [OF inv] refl, of rq, case_names none duplicate upgraded])
      case none
      obtain c' where c': "insert_new_election rq now c = Some c'" "aec_inv root_of [] c'"
        "rc_by_root (ac_roots c') = tbl_put (rq_root rq) \<lparr>en_root = rq_root rq,
           en_election = election_new (rq_block rq) (rq_behavior rq) (ac_base_latency c) now, en_priority = rq_priority rq\<rparr> ?m"
        by (rule insert_new_ok [OF inv run(1) none(1) b])
      then show thesis
        using that [of "Inr ()" c'] run none by (simp add: aec_insert_def try_upgrade_priority_election_def)
    next
      case (duplicate en)
      then show thesis
        using that [of "Inl AecDuplicate" c] run inv
        by (auto simp: aec_insert_def try_upgrade_priority_election_def upgrades_def)
    next
      case (upgraded en rc')
      let ?c = "(c\<lparr>ac_roots := rc'\<rparr>)\<lparr>ac_count := (ac_count c)(entry_kind en := ac_count c (entry_kind en) - 1)\<rparr>"
      have "aec_inv root_of [] (count_inc Priority ?c)" "0 < ac_count c (entry_kind en)"
        using upgraded_inv [OF inv run(1) upgraded(1,5,6,7)] upgraded(3) by simp_all
      then show thesis
        using that [of "Inr ()" "count_inc Priority ?c"] run upgraded
        by (simp add: aec_insert_def try_upgrade_priority_election_def count_dec_def count_inc_def upgrades_def)
    qed
  qed
qed

end
