(* ===== verification/Active_Votes.thy ===== *)
theory Active_Votes
  imports Active_Ops
begin

text \<open>
  Forks, votes and confirmations reach the elections of the container: the operations return,
  keep the invariant, and their effect on the election they are routed to.
\<close>

section \<open>Forks\<close>

text \<open>The candidates of one election change, and the routes with them.\<close>

lemma rc_change_candidates:
  assumes inv: "rc_inv root_of rc" and en: "tbl_get (rc_by_root rc) r = Some en"
    and e: "election_inv e" "el_root e = r" "el_behavior e = el_behavior (en_election en)"
      "\<And>h. h \<in> candidate_hashes e \<Longrightarrow> root_of h = r"
    and routes: "\<And>h. h \<in> candidate_hashes e \<Longrightarrow> tbl_get routes h = Some r"
      "\<And>h. root_of h \<noteq> r \<Longrightarrow> tbl_get routes h = tbl_get (rc_vote_router rc) h"
    and rc': "rc' = rc\<lparr>rc_by_root := tbl_put r (en\<lparr>en_election := e\<rparr>) (rc_by_root rc), rc_vote_router := routes\<rparr>"
  shows "rc_inv root_of rc'"
    "rc_exact rc \<Longrightarrow> (\<And>h k. tbl_get routes h = Some k \<Longrightarrow>
        k = r \<and> h \<in> candidate_hashes e \<or> k \<noteq> r \<and> tbl_get (rc_vote_router rc) h = Some k) \<Longrightarrow> rc_exact rc'"
proof -
  note I = rc_invD [OF inv]
  let ?m = "tbl_put r (en\<lparr>en_election := e\<rparr>) (rc_by_root rc)"
  have "entry_ok root_of k x" if "tbl_get ?m k = Some x" for k x
    using that I(1) [of k x] entry_okD(1) [OF I(1) [OF en]] e by (auto simp: entry_ok_def split: if_splits)
  moreover have "routed ?m routes"
    unfolding routed_def
  proof (intro allI impI, elim conjE)
    fix k x h assume x: "tbl_get ?m k = Some x" "h \<in> entry_hashes x"
    show "tbl_get routes h = Some k"
    proof (cases "k = r")
      case True
      then show ?thesis using x routes(1) by auto
    next
      case False
      then have k: "tbl_get (rc_by_root rc) k = Some x" using x(1) by simp
      then have "root_of h = k" using entry_okD(4) [OF I(1) [OF k]] x(2) by blast
      then show ?thesis using routes(2) [of h] False I(2) k x(2) unfolding routed_def by auto
    qed
  qed
  moreover have "buckets_ok ?m (rc_buckets rc)"
    by (rule buckets_ok_cong [OF I(3)]) (use en e(3) in \<open>auto simp: entry_bucket_def\<close>)
  ultimately show "rc_inv root_of rc'" by (simp add: rc' rc_inv_def)
  show "rc_exact rc'"
    if "rc_exact rc" "\<And>h k. tbl_get routes h = Some k \<Longrightarrow>
        k = r \<and> h \<in> candidate_hashes e \<or> k \<noteq> r \<and> tbl_get (rc_vote_router rc) h = Some k"
    using that unfolding rc' routes_exact_def by fastforce
qed

lemma fork_added:
  assumes inv: "aec_inv root_of [] c" and en: "tbl_get (rc_by_root (ac_roots c)) (qualified_root_of fork) = Some en"
    and fork: "root_of (block_hash_of fork) = qualified_root_of fork"
    and e: "el_try_add_fork ord fork tally (en_election en) = Some (r, e)" "election_inv e"
      "el_root e = qualified_root_of fork" "el_behavior e = entry_kind en"
      "candidate_hashes e = insert (block_hash_of fork)
         (entry_hashes en - (case r of Replaced b \<Rightarrow> {maybe_hash b} | _ \<Rightarrow> {}))"
    and r: "r = Added \<or> (\<exists>b. r = Replaced b \<and> maybe_hash b \<in> entry_hashes en \<and> maybe_hash b \<noteq> block_hash_of fork)"
  obtains c' where "aec_try_add_fork ord fork tally c = Some (True, c')" "aec_inv root_of [] c'"
    "is_active_hash (block_hash_of fork) c'"
proof -
  let ?r = "qualified_root_of fork" and ?h = "block_hash_of fork" and ?old = "rc_vote_router (ac_roots c)"
  note I = rc_invD [OF aec_invD(1) [OF inv]]
  note E = entry_okD [OF I(1) [OF en]]
  let ?routes = "tbl_put ?h ?r (case r of Replaced b \<Rightarrow> fmdrop (maybe_hash b) ?old | _ \<Rightarrow> ?old)"
  let ?rc = "(ac_roots c)\<lparr>rc_by_root := tbl_put ?r (en\<lparr>en_election := e\<rparr>) (rc_by_root (ac_roots c)), rc_vote_router := ?routes\<rparr>"
  have old: "tbl_get ?old h = Some ?r" if "h \<in> entry_hashes en" for h
    using I(2) en that unfolding routed_def by blast
  have root: "root_of h = ?r" if "h \<in> candidate_hashes e" for h
    using that E(4) fork e(5) by auto
  have route: "tbl_get ?routes h = Some ?r" if "h \<in> candidate_hashes e" for h
    using that old e(5) r by auto
  have other: "tbl_get ?routes h = tbl_get ?old h" if "root_of h \<noteq> ?r" for h
    using that E(4) fork r by auto
  note C = rc_change_candidates [OF aec_invD(1) [OF inv] en e(2,3,4) root route other refl]
  have exact: "k = ?r \<and> h \<in> candidate_hashes e \<or> k \<noteq> ?r \<and> tbl_get ?old h = Some k"
    if ex: "rc_exact (ac_roots c)" and h: "tbl_get ?routes h = Some k" for h k
  proof (cases "h = ?h")
    case False
    then have k: "tbl_get ?old h = Some k" "\<And>b. r = Replaced b \<Longrightarrow> h \<noteq> maybe_hash b" using h r by (auto split: if_splits)
    then obtain x where "tbl_get (rc_by_root (ac_roots c)) k = Some x" "h \<in> entry_hashes x"
      using ex unfolding routes_exact_def by blast
    then show ?thesis using k en e(5) r by auto
  qed (use h e(5) in auto)
  have "kinds (rc_by_root ?rc) = kinds (rc_by_root (ac_roots c))"
    using kinds_update [OF en, of "en\<lparr>en_election := e\<rparr>"] kinds_drop [OF en] e(4) by simp
  then have inv': "aec_inv root_of [] (c\<lparr>ac_roots := ?rc\<rparr>)"
    using C exact en by (intro aec_inv_roots [OF inv]) auto
  obtain c' where c': "aec_try_add_fork ord fork tally c = Some (True, c')" "ac_roots c' = ?rc" "ac_stopped c' = ac_stopped c"
    "ac_count c' = ac_count c" "ac_recently_confirmed c' = ac_recently_confirmed c"
    using en e(1) r by (auto simp: aec_try_add_fork_def rc_set_election_def connect_def disconnect_def Let_def)
  have "aec_inv root_of [] c'"
    by (rule aec_inv_cong [OF inv']) (use c' aec_invD(2) [OF inv] in simp_all)
  then show thesis using that c' by (simp add: is_active_hash_def)
qed

lemma aec_try_add_fork_ok:
  assumes inv: "aec_inv root_of [] c" and ord: "permutes ord"
    and fork: "block_hash_of fork \<noteq> 0" "root_of (block_hash_of fork) = qualified_root_of fork"
  obtains added c' where "aec_try_add_fork ord fork tally c = Some (added, c')" "aec_inv root_of [] c'"
    "added \<Longrightarrow> is_active_hash (block_hash_of fork) c'"
proof (cases "tbl_get (rc_by_root (ac_roots c)) (qualified_root_of fork)")
  case None
  then show thesis using that [of False c] inv by (simp add: aec_try_add_fork_def)
next
  case (Some en)
  let ?r = "qualified_root_of fork"
  note E = entry_okD [OF rc_invD(1) [OF aec_invD(1) [OF inv] Some]]
  from el_try_add_fork_ok [OF E(3) ord fork(1) E(2) [symmetric], of tally] show thesis
  proof (elim exE conjE)
    fix r e
    assume e: "el_try_add_fork ord fork tally (en_election en) = Some (r, e)" "election_inv e"
      "el_root e = el_root (en_election en)" "el_behavior e = entry_kind en"
      and h: "candidate_hashes e = (case r of
          Added \<Rightarrow> insert (block_hash_of fork) (entry_hashes en)
        | Replaced b \<Rightarrow> insert (block_hash_of fork) (entry_hashes en - {maybe_hash b})
        | _ \<Rightarrow> entry_hashes en)"
      and rep: "\<forall>b. r = Replaced b \<longrightarrow> maybe_hash b \<in> entry_hashes en \<and> maybe_hash b \<noteq> block_hash_of fork"
    have root: "el_root e = ?r" using e(3) E(2) by simp
    show thesis
    proof (cases "r = Added \<or> (\<exists>b. r = Replaced b)")
      case True
      then have "candidate_hashes e = insert (block_hash_of fork)
          (entry_hashes en - (case r of Replaced b \<Rightarrow> {maybe_hash b} | _ \<Rightarrow> {}))"
        unfolding h by (cases r) simp_all
      moreover have "r = Added \<or> (\<exists>b. r = Replaced b \<and> maybe_hash b \<in> entry_hashes en \<and> maybe_hash b \<noteq> block_hash_of fork)"
        using True rep by blast
      ultimately show thesis
        using fork_added [where root_of = root_of, OF inv Some fork(2) e(1,2) root e(4)] that [of True] by blast
    next
      case False
      let ?c = "c\<lparr>ac_roots := rc_set_election ?r e (ac_roots c)\<rparr>"
      have same: "candidate_hashes e = entry_hashes en" using h False by (cases r) auto
      have "aec_inv root_of [] ?c" by (rule aec_set_election_inv [OF inv Some e(2) root same e(4)])
      moreover have "aec_try_add_fork ord fork tally c =
          Some (False, if r = TallyTooLow then notify (BlockDiscarded fork) ?c else ?c)"
        using False Some e(1) by (cases r) (auto simp: aec_try_add_fork_def)
      ultimately show thesis using that [of False] by simp
    qed
  qed
qed

section \<open>Votes\<close>

text \<open>Votes of one representative are ordered by time stamp, then by hash.\<close>

definition newer_vote :: "unix_millis_timestamp \<Rightarrow> block_hash \<Rightarrow> vote_summary \<Rightarrow> bool" where
  "newer_vote created h v \<longleftrightarrow> vs_created v < created \<or> vs_created v = created \<and> vs_hash v < h"

lemma ensure_no_replay_iff:
  "ensure_no_replay v vote h = (if newer_vote (vote_timestamp_of vote) h v then Inr () else Inl VE_Replay)"
  by (auto simp: ensure_no_replay_def newer_vote_def)

abbreviation av_voter :: "apply_vote_args \<Rightarrow> public_key" where
  "av_voter a \<equiv> vt_voter (av_vote a)"

abbreviation av_weight :: "apply_vote_args \<Rightarrow> amount" where
  "av_weight a \<equiv> unwrap_or_zero (tbl_get (av_rep_weights a) (av_voter a))"

abbreviation av_delta :: "apply_vote_args \<Rightarrow> amount" where
  "av_delta a \<equiv> qs_quorum_delta (av_quorum_specs a)"

abbreviation with_vote :: "apply_vote_args \<Rightarrow> block_hash \<Rightarrow> election \<Rightarrow> election" where
  "with_vote a h e \<equiv> el_add_vote (av_voter a) h (vote_timestamp_of (av_vote a)) (av_now a) e"

text \<open>When an election takes a vote for one of its candidates.\<close>

definition takes_vote :: "apply_vote_args \<Rightarrow> block_hash \<Rightarrow> election \<Rightarrow> bool" where
  "takes_vote a h e \<longleftrightarrow> \<not> el_is_confirmed e \<and>
     (case tbl_get (el_votes e) (av_voter a) of
        None \<Rightarrow> True
      | Some v \<Rightarrow> newer_vote (vote_timestamp_of (av_vote a)) h v \<and> \<not> should_cool_down a v (av_weight a))"

text \<open>The part of the container that a vote on an election does not touch.\<close>

definition same_roots :: "aec \<Rightarrow> aec \<Rightarrow> bool" where
  "same_roots c c' \<longleftrightarrow> ac_roots c' = ac_roots c \<and> ac_stopped c' = ac_stopped c \<and> ac_count c' = ac_count c \<and>
     ac_observer c' = ac_observer c \<and> (rcc_inv (ac_recently_confirmed c) \<longrightarrow> rcc_inv (ac_recently_confirmed c'))"

lemma same_roots_refl [simp]: "same_roots c c"
  by (simp add: same_roots_def)

lemma same_roots_inv: "same_roots c c' \<Longrightarrow> aec_inv root_of pending c \<Longrightarrow> aec_inv root_of pending c'"
  unfolding same_roots_def by (auto intro: aec_inv_cong dest: aec_invD(2))

lemma update_tallies_keeps:
  assumes "election_inv e" "permutes ord"
  obtains e' where "update_tallies ord ws d e = Some e'" "election_inv e'" "el_root e' = el_root e"
    "candidate_hashes e' = candidate_hashes e" "el_behavior e' = el_behavior e"
proof (cases "has_ended (el_state e)")
  case True
  then show thesis using that [of e] assms by (simp add: update_tallies_def)
next
  case False
  show thesis by (rule update_tallies_ok [OF assms False, of ws d]) (rule that)
qed

lemma confirm_if_quorum_ok:
  assumes "election_inv e" "permutes ord"
  obtains e' c' where "confirm_if_quorum ord a e c = Some (e', c')" "same_roots c c'" "election_inv e'"
    "el_root e' = el_root e" "candidate_hashes e' = candidate_hashes e" "el_behavior e' = el_behavior e"
    "update_tallies ord (av_rep_weights a) (av_delta a) e = Some e'"
proof -
  obtain e' where e': "update_tallies ord (av_rep_weights a) (av_delta a) e = Some e'" "election_inv e'" "el_root e' = el_root e"
    "candidate_hashes e' = candidate_hashes e" "el_behavior e' = el_behavior e"
    by (rule update_tallies_keeps [OF assms])
  obtain c' where c': "confirm_if_quorum ord a e c = Some (e', c')" "same_roots c c'"
    using e'(1) by (simp add: confirm_if_quorum_def same_roots_def Let_def rcc_put_inv)
  show thesis by (rule that [OF c' e'(2-5) e'(1)])
qed

lemma apply_vote_to_election_ok:
  assumes inv: "election_inv e" "h \<in> candidate_hashes e" and ord: "permutes ord"
  obtains (taken) e' c' where "takes_vote a h e" "apply_vote_to_election ord a h e c = Some (Inr (), e', c')"
    "same_roots c c'" "election_inv e'" "el_root e' = el_root e" "candidate_hashes e' = candidate_hashes e"
    "el_behavior e' = el_behavior e" "confirm_if_quorum ord a (with_vote a h e) c = Some (e', c')"
    "update_tallies ord (av_rep_weights a) (av_delta a) (with_vote a h e) = Some e'"
  | (rejected) err where "\<not> takes_vote a h e" "apply_vote_to_election ord a h e c = Some (Inl err, e, c)"
proof (cases "takes_vote a h e")
  case True
  have same: "el_root (with_vote a h e) = el_root e" "candidate_hashes (with_vote a h e) = candidate_hashes e"
    "el_behavior (with_vote a h e) = el_behavior e" by (simp_all add: el_add_vote_def)
  obtain e' c' where c': "confirm_if_quorum ord a (with_vote a h e) c = Some (e', c')" "same_roots c c'" "election_inv e'"
    "el_root e' = el_root (with_vote a h e)" "candidate_hashes e' = candidate_hashes (with_vote a h e)"
    "el_behavior e' = el_behavior (with_vote a h e)"
    "update_tallies ord (av_rep_weights a) (av_delta a) (with_vote a h e) = Some e'"
    by (rule confirm_if_quorum_ok [OF el_add_vote_inv [OF inv] ord])
  have "apply_vote_to_election ord a h e c = Some (Inr (), e', c')"
    using True c'(1) by (auto simp: apply_vote_to_election_def takes_vote_def ensure_no_replay_iff Let_def split: option.splits)
  then show thesis using taken True c' same by simp
next
  case False
  have "\<exists>err. apply_vote_to_election ord a h e c = Some (Inl err, e, c)"
    using False by (auto simp: apply_vote_to_election_def takes_vote_def ensure_no_replay_iff Let_def split: option.splits)
  then show thesis using rejected False by blast
qed

lemma rc_entry_for_block_SomeD:
  assumes inv: "aec_inv root_of pending c" and en: "rc_entry_for_block (ac_roots c) h = Some en"
  shows "tbl_get (rc_by_root (ac_roots c)) (en_root en) = Some en" "h \<in> entry_hashes en" "\<not> ac_stopped c"
proof -
  obtain r where r: "tbl_get (rc_vote_router (ac_roots c)) h = Some r" "tbl_get (rc_by_root (ac_roots c)) r = Some en"
    using en by (auto simp: rc_entry_for_block_def split: Option.bind_splits)
  show live: "\<not> ac_stopped c" using aec_invD(3) [OF inv] r(2) by auto
  have "en_root en = r" using entry_okD(1) [OF rc_invD(1) [OF aec_invD(1) [OF inv] r(2)]] .
  then show "tbl_get (rc_by_root (ac_roots c)) (en_root en) = Some en" using r(2) by simp
  show "h \<in> entry_hashes en" using aec_invD(4) [OF inv live] r unfolding routes_exact_def by force
qed

text \<open>What one block hash of a vote does.\<close>

lemma vote_on_entry:
  assumes inv: "aec_inv root_of confirmed c" and ord: "permutes ord" and en: "rc_entry_for_block (ac_roots c) h = Some en"
  obtains r e c1 erased rc where "apply_vote_to_election ord a h (en_election en) c = Some (r, e, c1)"
    "r = Inr () \<longleftrightarrow> takes_vote a h (en_election en)"
    "(if el_is_confirmed e then rc_erase (el_root e) (rc_set_election (en_root en) e (ac_roots c1))
      else Some (None, rc_set_election (en_root en) e (ac_roots c1))) = Some (erased, rc)"
    "aec_inv root_of (case erased of Some x \<Rightarrow> confirmed @ [x] | None \<Rightarrow> confirmed) (c1\<lparr>ac_roots := rc\<rparr>)"
proof -
  note D = rc_entry_for_block_SomeD [OF inv en]
  note E = entry_okD [OF rc_invD(1) [OF aec_invD(1) [OF inv] D(1)]]
  obtain r e c1 where v: "apply_vote_to_election ord a h (en_election en) c = Some (r, e, c1)" "same_roots c c1"
    "election_inv e" "el_root e = en_root en" "candidate_hashes e = entry_hashes en" "el_behavior e = entry_kind en"
    "r = Inr () \<longleftrightarrow> takes_vote a h (en_election en)"
  proof (cases rule: apply_vote_to_election_ok [OF E(3) D(2) ord, of a c, case_names taken rejected])
    case (taken e' c')
    then show thesis using that E(2) by auto
  next
    case (rejected err)
    then show thesis using that [of "Inl err" "en_election en" c] E by auto
  qed
  have c1: "tbl_get (rc_by_root (ac_roots c1)) (en_root en) = Some en" using v(2) D(1) by (simp add: same_roots_def)
  let ?c = "c1\<lparr>ac_roots := rc_set_election (en_root en) e (ac_roots c1)\<rparr>"
  have inv': "aec_inv root_of confirmed ?c"
    by (rule aec_set_election_inv [OF same_roots_inv [OF v(2) inv] c1 v(3-6)])
  show thesis
  proof (cases "el_is_confirmed e")
    case True
    let ?x = "tbl_get (rc_by_root (ac_roots ?c)) (el_root e)"
    obtain rc where rc: "rc_erase (el_root e) (ac_roots ?c) = Some (?x, rc)"
      "aec_inv root_of (case ?x of Some en \<Rightarrow> en # confirmed | None \<Rightarrow> confirmed) (?c\<lparr>ac_roots := rc\<rparr>)"
      by (rule aec_erase_root [OF inv', of "el_root e"])
    have "aec_inv root_of (case ?x of Some x \<Rightarrow> confirmed @ [x] | None \<Rightarrow> confirmed) (c1\<lparr>ac_roots := rc\<rparr>)"
      using rc(2) aec_inv_perm [of "the ?x # confirmed" "confirmed @ [the ?x]"] by (auto split: option.splits)
    then show thesis using that [OF v(1,7), of ?x rc] rc(1) True by simp
  next
    case False
    then show thesis using that [OF v(1,7), of None "ac_roots ?c"] inv' by simp
  qed
qed

section \<open>Confirmation by quorum\<close>

text \<open>
  What an event about a confirmed election promises: the final votes for the winner weigh, with
  the weights of the representatives at that time, as much as the tally says, and that reaches
  the quorum.
\<close>

definition quorum_event :: "(public_key, amount) table \<Rightarrow> amount \<Rightarrow> aec_event \<Rightarrow> bool" where
  "quorum_event ws d ev \<longleftrightarrow> (case ev of
     ElectionConfirmed ce \<Rightarrow> d \<le> ce_final_tally ce \<and> ce_final_tally ce =
       of_nat (weight_of_votes ws (\<lambda>v. vs_hash v = maybe_hash (ce_winner ce) \<and> is_final_vote v) (ce_votes ce))
   | _ \<Rightarrow> True)"

definition emits :: "(aec_event \<Rightarrow> bool) \<Rightarrow> aec \<Rightarrow> aec \<Rightarrow> bool" where
  "emits P c c' \<longleftrightarrow> (\<exists>evs. ac_events c' = ac_events c @ evs \<and> (\<forall>ev\<in>set evs. P ev))"

lemma emits_refl [simp]: "emits P c c"
  by (simp add: emits_def)

lemma emits_trans [trans]: "emits P a b \<Longrightarrow> emits P b c \<Longrightarrow> emits P a c"
  unfolding emits_def by (metis UnE append.assoc set_append)

lemma emits_roots [simp]: "emits P c (c'\<lparr>ac_roots := rc\<rparr>) = emits P c c'" "emits P (c\<lparr>ac_roots := rc\<rparr>) c' = emits P c c'"
  by (simp_all add: emits_def)

lemma update_tallies_confirms:
  assumes inv: "election_inv e" "permutes ord" and u: "update_tallies ord ws d e = Some e'"
    and conf: "\<not> el_is_confirmed e" "el_is_confirmed e'"
  shows "\<not> has_ended (el_state e)" "el_state e' = Confirmed" "d \<le> el_winner_final_tally e'"
    "el_winner_final_tally e' = of_nat (final_weight ws e' (maybe_hash (el_winner e')))"
proof -
  show live: "\<not> has_ended (el_state e)" using u conf by (auto simp: update_tallies_def)
  obtain x where x: "update_tallies ord ws d e = Some x" "el_votes x = el_votes (update_vote_weights ws e)"
      "el_winner_final_tally x = of_nat (final_weight ws e (maybe_hash (el_winner x)))"
      "el_state x = (if d \<le> el_winner_final_tally x then Confirmed else el_state e)"
    by (rule update_tallies_ok [OF inv live, of ws d])
  then have e': "x = e'" using u by simp
  then show d: "d \<le> el_winner_final_tally e'" using x(4) conf by (auto simp: el_is_confirmed_def split: if_splits)
  show "el_state e' = Confirmed" using x(4) d e' by simp
  show "el_winner_final_tally e' = of_nat (final_weight ws e' (maybe_hash (el_winner e')))"
    using x(2,3) unfolding e' by (simp add: weight_of_updated_votes is_final_vote_def)
qed

lemma confirm_if_quorum_emits:
  assumes inv: "election_inv e" "permutes ord" and conf: "\<not> el_is_confirmed e"
    and c: "confirm_if_quorum ord a e c = Some (e', c')"
  shows "emits (quorum_event (av_rep_weights a) (av_delta a)) c c'"
proof -
  have u: "update_tallies ord (av_rep_weights a) (av_delta a) e = Some e'"
    using c by (auto simp: confirm_if_quorum_def Let_def split: Option.bind_splits)
  have "quorum_event (av_rep_weights a) (av_delta a)
      (ElectionConfirmed (into_confirmed_election (av_now a) ActiveConfirmedQuorum e'))" if "el_is_confirmed e'"
    using update_tallies_confirms(3,4) [OF inv u conf that] by (simp add: quorum_event_def into_confirmed_election_def)
  moreover have "quorum_event ws d (WinnerChanged h b)" for ws d h b by (simp add: quorum_event_def)
  ultimately show ?thesis
    using c u by (auto simp: confirm_if_quorum_def emits_def Let_def)
qed

lemma vote_on_entry_emits:
  assumes "election_inv e" "h \<in> candidate_hashes e" "permutes ord"
    and "apply_vote_to_election ord a h e c = Some (r, e', c')"
  shows "emits (quorum_event (av_rep_weights a) (av_delta a)) c c'"
proof (cases rule: apply_vote_to_election_ok [OF assms(1-3), of a c, case_names taken rejected])
  case (taken e1 c1)
  then have "\<not> el_is_confirmed (with_vote a h e)" by (simp add: takes_vote_def el_add_vote_def el_is_confirmed_def)
  then have "emits (quorum_event (av_rep_weights a) (av_delta a)) c c1"
    using confirm_if_quorum_emits [OF el_add_vote_inv [OF assms(1,2)] assms(3) _ taken(8)] by simp
  then show ?thesis using taken(2) assms(4) by simp
qed (use assms(4) in simp)

text \<open>A whole vote: every hash gets a result, and what is confirmed has a quorum.\<close>

lemma apply_vote_blocks_ok:
  assumes "aec_inv root_of confirmed c" "permutes ord"
  shows "\<exists>per_block' confirmed' c'. apply_vote_blocks ord a hs per_block confirmed c = Some (per_block', confirmed', c') \<and>
    aec_inv root_of confirmed' c' \<and> fmdom' per_block' = fmdom' per_block \<union> set hs \<and>
    emits (quorum_event (av_rep_weights a) (av_delta a)) c c'"
  using assms(1)
proof (induction hs arbitrary: per_block confirmed c)
  case (Cons h hs)
  let ?emits = "emits (quorum_event (av_rep_weights a) (av_delta a))"
  show ?case
  proof (cases "tbl_get per_block h")
    case (Some x)
    then have "h \<in> fmdom' per_block" by (simp add: fmlookup_dom'_iff)
    then show ?thesis using Cons.IH [OF Cons.prems, of per_block] Some by (auto simp: insert_absorb)
  next
    case None
    show ?thesis
    proof (cases "rc_entry_for_block (ac_roots c) h")
      case entry: None
      show ?thesis
        using Cons.IH [OF Cons.prems, of "tbl_put h (Inl (if hash_exists h (ac_recently_confirmed c) then VE_Late else VE_Indeterminate)) per_block"]
          None entry by auto
    next
      case (Some en)
      obtain r e c1 erased rc where v: "apply_vote_to_election ord a h (en_election en) c = Some (r, e, c1)"
        "(if el_is_confirmed e then rc_erase (el_root e) (rc_set_election (en_root en) e (ac_roots c1))
          else Some (None, rc_set_election (en_root en) e (ac_roots c1))) = Some (erased, rc)"
        "aec_inv root_of (case erased of Some x \<Rightarrow> confirmed @ [x] | None \<Rightarrow> confirmed) (c1\<lparr>ac_roots := rc\<rparr>)"
        by (rule vote_on_entry [OF Cons.prems assms(2) Some, of a])
      note D = rc_entry_for_block_SomeD [OF Cons.prems Some]
      have "?emits c c1"
        by (rule vote_on_entry_emits [OF entry_okD(3) [OF rc_invD(1) [OF aec_invD(1) [OF Cons.prems] D(1)]] D(2) assms(2) v(1)])
      moreover obtain p' s' c' where "apply_vote_blocks ord a hs (tbl_put h r per_block)
          (case erased of Some x \<Rightarrow> confirmed @ [x] | None \<Rightarrow> confirmed) (c1\<lparr>ac_roots := rc\<rparr>) = Some (p', s', c')"
        "aec_inv root_of s' c'" "fmdom' p' = fmdom' (tbl_put h r per_block) \<union> set hs" "?emits c1 c'"
        using Cons.IH [OF v(3), of "tbl_put h r per_block"] by auto
      ultimately show ?thesis using None Some v(1,2) emits_trans by (auto simp: cong: if_cong)
    qed
  qed
qed simp

lemma aec_apply_vote_ok:
  assumes inv: "aec_inv root_of [] c" and ord: "permutes ord"
  obtains results c' where "aec_apply_vote ord a c = Some (results, c')" "aec_inv root_of [] c'"
    "fmdom' results = set (filtered_blocks a)" "emits (quorum_event (av_rep_weights a) (av_delta a)) c c'"
proof -
  obtain results confirmed c1 where b: "apply_vote_blocks ord a (filtered_blocks a) fmempty [] c = Some (results, confirmed, c1)"
    "aec_inv root_of confirmed c1" "fmdom' results = set (filtered_blocks a)"
    "emits (quorum_event (av_rep_weights a) (av_delta a)) c c1"
    using apply_vote_blocks_ok [OF inv ord, of a "filtered_blocks a" fmempty] by auto
  obtain c' where c': "cleanup_all confirmed c1 = Some c'" "aec_inv root_of [] c'"
    "ac_events c' = ac_events c1 @ (if ac_observer c1 then map (\<lambda>en. AecElectionEnded (en_election en)) confirmed else [])"
    using cleanup_all_ok [of root_of confirmed "[]" c1] b(2) by auto
  have "emits (quorum_event (av_rep_weights a) (av_delta a)) c1 c'"
    using c'(3) by (auto simp: emits_def quorum_event_def)
  then show thesis using that b c' emits_trans by (simp add: aec_apply_vote_def)
qed

end
