(* ===== verification/Active_Steps.thy ===== *)
theory Active_Steps
  imports Active_Votes
begin

text \<open>
  The container of active elections as a transition system: one step per operation that
  changes it, in any order. Every reachable container satisfies the invariant, and no
  operation panics on it.
\<close>

section \<open>Confirmations that come from the ledger\<close>

lemma aec_with_election_inv:
  assumes "aec_inv root_of [] c" "tbl_get (rc_by_root (ac_roots c)) r = Some en" "keeps_election f"
  shows "aec_inv root_of [] (c\<lparr>ac_roots := rc_set_election r (f (en_election en)) (ac_roots c)\<rparr>)"
  using with_election_inv [OF assms(1,3), of r] assms(2) by (simp add: with_election_def)

lemma confirm_dependent_election_inv:
  assumes "aec_inv root_of [] c"
  shows "aec_inv root_of [] (snd (confirm_dependent_election b source now c))"
proof (cases "tbl_get (rc_by_root (ac_roots c)) (qualified_root_of (svb_block b))")
  case (Some en)
  then show ?thesis
    using assms aec_with_election_inv [OF assms Some keeps_election_ops(3)]
      aec_with_election_inv [OF assms Some keeps_election_ops(5)]
    by (simp add: confirm_dependent_election_def Let_def)
qed (use assms in \<open>simp add: confirm_dependent_election_def Let_def\<close>)

lemma confirm_dependent_elections_inv:
  "aec_inv root_of [] c \<Longrightarrow> aec_inv root_of [] (confirm_dependent_elections bs now c)"
proof (induction bs arbitrary: c)
  case (Cons x bs)
  obtain b source where x: "x = (b, source)" by (cases x)
  obtain ce c1 where d: "confirm_dependent_election b source now c = (ce, c1)" by (cases "confirm_dependent_election b source now c")
  then have "aec_inv root_of [] (notify (AecBlockConfirmed b ce) c1)"
    using confirm_dependent_election_inv [OF Cons.prems, of b source now] by simp
  then show ?case using Cons.IH x d by simp
qed simp

lemma aec_force_confirm_ok:
  assumes inv: "aec_inv root_of [] c" and act: "is_active_hash h c" "\<not> ac_stopped c"
  obtains c' where "aec_force_confirm h now c = Some c'" "aec_inv root_of [] c'"
proof -
  obtain r en where r: "tbl_get (rc_vote_router (ac_roots c)) h = Some r" "tbl_get (rc_by_root (ac_roots c)) r = Some en"
    using act aec_invD(4) [OF inv act(2)] unfolding is_active_hash_def routes_exact_def by blast
  then have en: "rc_entry_for_block (ac_roots c) h = Some en" by (simp add: rc_entry_for_block_def)
  note D = rc_entry_for_block_SomeD [OF inv en]
  show thesis
    using that aec_with_election_inv [OF inv D(1) keeps_election_ops(5)] en
    by (simp add: aec_force_confirm_def case_prod_unfold Let_def)
qed

lemma aec_force_confirm_inv:
  assumes "aec_inv root_of [] c" "aec_force_confirm h now c = Some c'"
  shows "aec_inv root_of [] c'"
proof -
  obtain en where en: "rc_entry_for_block (ac_roots c) h = Some en"
    using assms(2) by (auto simp: aec_force_confirm_def split: option.splits)
  note D = rc_entry_for_block_SomeD [OF assms(1) en]
  show ?thesis
    using assms(2) aec_with_election_inv [OF assms(1) D(1) keeps_election_ops(5)] en
    by (auto simp: aec_force_confirm_def case_prod_unfold Let_def)
qed

section \<open>Stopping and the rest\<close>

lemma aec_stop_inv: "aec_inv root_of [] c \<Longrightarrow> aec_inv root_of [] (aec_stop c)"
proof -
  assume inv: "aec_inv root_of [] c"
  have "map (\<lambda>_. []) (rc_buckets (ac_roots c)) = (replicate bucket_count [] :: bucket_entry list list)"
    using buckets_okD(1) [OF rc_invD(3) [OF aec_invD(1) [OF inv]]] by (simp add: map_replicate_const)
  then have "rc_inv root_of (rc_clear (ac_roots c))"
    by (simp add: rc_inv_def rc_clear_def routed_def buckets_ok_empty)
  then show ?thesis using aec_invD(2) [OF inv] by (simp add: aec_inv_def aec_stop_def rc_clear_def)
qed

lemma simple_ops_inv:
  assumes "aec_inv root_of [] c"
  shows "aec_inv root_of [] (set_observer c)" "aec_inv root_of [] (set_last_voted r t now c)"
    "aec_inv root_of [] (set_cooldown cool reason c)" "aec_inv root_of [] (snd (transition_active h c))"
    "aec_inv root_of [] (remove_votes r ks c)" "aec_inv root_of [] (aec_cancel r c)"
    "aec_inv root_of [] (remove_recently_confirmed h c)" "aec_inv root_of [] (clear_recently_confirmed c)"
proof -
  show "aec_inv root_of [] (set_observer c)" "aec_inv root_of [] (remove_recently_confirmed h c)"
    "aec_inv root_of [] (clear_recently_confirmed c)"
    using assms rcc_erase_inv rcc_clear_inv aec_invD(2) [OF assms]
    by (auto intro!: aec_inv_cong [OF assms] simp: set_observer_def remove_recently_confirmed_def clear_recently_confirmed_def)
  show "aec_inv root_of [] (set_cooldown cool reason c)"
    using aec_inv_cong [OF assms] aec_invD(2) [OF assms] by (simp add: set_cooldown_def case_prod_unfold Let_def)
  show "aec_inv root_of [] (set_last_voted r t now c)" "aec_inv root_of [] (aec_cancel r c)"
    using with_election_inv [OF assms] keeps_election_ops by (auto simp: set_last_voted_def aec_cancel_def)
  show "aec_inv root_of [] (snd (transition_active h c))"
    using with_election_inv [OF assms keeps_election_ops(4)] assms by (simp add: transition_active_def split: option.splits)
  show "aec_inv root_of [] (remove_votes r ks c)"
    unfolding remove_votes_def
    by (rule with_election_inv [OF assms]) (rule keeps_election_fold, rule keeps_election_ops(6))
qed

section \<open>The transition system\<close>

text \<open>
  The blocks that enter have a non-zero hash, and their qualified root is the one that
  \<open>root_of\<close> gives for the hash.
\<close>

abbreviation hash_ok :: "(block_hash \<Rightarrow> qualified_root) \<Rightarrow> block \<Rightarrow> bool" where
  "hash_ok root_of b \<equiv> block_hash_of b \<noteq> 0 \<and> root_of (block_hash_of b) = qualified_root_of b"

inductive aec_step :: "(block_hash \<Rightarrow> qualified_root) \<Rightarrow> aec \<Rightarrow> aec \<Rightarrow> bool" for root_of where
  observe: "aec_step root_of c (set_observer c)"
| insert: "hash_ok root_of (svb_block (rq_block rq)) \<Longrightarrow> aec_insert rq now c = Some (res, c') \<Longrightarrow> aec_step root_of c c'"
| last_voted: "aec_step root_of c (set_last_voted r t now c)"
| fork: "hash_ok root_of b \<Longrightarrow> permutes ord \<Longrightarrow> aec_try_add_fork ord b tally c = Some (added, c') \<Longrightarrow> aec_step root_of c c'"
| cooldown: "aec_step root_of c (set_cooldown cool reason c)"
| stop: "aec_step root_of c (aec_stop c)"
| time: "permutes rord \<Longrightarrow> aec_transition_time rord now c = Some c' \<Longrightarrow> aec_step root_of c c'"
| erase_ended: "permutes rord \<Longrightarrow> erase_ended_elections rord c = Some c' \<Longrightarrow> aec_step root_of c c'"
| activate: "aec_step root_of c (snd (transition_active h c))"
| remove_votes: "aec_step root_of c (remove_votes r ks c)"
| erase: "aec_erase r c = Some (erased, c') \<Longrightarrow> aec_step root_of c c'"
| erase_lowest: "i < bucket_count \<Longrightarrow> erase_lowest_prio_election i c = Some c' \<Longrightarrow> aec_step root_of c c'"
| dependents: "aec_step root_of c (confirm_dependent_elections bs now c)"
| forget: "aec_step root_of c (remove_recently_confirmed h c)"
| forget_all: "aec_step root_of c (clear_recently_confirmed c)"
| vote: "permutes vord \<Longrightarrow> aec_apply_vote vord a c = Some (results, c') \<Longrightarrow> aec_step root_of c c'"
| force: "aec_force_confirm h now c = Some c' \<Longrightarrow> aec_step root_of c c'"
| cancel: "aec_step root_of c (aec_cancel r c)"

lemma aec_step_inv:
  assumes "aec_step root_of c c'" "aec_inv root_of [] c"
  shows "aec_inv root_of [] c'"
  using assms
proof (cases rule: aec_step.cases)
  case (insert rq now res)
  then show ?thesis using aec_insert_ok [OF assms(2), of rq now] by (metis option.inject prod.inject)
next
  case (fork b ord tally added)
  then show ?thesis using aec_try_add_fork_ok [OF assms(2), of ord b tally] by (metis option.inject prod.inject)
next
  case (time rord now)
  then show ?thesis using aec_transition_time_ok [OF assms(2), of rord now] by (metis option.inject)
next
  case (erase_ended rord)
  then show ?thesis using erase_ended_ok [OF assms(2), of rord] by (metis option.inject)
next
  case (erase r erased)
  then show ?thesis using aec_erase_ok [OF assms(2), of r] by (metis option.inject prod.inject)
next
  case (erase_lowest i)
  then show ?thesis using erase_lowest_prio_ok [OF assms(2), of i] by (metis option.inject)
next
  case (vote vord a results)
  then show ?thesis using aec_apply_vote_ok [OF assms(2), of vord a] by (metis option.inject prod.inject)
next
  case (force h now)
  then show ?thesis using aec_force_confirm_inv [OF assms(2)] by blast
qed (use assms(2) in \<open>simp_all add: simple_ops_inv aec_stop_inv confirm_dependent_elections_inv\<close>)

lemma reachable_aec_inv:
  assumes "(aec_step root_of)\<^sup>*\<^sup>* (aec_new n k l) c"
  shows "aec_inv root_of [] c"
  using assms by (induction rule: rtranclp_induct) (auto intro: aec_new_inv aec_step_inv)

text \<open>What the invariant says about the public queries.\<close>

lemma aec_inv_observed:
  assumes inv: "aec_inv root_of [] c" and live: "\<not> ac_stopped c"
  shows "is_active_hash h c \<longleftrightarrow>
      (\<exists>r en. tbl_get (rc_by_root (ac_roots c)) r = Some en \<and> tbl_get (el_candidates (en_election en)) h \<noteq> None)"
    "(\<Sum>b\<in>{Manual, Priority, Hinted, Optimistic}. ac_count c b) = rc_len (ac_roots c)"
proof -
  let ?m = "rc_by_root (ac_roots c)"
  have routed: "routed ?m (rc_vote_router (ac_roots c))" by (rule rc_invD(2) [OF aec_invD(1) [OF inv]])
  show "is_active_hash h c \<longleftrightarrow> (\<exists>r en. tbl_get ?m r = Some en \<and> tbl_get (el_candidates (en_election en)) h \<noteq> None)"
    using routed aec_invD(4) [OF inv live] unfolding is_active_hash_def routed_def routes_exact_def
    by (metis fmdom'_notD fmdom'_notI option.distinct(1) option.exhaust)
  have all: "{Manual, Priority, Hinted, Optimistic} = (UNIV :: election_behavior set)" using election_behavior.exhaust by auto
  have "(\<Sum>b\<in>{Manual, Priority, Hinted, Optimistic}. ac_count c b) = (\<Sum>b\<in>{Manual, Priority, Hinted, Optimistic}. count (kinds ?m) b)"
    using aec_invD(6) [OF inv live] by simp
  also have "\<dots> = size (kinds ?m)"
    unfolding size_multiset_overloaded_eq all
    by (rule sum.mono_neutral_right) (use all finite.emptyI in \<open>auto simp: count_eq_zero_iff intro: finite_subset [of _ "{Manual, Priority, Hinted, Optimistic}"]\<close>)
  also have "\<dots> = rc_len (ac_roots c)" by (simp add: kinds_def rc_len_def card_fmdom_entries)
  finally show "(\<Sum>b\<in>{Manual, Priority, Hinted, Optimistic}. ac_count c b) = rc_len (ac_roots c)" .
qed

end
