(* ===== verification/Round_Robin.thy ===== *)
theory Round_Robin
  imports Active_Inv
begin

text \<open>
  The round robin iteration over the active elections visits every election exactly once: its
  items are the entries of all buckets, and these are the elections of the container.
\<close>

section \<open>The iterator\<close>

text \<open>A pass that has not yielded anything has only seen empty buckets.\<close>

definition rr_ok :: "round_robin \<Rightarrow> bool" where
  "rr_ok rr \<longleftrightarrow> rr_current rr \<le> length (rr_iters rr) \<and> (rr_yielded rr \<longrightarrow> rr_current rr < length (rr_iters rr)) \<and>
     (\<not> rr_yielded rr \<longrightarrow> (\<forall>i<rr_current rr. rr_iters rr ! i = []))"

lemma mset_concat_update:
  "i < length xss \<Longrightarrow> mset (concat (xss[i := ys])) + mset (xss ! i) = mset (concat xss) + mset ys"
  by (induction xss arbitrary: i) (auto split: nat.split simp: less_Suc_eq_0_disj ac_simps)

lemma round_robin_turn_ok:
  assumes "rr_ok rr" "rr_current rr < length (rr_iters rr)" "round_robin_turn rr = (item, rr')"
  shows "rr_ok rr'"
    "mset (concat (rr_iters rr)) = mset (concat (rr_iters rr')) + (case item of Some x \<Rightarrow> {#x#} | None \<Rightarrow> {#})"
proof -
  let ?iter = "rr_iters rr ! rr_current rr"
  show "rr_ok rr'"
    using assms by (auto simp: rr_ok_def round_robin_turn_def Let_def nth_list_update less_Suc_eq split: if_splits list.splits)
  show "mset (concat (rr_iters rr)) = mset (concat (rr_iters rr')) + (case item of Some x \<Rightarrow> {#x#} | None \<Rightarrow> {#})"
    using assms(3) mset_concat_update [OF assms(2), of "tl ?iter"]
    by (cases ?iter) (auto simp: round_robin_turn_def Let_def split: if_splits)
qed

lemma round_robin_next_ok:
  assumes "rr_ok rr" "round_robin_next rr = (item, rr')"
  shows "case item of
      Some x \<Rightarrow> rr_ok rr' \<and> mset (concat (rr_iters rr)) = add_mset x (mset (concat (rr_iters rr')))
    | None \<Rightarrow> concat (rr_iters rr) = []"
  using assms
proof (induction rr rule: round_robin_next.induct)
  case (1 rr)
  show ?case
  proof (cases "rr_current rr < length (rr_iters rr)")
    case True
    obtain x rr1 where t: "round_robin_turn rr = (x, rr1)" by (cases "round_robin_turn rr")
    note T = round_robin_turn_ok [OF 1(2) True t]
    show ?thesis
    proof (cases x)
      case None
      then have "round_robin_next rr1 = (item, rr')" using 1(3) True t by (simp add: round_robin_next.simps [of rr])
      then show ?thesis using 1(1) [OF True t [symmetric] None T(1)] T(2) None by (auto split: option.splits)
    next
      case (Some y)
      then have "item = Some y" "rr' = rr1" using 1(3) True t by (simp_all add: round_robin_next.simps [of rr])
      then show ?thesis using T Some by simp
    qed
  next
    case False
    then have "item = None" using 1(3) by (simp add: round_robin_next.simps [of rr])
    moreover have "rr_iters rr ! i = []" if "i < length (rr_iters rr)" for i using 1(2) False that by (auto simp: rr_ok_def)
    then have "concat (rr_iters rr) = []" by (auto simp: in_set_conv_nth)
    ultimately show ?thesis by simp
  qed
qed

lemma round_robin_all_ok: "rr_ok rr \<Longrightarrow> mset (round_robin_all rr) = mset (concat (rr_iters rr))"
proof (induction rr rule: round_robin_all.induct)
  case (1 rr)
  obtain item rr' where n: "round_robin_next rr = (item, rr')" by (cases "round_robin_next rr")
  show ?case
    using round_robin_next_ok [OF 1(2) n] 1(1) [OF n [symmetric]] n
    by (cases item) (simp_all add: round_robin_all.simps [of rr])
qed

section \<open>The elections\<close>

lemma concat_filter_not_Nil: "concat (filter (\<lambda>b. b \<noteq> []) xss) = concat xss"
  by (induction xss) auto

lemma in_set_concat_nth: "x \<in> set (concat xss) \<longleftrightarrow> (\<exists>i<length xss. x \<in> set (xss ! i))"
  by (metis UN_iff in_set_conv_nth set_concat)

lemma distinct_concat_map_nth:
  assumes "\<And>i. i < length xss \<Longrightarrow> distinct (map f (xss ! i))"
    "\<And>i j x y. i < length xss \<Longrightarrow> j < length xss \<Longrightarrow> x \<in> set (xss ! i) \<Longrightarrow> y \<in> set (xss ! j) \<Longrightarrow> f x = f y \<Longrightarrow> i = j"
  shows "distinct (map f (concat xss))"
  using assms
proof (induction xss)
  case (Cons xs xss)
  have "distinct (map f (concat xss))"
  proof (rule Cons.IH)
    show "distinct (map f (xss ! i))" if "i < length xss" for i using Cons.prems(1) [of "Suc i"] that by simp
    show "i = j" if "i < length xss" "j < length xss" "x \<in> set (xss ! i)" "y \<in> set (xss ! j)" "f x = f y" for i j x y
      using Cons.prems(2) [of "Suc i" "Suc j" x y] that by simp
  qed
  moreover have "f x \<noteq> f y" if xy: "x \<in> set xs" "y \<in> set (concat xss)" for x y
  proof
    assume eq: "f x = f y"
    obtain j where "j < length xss" "y \<in> set (xss ! j)" using xy(2) in_set_concat_nth by metis
    then show False using Cons.prems(2) [of 0 "Suc j" x y] xy(1) eq by simp
  qed
  ultimately show ?case using Cons.prems(1) [of 0] by (auto simp: image_iff)
qed simp

lemma buckets_roots:
  assumes ok: "buckets_ok m bs"
  shows "mset (map be_root (concat bs)) = mset_set (fmdom' m)"
proof -
  note B = buckets_okD [OF ok]
  have inj: "x = y \<and> i = j" if "i < bucket_count" "j < bucket_count" "x \<in> set (bs ! i)" "y \<in> set (bs ! j)" "be_root x = be_root y" for i j x y
    using B(4) [OF that(1), of x] B(4) [OF that(2), of y] that(3-5) by (auto intro: bucket_entry.expand)
  have "distinct (map be_root (concat bs))"
  proof (rule distinct_concat_map_nth)
    show "distinct (map be_root (bs ! i))" if "i < length bs" for i
      using B(1,3) that inj by (auto simp: distinct_map inj_on_def)
    show "i = j" if "i < length bs" "j < length bs" "x \<in> set (bs ! i)" "y \<in> set (bs ! j)" "be_root x = be_root y" for i j x y
      using inj that B(1) by metis
  qed
  moreover have "set (map be_root (concat bs)) = fmdom' m"
  proof (intro set_eqI iffI)
    fix r assume "r \<in> set (map be_root (concat bs))"
    then obtain x where "x \<in> set (concat bs)" "r = be_root x" unfolding set_map by blast
    moreover from this obtain i where "i < bucket_count" "x \<in> set (bs ! i)" using in_set_concat_nth B(1) by metis
    ultimately show "r \<in> fmdom' m" using B(4) by (auto simp: fmlookup_dom'_iff)
  next
    fix r assume "r \<in> fmdom' m"
    then obtain en where en: "tbl_get m r = Some en" by (auto simp: fmlookup_dom'_iff)
    obtain i where i: "entry_bucket en = Some i" "i < bucket_count" using entry_bucket_total by blast
    then have "BucketEntry r (en_priority en) \<in> set (bs ! i)" using B(4) [OF i(2)] en by simp
    moreover have "bs ! i \<in> set bs" using i(2) B(1) by simp
    ultimately have "BucketEntry r (en_priority en) \<in> set (concat bs)" by auto
    then show "r \<in> set (map be_root (concat bs))" by force
  qed
  ultimately show ?thesis by (metis mset_set_set)
qed

lemma while_some_all: "while_some (map Some xs) = xs"
  by (induction xs) auto

lemma rc_iter_ok:
  assumes "buckets_ok (rc_by_root rc) (rc_buckets rc)"
  shows "mset (rc_iter rc) = image_mset (\<lambda>r. the (tbl_get (rc_by_root rc) r)) (mset_set (fmdom' (rc_by_root rc)))"
proof -
  let ?xs = "round_robin_all (round_robin_new rc)" and ?m = "rc_by_root rc"
  have "rr_ok (round_robin_new rc)" by (auto simp: rr_ok_def round_robin_new_def)
  then have "mset ?xs = mset (concat (rr_iters (round_robin_new rc)))" by (rule round_robin_all_ok)
  also have "\<dots> = mset (concat (rc_buckets rc))"
    by (simp add: round_robin_new_def concat_filter_not_Nil mset_concat rev_map [symmetric])
  finally have xs: "mset ?xs = mset (concat (rc_buckets rc))" .
  have roots: "mset (map be_root ?xs) = mset_set (fmdom' ?m)"
    using buckets_roots [OF assms] xs by (metis mset_map)
  then have "be_root x \<in> fmdom' ?m" if "x \<in> set ?xs" for x
    using that by (metis finite_fmdom' finite_set_mset_mset_set image_eqI list.set_map set_mset_mset)
  then have "map (\<lambda>x. tbl_get ?m (be_root x)) ?xs = map Some (map (\<lambda>r. the (tbl_get ?m r)) (map be_root ?xs))"
    by (auto simp: fmlookup_dom'_iff)
  then have "rc_iter rc = map (\<lambda>r. the (tbl_get ?m r)) (map be_root ?xs)"
    by (simp only: rc_iter_def while_some_all)
  then show ?thesis using roots by (metis mset_map)
qed

end
