(* ===== verification/Election_Safety.thy ===== *)
theory Election_Safety
  imports Active_Steps Round_Robin
begin

text \<open>
  Safety of elections: the life of one election as a transition system (an ended election keeps
  its winner and its verdict, and a representative never goes back to an older vote), and the
  intersection of quorums (two elections that are confirmed with the same weights have the same
  winner, unless a representative has signed two final votes).
\<close>

section \<open>The life of an election\<close>

inductive election_step :: "election \<Rightarrow> election \<Rightarrow> bool" where
  fork: "permutes ord \<Longrightarrow> el_try_add_fork ord b tally e = Some (r, e') \<Longrightarrow> election_step e e'"
| vote: "permutes vord \<Longrightarrow> h \<in> candidate_hashes e \<Longrightarrow> apply_vote_to_election vord a h e c = Some (r, e', c') \<Longrightarrow>
    election_step e e'"
| time: "election_step e (el_transition_time now e)"
| cancel: "election_step e (el_cancel e)"
| activate: "election_step e (el_transition_active e)"
| upgrade: "election_step e (snd (maybe_upgrade_to kind e))"
| force: "election_step e (snd (el_force_confirm e))"
| remove_vote: "election_step e (el_remove_vote k e)"
| voted: "election_step e (voted t now e)"

lemma vote_when_ended:
  assumes "has_ended (el_state e)" "apply_vote_to_election ord a h e c = Some (r, e', c')"
  shows "el_state e' = el_state e" "el_winner e' = el_winner e"
  using assms
  by (auto simp: apply_vote_to_election_def confirm_if_quorum_def update_tallies_def el_add_vote_def Let_def
      split: if_splits option.splits)

lemma fork_when_ended:
  "has_ended (el_state e) \<Longrightarrow> el_try_add_fork ord b tally e = Some (r, e') \<Longrightarrow> e' = e"
  by (simp add: el_try_add_fork_def)

lemma has_ended_transition:
  assumes "has_ended (el_state e)"
  shows "el_state (el_transition_time now e) = (if el_state e = Confirmed then ExpiredConfirmed else el_state e)"
  using assms by (cases "el_state e") (auto simp: el_transition_time_def has_ended_def Let_def)

text \<open>An election that has ended keeps its winner, and it stays confirmed or unconfirmed.\<close>

lemma ended_step:
  assumes "election_step e e'" "has_ended (el_state e)"
  shows "has_ended (el_state e') \<and> el_winner e' = el_winner e \<and> el_is_confirmed e' = el_is_confirmed e"
  using assms
proof (cases rule: election_step.cases)
  case (fork ord b tally r)
  then show ?thesis using fork_when_ended assms(2) by blast
next
  case (vote vord h a c r c')
  then show ?thesis using vote_when_ended [OF assms(2)] assms(2) by (simp add: el_is_confirmed_def)
next
  case (time now)
  then show ?thesis
    using has_ended_transition [OF assms(2), of now] assms(2)
    by (auto simp: el_is_confirmed_def state_is_confirmed_def has_ended_def el_transition_time_def Let_def)
next
  case (voted t now)
  then show ?thesis using assms(2) by (cases t) (simp_all add: voted_def el_is_confirmed_def)
qed (use assms(2) in \<open>auto simp: el_cancel_def el_transition_active_def maybe_upgrade_to_def el_force_confirm_def
    el_remove_vote_def el_is_confirmed_def has_ended_def\<close>)

lemma ended_steps:
  assumes "election_step\<^sup>*\<^sup>* e e'" "has_ended (el_state e)"
  shows "has_ended (el_state e') \<and> el_winner e' = el_winner e \<and> el_is_confirmed e' = el_is_confirmed e"
  using assms by (induction rule: rtranclp_induct) (auto dest: ended_step)

text \<open>The votes of an election after one step: unchanged, gone, or newer.\<close>

definition vote_advances :: "vote_summary \<Rightarrow> vote_summary \<Rightarrow> bool" where
  "vote_advances v v' \<longleftrightarrow> vs_created v' = vs_created v \<and> vs_hash v' = vs_hash v \<or> newer_vote (vs_created v') (vs_hash v') v"

lemma vote_advances_refl [simp]: "vote_advances v v"
  by (simp add: vote_advances_def)

lemma vote_advances_weight [simp]: "vote_advances v (v'\<lparr>vs_weight := w\<rparr>) = vote_advances v v'"
  by (simp add: vote_advances_def)

lemma update_tallies_el_votes:
  assumes "update_tallies ord ws d e = Some e'"
  shows "el_votes e' = el_votes e \<or> el_votes e' = el_votes (update_vote_weights ws e)"
  using assms
  by (auto simp: update_tallies_def recalculate_tallies_def change_winner_to_def update_winner_tally_def try_set_quorum_def
      try_confirm_def Let_def split: if_splits Option.bind_splits option.splits)

lemma update_tallies_votes:
  assumes "update_tallies ord ws d e = Some e'" "tbl_get (el_votes e') k = Some v'"
  obtains v w where "tbl_get (el_votes e) k = Some v" "v' = v \<or> v' = v\<lparr>vs_weight := w\<rparr>"
proof -
  have "\<exists>v w. tbl_get (el_votes e) k = Some v \<and> (v' = v \<or> v' = v\<lparr>vs_weight := w\<rparr>)"
    using update_tallies_el_votes [OF assms(1)] assms(2) by (auto simp: update_vote_weights_def) blast
  then show thesis using that by blast
qed

lemma update_tallies_kept_votes:
  assumes "update_tallies ord ws d e = Some e'" "tbl_get (el_votes e) k = Some v"
  obtains w where "tbl_get (el_votes e') k = Some (v\<lparr>vs_weight := w\<rparr>)"
proof -
  have "el_votes e' = el_votes e \<or> el_votes e' = el_votes (update_vote_weights ws e)"
    by (rule update_tallies_el_votes [OF assms(1)])
  then have "tbl_get (el_votes e') k = Some (v\<lparr>vs_weight := vs_weight v\<rparr>) \<or>
      (\<exists>w. tbl_get (el_votes e') k = Some (v\<lparr>vs_weight := w\<rparr>))"
    using assms(2) by (auto simp: update_vote_weights_def)
  then show thesis using that by blast
qed

lemma vote_votes:
  assumes "apply_vote_to_election ord a h e c = Some (r, e', c')" "tbl_get (el_votes e) k = Some v"
    "tbl_get (el_votes e') k = Some v'"
  shows "vote_advances v v'"
proof (cases "r = Inr ()")
  case True
  then obtain c1 where q: "confirm_if_quorum ord a (with_vote a h e) c = Some (e', c1)" and t: "takes_vote a h e"
    using assms(1)
    by (auto simp: apply_vote_to_election_def takes_vote_def ensure_no_replay_iff Let_def
        split: if_splits option.splits Option.bind_splits)
  then have u: "update_tallies ord (av_rep_weights a) (av_delta a) (with_vote a h e) = Some e'"
    by (auto simp: confirm_if_quorum_def Let_def split: Option.bind_splits)
  obtain x w where x: "tbl_get (el_votes (with_vote a h e)) k = Some x" "v' = x \<or> v' = x\<lparr>vs_weight := w\<rparr>"
    by (rule update_tallies_votes [OF u assms(3)])
  then have "vote_advances v x"
    using t assms(2) by (auto simp: el_add_vote_def takes_vote_def vote_advances_def split: if_splits)
  then show ?thesis using x(2) by auto
next
  case False
  then have "e' = e"
    using assms(1) by (auto simp: apply_vote_to_election_def Let_def split: if_splits option.splits Option.bind_splits)
  then show ?thesis using assms(2,3) by simp
qed

lemma fork_votes:
  assumes "el_try_add_fork ord b tally e = Some (r, e')" "tbl_get (el_votes e') k = Some v'"
  shows "tbl_get (el_votes e) k = Some v'"
  using assms
  by (auto simp: el_try_add_fork_def insert_candidate_def remove_tally_below_def remove_block_def Let_def
      split: if_splits option.splits Option.bind_splits)

lemma election_step_votes:
  assumes "election_step e e'" "tbl_get (el_votes e) k = Some v" "tbl_get (el_votes e') k = Some v'"
  shows "vote_advances v v'"
  using assms
proof (cases rule: election_step.cases)
  case (fork ord b tally r)
  then show ?thesis using fork_votes assms(2,3) by fastforce
next
  case (vote vord h a c r c')
  then show ?thesis using vote_votes assms(2,3) by blast
next
  case (voted t now)
  then show ?thesis using assms(2,3) by (cases t) (simp_all add: voted_def)
qed (use assms(2,3) in \<open>auto simp: el_transition_time_def el_cancel_def el_transition_active_def maybe_upgrade_to_def
    el_force_confirm_def el_remove_vote_def Let_def split: if_splits\<close>)

section \<open>Intersection of quorums\<close>

definition total_weight :: "(public_key, amount) table \<Rightarrow> nat" where
  "total_weight ws = (\<Sum>(k, w)\<leftarrow>tbl_entries ws. unat w)"

lemma total_weight_sum: "total_weight ws = (\<Sum>k\<in>fmdom' ws. unat (the (tbl_get ws k)))"
proof -
  have "fmdom' ws = dom (tbl_get ws)" by (auto simp: fmlookup_dom'_iff)
  then show ?thesis unfolding total_weight_def using lmdb.sum_entries [of "\<lambda>k w. unat w" ws] by simp
qed

text \<open>The weight of the voters in a set.\<close>

definition voters_weight :: "(public_key, amount) table \<Rightarrow> public_key set \<Rightarrow> nat" where
  "voters_weight ws K = (\<Sum>k\<in>K. unat (unwrap_or_zero (tbl_get ws k)))"

lemma voters_weight_le:
  assumes "finite K"
  shows "voters_weight ws K \<le> total_weight ws"
proof -
  have "voters_weight ws K = (\<Sum>k\<in>K \<inter> fmdom' ws. unat (the (tbl_get ws k)))"
    unfolding voters_weight_def using assms
    by (intro sum.mono_neutral_cong_right) (auto simp: fmlookup_dom'_iff)
  also have "\<dots> \<le> total_weight ws" unfolding total_weight_sum by (rule sum_mono2) auto
  finally show ?thesis .
qed

lemma weight_of_votes_voters:
  "weight_of_votes ws P votes = voters_weight ws {k \<in> fmdom' votes. P (the (tbl_get votes k))}"
  unfolding weight_of_votes_def voters_weight_def by (simp add: sum.inter_filter)

text \<open>Two disjoint sets of voters share the total weight.\<close>

lemma disjoint_quorums:
  assumes fit: "total_weight ws < 2 ^ 128" and fin: "finite A" "finite B" and disj: "A \<inter> B = {}"
    and q: "d1 \<le> (of_nat (voters_weight ws A) :: amount)" "d2 \<le> (of_nat (voters_weight ws B) :: amount)"
  shows "unat d1 + unat d2 \<le> total_weight ws"
proof -
  have "unat (of_nat (voters_weight ws K) :: amount) = voters_weight ws K" if "finite K" for K
    using voters_weight_le [OF that, of ws] fit by (simp add: unat_of_nat)
  then have "unat d1 \<le> voters_weight ws A" "unat d2 \<le> voters_weight ws B"
    using q fin by (auto simp: word_le_nat_alt)
  moreover have "voters_weight ws A + voters_weight ws B = voters_weight ws (A \<union> B)"
    unfolding voters_weight_def using fin disj by (simp add: sum.union_disjoint)
  moreover have "voters_weight ws (A \<union> B) \<le> total_weight ws" using fin by (intro voters_weight_le) simp
  ultimately show ?thesis by linarith
qed

text \<open>No representative appears with final votes for two different blocks.\<close>

definition no_double_vote :: "(public_key, vote_summary) table \<Rightarrow> (public_key, vote_summary) table \<Rightarrow> bool" where
  "no_double_vote votes1 votes2 \<longleftrightarrow> (\<forall>k v1 v2. tbl_get votes1 k = Some v1 \<and> tbl_get votes2 k = Some v2 \<and>
     is_final_vote v1 \<and> is_final_vote v2 \<longrightarrow> vs_hash v1 = vs_hash v2)"

lemma quorums_agree:
  assumes q: "quorum_event ws d1 (ElectionConfirmed ce1)" "quorum_event ws d2 (ElectionConfirmed ce2)"
    and fit: "total_weight ws < 2 ^ 128" and big: "total_weight ws < unat d1 + unat d2"
    and honest: "no_double_vote (ce_votes ce1) (ce_votes ce2)"
  shows "maybe_hash (ce_winner ce1) = maybe_hash (ce_winner ce2)"
proof (rule ccontr)
  assume ne: "maybe_hash (ce_winner ce1) \<noteq> maybe_hash (ce_winner ce2)"
  let ?K = "\<lambda>ce. {k \<in> fmdom' (ce_votes ce). vs_hash (the (tbl_get (ce_votes ce) k)) = maybe_hash (ce_winner ce) \<and>
     is_final_vote (the (tbl_get (ce_votes ce) k))}"
  have "?K ce1 \<inter> ?K ce2 = {}"
    using ne honest unfolding no_double_vote_def by (auto simp: fmlookup_dom'_iff)
  moreover have "d1 \<le> of_nat (voters_weight ws (?K ce1))" "d2 \<le> of_nat (voters_weight ws (?K ce2))"
    using q by (auto simp: quorum_event_def weight_of_votes_voters)
  ultimately have "unat d1 + unat d2 \<le> total_weight ws"
    by (intro disjoint_quorums [OF fit, of "?K ce1" "?K ce2"]) auto
  then show False using big by simp
qed

end
