(* ===== verification/Consensus.thy ===== *)
theory Consensus
  imports Election_Safety Sample
begin

text \<open>
  The properties of votes, elections and the container of active elections, each with a
  concrete instance.
\<close>

section \<open>A sample election\<close>

text \<open>
  The election for the block that opens account 2 of the sample ledger, in which the
  representative 7 has all the weight.
\<close>

definition sample_block :: saved_block where
  "sample_block = saved_block_new sample_open (genesis_sideband 1)"

definition sample_root_of :: "block_hash \<Rightarrow> qualified_root" where
  "sample_root_of h = qualified_root_of sample_open"

definition sample_weights :: "(public_key, amount) table" where
  "sample_weights = tbl_put 7 100 fmempty"

definition sample_request :: aec_insert_request where
  "sample_request = \<lparr>rq_block = sample_block, rq_behavior = Hinted, rq_priority = BlockPriority 100 (TimePriority 5)\<rparr>"

definition sample_election :: election where
  "sample_election = election_new sample_block Hinted 1 0"

definition sample_vote :: apply_vote_args where
  "sample_vote = \<lparr>av_vote = \<lparr>vt_timestamp = vote_timestamp_FINAL, vt_voter = 7, vt_signature = 0, vt_hashes = [12]\<rparr>,
     av_source = Live, av_filter = 0, av_rep_weights = sample_weights,
     av_quorum_specs = \<lparr>qs_online_weight = 100, qs_quorum_delta = 60\<rparr>, av_now = 5\<rparr>"


lemma sample_hash [simp]: "block_hash_of (svb_block sample_block) = 12"
  by (simp add: sample_block_def sample_defs saved_block_new_def)

lemma sample_hash_ok: "hash_ok sample_root_of (svb_block (rq_block sample_request))"
  by (simp add: sample_request_def sample_root_of_def) (simp add: sample_block_def saved_block_new_def)

text \<open>A container with that election.\<close>

lemma sample_aec:
  obtains c where "(aec_step sample_root_of)\<^sup>*\<^sup>* (aec_new 5 5 1) c" "\<not> ac_stopped c"
    "aec_insert sample_request 0 (aec_new 5 5 1) = Some (Inr (), c)" "is_active_root (qualified_root_of sample_open) c"
proof -
  let ?c = "aec_new 5 5 1"
  have h: "saved_hash (rq_block sample_request) \<noteq> 0"
    "sample_root_of (saved_hash (rq_block sample_request)) = rq_root sample_request"
    using sample_hash_ok by auto
  obtain res c where c: "aec_insert sample_request 0 ?c = Some (res, c)"
    "res = (if ac_stopped ?c then Inl Stopped
       else if root_exists (rq_root sample_request) (ac_recently_confirmed ?c) then Inl RecentlyConfirmed
       else (case tbl_get (rc_by_root (ac_roots ?c)) (rq_root sample_request) of
          Some en \<Rightarrow> if upgrades sample_request en then Inr () else Inl AecDuplicate | None \<Rightarrow> Inr ()))"
    "rc_by_root (ac_roots c) = (if res = Inr () then tbl_put (rq_root sample_request)
        (case tbl_get (rc_by_root (ac_roots ?c)) (rq_root sample_request) of
           Some en \<Rightarrow> en\<lparr>en_election := (en_election en)\<lparr>el_behavior := Priority\<rparr>\<rparr>
         | None \<Rightarrow> \<lparr>en_root = rq_root sample_request,
             en_election = election_new (rq_block sample_request) (rq_behavior sample_request) (ac_base_latency ?c) 0,
             en_priority = rq_priority sample_request\<rparr>)
        (rc_by_root (ac_roots ?c)) else rc_by_root (ac_roots ?c))"
    by (rule aec_insert_ok [OF aec_new_inv [of sample_root_of 5 5 1] h])
  have res: "res = Inr ()"
    using c(2) by (simp add: aec_new_def root_container_default_def root_exists_def rcc_new_def)
  have root: "rq_root sample_request = qualified_root_of sample_open"
    by (simp add: sample_request_def sample_block_def saved_block_new_def)
  have step: "aec_step sample_root_of ?c c" using sample_hash_ok c(1) by (rule aec_step.insert [where root_of = sample_root_of])
  have act: "is_active_root (qualified_root_of sample_open) c"
    using c(3) res by (simp add: is_active_root_def root)
  then have "\<not> ac_stopped c"
    using aec_invD(3) [OF aec_step_inv [OF step aec_new_inv [of sample_root_of 5 5 1]]] by (auto simp: is_active_root_def)
  then show thesis using that step c(1) res act by blast
qed

lemma sample_election_facts:
  "election_inv sample_election" "12 \<in> candidate_hashes sample_election" "takes_vote sample_vote 12 sample_election"
proof -
  show "election_inv sample_election" unfolding sample_election_def by (rule election_new_inv) simp
  show "12 \<in> candidate_hashes sample_election" by (simp add: sample_election_def election_new_def)
  show "takes_vote sample_vote 12 sample_election"
    by (simp add: takes_vote_def sample_election_def election_new_def el_is_confirmed_def state_is_confirmed_def)
qed

section \<open>The container\<close>

text \<open>
  C22. In every container reached from an empty one by any sequence of its operations, a block
  hash is routed exactly if it is a candidate of an active election, the election counters add
  up to the number of elections, every election is filed under the root all its candidates
  share, its winner is one of at most ten candidates, and its bucket holds it.
\<close>

theorem reachable_aec_ok:
  assumes "(aec_step root_of)\<^sup>*\<^sup>* (aec_new n k l) c" "\<not> ac_stopped c"
  shows "(is_active_hash h c \<longleftrightarrow>
      (\<exists>r en. tbl_get (rc_by_root (ac_roots c)) r = Some en \<and> tbl_get (el_candidates (en_election en)) h \<noteq> None)) \<and>
    (\<Sum>b\<in>{Manual, Priority, Hinted, Optimistic}. ac_count c b) = rc_len (ac_roots c) \<and>
    (\<forall>r en. tbl_get (rc_by_root (ac_roots c)) r = Some en \<longrightarrow>
       (\<forall>h b. tbl_get (el_candidates (en_election en)) h = Some b \<longrightarrow> qualified_root_of (maybe_block b) = r) \<and>
       tbl_get (el_candidates (en_election en)) (maybe_hash (el_winner (en_election en))) = Some (el_winner (en_election en)) \<and>
       block_count (en_election en) \<le> MAX_BLOCKS \<and>
       (\<exists>i. entry_bucket en = Some i \<and> BucketEntry r (en_priority en) \<in> set (rc_buckets (ac_roots c) ! i)))"
proof (intro conjI allI impI)
  have inv: "aec_inv root_of [] c" by (rule reachable_aec_inv [OF assms(1)])
  note O = aec_inv_observed [OF inv assms(2)]
  note I = rc_invD [OF aec_invD(1) [OF inv]]
  show "is_active_hash h c \<longleftrightarrow>
      (\<exists>r en. tbl_get (rc_by_root (ac_roots c)) r = Some en \<and> tbl_get (el_candidates (en_election en)) h \<noteq> None)"
    by (rule O(1))
  show "(\<Sum>b\<in>{Manual, Priority, Hinted, Optimistic}. ac_count c b) = rc_len (ac_roots c)" by (rule O(2))
  fix r en assume en: "tbl_get (rc_by_root (ac_roots c)) r = Some en"
  note E = entry_okD [OF I(1) [OF en]]
  note V = election_invD [OF E(3)]
  show "qualified_root_of (maybe_block b) = r" if "tbl_get (el_candidates (en_election en)) h = Some b" for h b
    using V(3) [OF that] E(2) by simp
  show "tbl_get (el_candidates (en_election en)) (maybe_hash (el_winner (en_election en))) = Some (el_winner (en_election en))"
    by (rule V(4))
  show "block_count (en_election en) \<le> MAX_BLOCKS" using V(5) by (simp add: block_count_eq)
  obtain i where i: "entry_bucket en = Some i" "i < bucket_count" using entry_bucket_total by blast
  then show "\<exists>i. entry_bucket en = Some i \<and> BucketEntry r (en_priority en) \<in> set (rc_buckets (ac_roots c) ! i)"
    using buckets_okD(4) [OF I(3) i(2), of "BucketEntry r (en_priority en)"] en by auto
qed

theorem reachable_aec_ok_witness:
  "\<exists>c. (aec_step sample_root_of)\<^sup>*\<^sup>* (aec_new 5 5 1) c \<and> is_active_root (qualified_root_of sample_open) c \<and>
     (\<Sum>b\<in>{Manual, Priority, Hinted, Optimistic}. ac_count c b) = rc_len (ac_roots c)"
proof (rule sample_aec)
  fix c assume "(aec_step sample_root_of)\<^sup>*\<^sup>* (aec_new 5 5 1) c" "\<not> ac_stopped c"
    "is_active_root (qualified_root_of sample_open) c"
  then show ?thesis using reachable_aec_ok [of sample_root_of 5 5 1 c 0] by blast
qed



text \<open>
  C24. Starting an election: a stopped container, a recently confirmed root and an active root
  are refused with their error, except that a priority request upgrades a hinted or optimistic
  election; otherwise a new election for the block is active, and no other election changes.
\<close>

theorem aec_insert_verdict:
  assumes "(aec_step root_of)\<^sup>*\<^sup>* (aec_new n k l) c" "hash_ok root_of (svb_block (rq_block rq))"
  shows "\<exists>res c'. aec_insert rq now c = Some (res, c') \<and>
    res = (if ac_stopped c then Inl Stopped
       else if root_exists (rq_root rq) (ac_recently_confirmed c) then Inl RecentlyConfirmed
       else (case tbl_get (rc_by_root (ac_roots c)) (rq_root rq) of
          Some en \<Rightarrow> if rq_behavior rq = Priority \<and> entry_kind en \<in> {Hinted, Optimistic} then Inr () else Inl AecDuplicate
        | None \<Rightarrow> Inr ())) \<and>
    (is_active_root (rq_root rq) c' \<longleftrightarrow> is_active_root (rq_root rq) c \<or> res = Inr ()) \<and>
    (\<forall>r. r \<noteq> rq_root rq \<or> res \<noteq> Inr () \<longrightarrow>
       tbl_get (rc_by_root (ac_roots c')) r = tbl_get (rc_by_root (ac_roots c)) r)"
proof -
  have inv: "aec_inv root_of [] c" by (rule reachable_aec_inv [OF assms(1)])
  have rq: "saved_hash (rq_block rq) \<noteq> 0" "root_of (saved_hash (rq_block rq)) = rq_root rq" using assms(2) by auto
  have up: "upgrades rq en \<longleftrightarrow> rq_behavior rq = Priority \<and> entry_kind en \<in> {Hinted, Optimistic}" for en
    by (cases "entry_kind en") (auto simp: upgrades_def)
  show ?thesis
    by (rule aec_insert_ok [OF inv rq, of now]) (intro exI conjI, assumption, auto simp: up is_active_root_def split: option.splits)
qed

theorem aec_insert_verdict_witness:
  "\<exists>c res c'. is_active_root (qualified_root_of sample_open) c \<and>
     aec_insert sample_request 9 c = Some (res, c') \<and> res \<noteq> Inr ()"
proof (rule sample_aec)
  fix c assume c: "(aec_step sample_root_of)\<^sup>*\<^sup>* (aec_new 5 5 1) c" "is_active_root (qualified_root_of sample_open) c"
  have root: "rq_root sample_request = qualified_root_of sample_open"
    by (simp add: sample_request_def sample_block_def saved_block_new_def)
  have kind: "rq_behavior sample_request \<noteq> Priority" by (simp add: sample_request_def)
  from aec_insert_verdict [OF c(1) sample_hash_ok, of 9] show ?thesis
  proof (elim exE conjE)
    fix res c'
    assume ins: "aec_insert sample_request 9 c = Some (res, c')"
      and res: "res = (if ac_stopped c then Inl Stopped
       else if root_exists (rq_root sample_request) (ac_recently_confirmed c) then Inl RecentlyConfirmed
       else (case tbl_get (rc_by_root (ac_roots c)) (rq_root sample_request) of
          Some en \<Rightarrow> if rq_behavior sample_request = Priority \<and> entry_kind en \<in> {Hinted, Optimistic}
            then Inr () else Inl AecDuplicate
        | None \<Rightarrow> Inr ()))"
    then have "res \<noteq> Inr ()" using c(2) kind by (auto simp: root is_active_root_def)
    then show ?thesis using ins c(2) by blast
  qed
qed

text \<open>
  C25. The round robin iteration ends and visits every active election exactly once.
\<close>

theorem round_robin_complete:
  assumes "(aec_step root_of)\<^sup>*\<^sup>* (aec_new n k l) c"
  shows "mset (rc_iter (ac_roots c)) =
    image_mset (\<lambda>r. the (tbl_get (rc_by_root (ac_roots c)) r)) (mset_set (fmdom' (rc_by_root (ac_roots c))))"
  by (rule rc_iter_ok [OF rc_invD(3) [OF aec_invD(1) [OF reachable_aec_inv [OF assms]]]])

theorem round_robin_complete_witness:
  "\<exists>c. is_active_root (qualified_root_of sample_open) c \<and> mset (rc_iter (ac_roots c)) =
     image_mset (\<lambda>r. the (tbl_get (rc_by_root (ac_roots c)) r)) (mset_set (fmdom' (rc_by_root (ac_roots c))))"
proof (rule sample_aec)
  fix c assume "(aec_step sample_root_of)\<^sup>*\<^sup>* (aec_new 5 5 1) c" "is_active_root (qualified_root_of sample_open) c"
  then show ?thesis using round_robin_complete by blast
qed

section \<open>Votes\<close>

text \<open>
  C26. An election takes a vote for one of its candidates exactly if it is not confirmed, the
  vote is newer than the last one of the same representative (later, or for a higher hash at
  the same time), and the representative is not cooling down; it is counted for that block.
  A refused vote changes nothing.
\<close>

theorem vote_verdict:
  assumes "election_inv e" "h \<in> candidate_hashes e" "permutes ord"
  shows "\<exists>r e' c'. apply_vote_to_election ord a h e c = Some (r, e', c') \<and> election_inv e' \<and>
    (r = Inr () \<longleftrightarrow> \<not> el_is_confirmed e \<and>
       (\<forall>v. tbl_get (el_votes e) (av_voter a) = Some v \<longrightarrow>
          (vs_created v < vote_timestamp_of (av_vote a) \<or> vs_created v = vote_timestamp_of (av_vote a) \<and> vs_hash v < h) \<and>
          \<not> should_cool_down a v (av_weight a))) \<and>
    (r = Inr () \<longrightarrow> (\<exists>v. tbl_get (el_votes e') (av_voter a) = Some v \<and> vs_hash v = h \<and>
       vs_created v = vote_timestamp_of (av_vote a))) \<and>
    (r \<noteq> Inr () \<longrightarrow> e' = e \<and> c' = c)"
proof (cases rule: apply_vote_to_election_ok [OF assms, of a c, case_names taken rejected])
  case (taken e' c')
  have "tbl_get (el_votes (with_vote a h e)) (av_voter a) = Some \<lparr>vs_voter = av_voter a,
      vs_created = vote_timestamp_of (av_vote a), vs_received = av_now a, vs_hash = h, vs_weight = 0\<rparr>"
    by (simp add: el_add_vote_def)
  then have "\<exists>v. tbl_get (el_votes e') (av_voter a) = Some v \<and> vs_hash v = h \<and> vs_created v = vote_timestamp_of (av_vote a)"
    using update_tallies_kept_votes [OF taken(9)] by fastforce
  then show ?thesis using taken by (auto simp: takes_vote_def newer_vote_def)
next
  case (rejected err)
  then show ?thesis using assms(1) by (auto simp: takes_vote_def newer_vote_def split: option.splits)
qed

theorem vote_verdict_witness:
  "election_inv sample_election \<and> (\<exists>e' c'. apply_vote_to_election id sample_vote 12 sample_election (aec_new 5 5 1) =
     Some (Inr (), e', c') \<and> tbl_get (el_votes e') 7 \<noteq> None)"
proof -
  have v: "\<not> el_is_confirmed sample_election" "tbl_get (el_votes sample_election) (av_voter sample_vote) = None"
    by (simp_all add: sample_election_def election_new_def el_is_confirmed_def state_is_confirmed_def)
  show ?thesis
    using vote_verdict [OF sample_election_facts(1,2), of id sample_vote "aec_new 5 5 1"] v sample_election_facts(1)
    by (force simp: sample_vote_def)
qed



text \<open>
  C28. An election that has ended, confirmed or not, keeps its winner and its verdict for ever.
\<close>

theorem ended_election_is_final:
  assumes "election_step\<^sup>*\<^sup>* e e'" "has_ended (el_state e)"
  shows "has_ended (el_state e') \<and> el_winner e' = el_winner e \<and> el_is_confirmed e' = el_is_confirmed e"
  by (rule ended_steps [OF assms])

theorem ended_election_is_final_witness:
  "el_is_confirmed (el_transition_time 9 (snd (el_force_confirm sample_election))) \<and>
   el_winner (el_transition_time 9 (snd (el_force_confirm sample_election))) = Saved sample_block"
proof -
  let ?e = "snd (el_force_confirm sample_election)"
  have e: "has_ended (el_state ?e)" "el_is_confirmed ?e" "el_winner ?e = Saved sample_block"
    by (simp_all add: el_force_confirm_def sample_election_def election_new_def has_ended_def el_is_confirmed_def
        state_is_confirmed_def)
  then show ?thesis
    using ended_election_is_final [of ?e "el_transition_time 9 ?e"] election_step.time [of ?e 9] by auto
qed

section \<open>Confirmation\<close>





text \<open>
  C31. A vote with at most 255 hashes survives serialization and has the announced size.
\<close>

theorem vote_roundtrip:
  assumes "length (vt_hashes v) \<le> MAX_HASHES"
  shows "vote_deserialize (vote_serialize v) = Inr v \<and>
    length (vote_serialize v) = vote_serialized_size (length (vt_hashes v))"
  using vote_dec_enc [OF assms] vote_serialize_length by blast

theorem vote_roundtrip_witness:
  "vote_deserialize (vote_serialize (av_vote sample_vote)) = Inr (av_vote sample_vote) \<and>
   length (vote_serialize (av_vote sample_vote)) = 136"
  using vote_roundtrip [of "av_vote sample_vote"]
  by (simp add: sample_vote_def MAX_HASHES_def vote_serialized_size_def)

end
