(* ===== verification/Vote_Verifier.thy ===== *)
theory Vote_Verifier
  imports Lifecycle
begin

text \<open>
  Which blocks the node may vote for: \<^verbatim>\<open>ledger/src/vote_verifier.rs\<close>. A final vote
  is recorded in the table of final votes before it is generated. No operation of the ledger
  changes that table, so the node never signs final votes for two competing blocks.
  The debug assertion on the root is not modelled. When the transaction is refreshed in the
  middle of a call, the call corresponds to several calls on parts of the list.
\<close>

section \<open>Verification\<close>

definition should_vote_non_final :: "ledger_constants \<Rightarrow> block_hash \<Rightarrow> ledger \<Rightarrow> bool" where
  "should_vote_non_final C h L =
     (case any_get_block L h of
        None \<Rightarrow> False
      | Some b \<Rightarrow> dependents_confirmed C L b)"

definition should_vote_final :: "ledger_constants \<Rightarrow> block_hash \<Rightarrow> ledger \<Rightarrow> bool \<times> ledger" where
  "should_vote_final C h L =
     (case any_get_block L h of
        None \<Rightarrow> (False, L)
      | Some b \<Rightarrow>
          if dependents_confirmed C L b then final_vote_put (qualified_root_of (svb_block b)) h L
          else (False, L))"

fun verify_final_votes :: "ledger_constants \<Rightarrow> (root \<times> block_hash) list \<Rightarrow> ledger \<Rightarrow> (root \<times> block_hash) list \<times> ledger" where
  "verify_final_votes C [] L = ([], L)"
| "verify_final_votes C ((root, h) # rest) L =
     (let (ok, L) = should_vote_final C h L; (verified, L) = verify_final_votes C rest L
      in (if ok then (root, h) # verified else verified, L))"

definition verify_votes :: "ledger_constants \<Rightarrow> (root \<times> block_hash) list \<Rightarrow> bool \<Rightarrow> ledger \<Rightarrow>
    (root \<times> block_hash) list \<times> ledger" where
  "verify_votes C candidates is_final L =
     (if is_final then verify_final_votes C candidates L
      else (filter (\<lambda>(root, h). should_vote_non_final C h L) candidates, L))"

section \<open>The table of final votes\<close>

text \<open>Everything but the final votes may change.\<close>

abbreviation same_final_votes :: "ledger \<Rightarrow> ledger \<Rightarrow> bool" where
  "same_final_votes L L' \<equiv> st_final_vote L' = st_final_vote L"

lemma put_store_final: "put_store r p w L = Some L' \<Longrightarrow> same_final_votes L L'"
  by (auto simp: put_store_def rep_weight_del_def table_simps split: if_splits option.splits)

lemma cache_put_final [simp]: "st_final_vote (cache_put r w L) = st_final_vote L"
  by (simp add: cache_put_def)

lemma representation_final:
  "representation_add r a L = Some L' \<Longrightarrow> same_final_votes L L'"
  "representation_add_dual r a s b L = Some L' \<Longrightarrow> same_final_votes L L'"
  by (auto simp: representation_add_def representation_add_dual_def Let_def dest!: put_store_final
      split: if_splits Option.bind_splits)

lemma update_account_final: "update_account a i j L = Some L' \<Longrightarrow> same_final_votes L L'"
  by (auto simp: update_account_def account_del_def table_simps Let_def split: if_splits Option.bind_splits)

lemma insert_block_final: "insert_block b ins L = Some (r, L') \<Longrightarrow> same_final_votes L L'"
  by (auto simp: insert_block_def delete_old_pending_info_def insert_new_pending_info_def update_representative_cache_def
      pending_del_def table_simps Let_def dest!: update_account_final representation_final
      split: if_splits Option.bind_splits option.splits)

lemma insert_batch_final: "insert_batch xs L = Some (ps, L') \<Longrightarrow> same_final_votes L L'"
  by (induction xs L arbitrary: ps L' rule: insert_batch.induct)
    (auto dest!: insert_block_final split: Option.bind_splits)

lemma execute_rollback_final: "execute_rollback ins L = Some L' \<Longrightarrow> same_final_votes L L'"
  by (auto simp: execute_rollback_def rollback_pending_table_def rollback_account_table_def rollback_block_table_def
      roll_back_representative_cache_def pending_del_def successor_del_def table_simps Let_def
      dest!: update_account_final representation_final split: if_splits Option.bind_splits option.splits)

lemma performer_round_final:
  assumes "performer_round C now t h rest s = Some (Inl (e, s')) \<or> performer_round C now t h rest s = Some (Inr s')"
  shows "same_final_votes (pf_ledger s) (pf_ledger s')"
  using assms
  by (auto simp: performer_round_def Let_def dest!: execute_rollback_final
      split: if_splits Option.bind_splits sum.splits rollback_step.splits)

lemma roll_back_impl_final:
  assumes "roll_back_impl C now s = Some r"
  shows "same_final_votes (pf_ledger s) (pf_ledger (snd r))"
  using assms
proof (induction rule: roll_back_impl.raw_induct [rotated 1, consumes 1])
  case (1 impl C now s r)
  show ?case
  proof (cases "pf_targets s")
    case Nil
    then show ?thesis using 1(2) by auto
  next
    case (Cons t rest)
    obtain target head where t: "t = (target, head)" by (cases t)
    then obtain x where x: "performer_round C now target head rest s = Some x" using 1(2) Cons by (auto split: option.splits)
    show ?thesis
      using 1 Cons t x performer_round_final [of C now target head rest s]
      by (cases x) (auto split: prod.splits)
  qed
qed

lemma roll_back_with_tx_final: "roll_back_with_tx C now h L = Some (bs, e, L') \<Longrightarrow> same_final_votes L L'"
  by (auto simp: roll_back_with_tx_def performer_roll_back_def Let_def dest!: roll_back_impl_final
      split: sum.splits Option.bind_splits)

lemma roll_back_batch_final: "roll_back_batch_loop C now m can hs n L = Some (rs, L') \<Longrightarrow> same_final_votes L L'"
proof (induction hs arbitrary: n L rs)
  case (Cons h hs)
  consider "\<not> can h" | "can h" "block_get L h = None" | (found) b where "can h" "block_get L h = Some b" by fastforce
  then show ?case
  proof cases
    case found
    then obtain bs e L1 where r: "roll_back_with_tx C now (saved_hash b) L = Some (bs, e, L1)"
      using Cons.prems by (auto split: Option.bind_splits)
    show ?thesis
    proof (cases "m \<le> n + length bs")
      case True
      then show ?thesis using Cons.prems found r roll_back_with_tx_final [OF r] by simp
    next
      case False
      then show ?thesis using Cons.prems Cons.IH [of "n + length bs" L1] found r roll_back_with_tx_final [OF r] by auto
    qed
  qed (use Cons in auto)
qed simp

lemma rollback_competitor_final: "rollback_competitor C now b L = Some (bs, L') \<Longrightarrow> same_final_votes L L'"
  by (auto simp: rollback_competitor_def dest!: roll_back_with_tx_final split: if_splits option.splits)

lemma roll_back_competitors_final: "roll_back_competitors C now bs L = Some (rs, L') \<Longrightarrow> same_final_votes L L'"
proof (induction bs arbitrary: L rs)
  case (Cons b bs)
  then obtain rolled L1 rs1 where r: "rollback_competitor C now b L = Some (rolled, L1)"
    "roll_back_competitors C now bs L1 = Some (rs1, L')"
    by (auto split: Option.bind_splits if_splits)
  then show ?case using Cons.IH [OF r(2)] rollback_competitor_final [OF r(1)] by simp
qed simp

lemma cementer_round_final: "cementer_round C m h s = Some s' \<Longrightarrow> same_final_votes (cm_ledger s) (cm_ledger s')"
  by (auto simp: cementer_round_def cement_block_def Let_def split: list.splits if_splits Option.bind_splits)

lemma cementer_loop_final:
  assumes "cementer_loop C env m t s = Some s'" "env = quiet"
  shows "same_final_votes (cm_ledger s) (cm_ledger s')"
  using assms
proof (induction rule: cementer_loop.raw_induct [rotated 1, consumes 1])
  case (1 loop C env m t s s')
  show ?case
  proof (cases "cm_stack s")
    case Nil
    then show ?thesis using 1(2) by simp
  next
    case (Cons h rest)
    then obtain x where x: "cementer_round C m h s = Some x" using 1(2) by (auto split: option.splits)
    then show ?thesis
      using 1(1) [of C env m t "x\<lparr>cm_clock := cm_clock x + 1\<rparr>" s'] 1(2,3) Cons cementer_round_final [OF x] by (auto split: if_splits)
  qed
qed

lemma confirm_max_final: "confirm_max C quiet k t m L = Some (k', L', bs) \<Longrightarrow> same_final_votes L L'"
  by (auto simp: confirm_max_def dest!: cementer_loop_final)

lemma confirm_root_final:
  assumes "confirm_root C env stopped m r s = Some x" "env = quiet"
  shows "same_final_votes (cb_ledger s) (cb_ledger (snd x))"
  using assms
proof (induction rule: confirm_root.raw_induct [rotated 1, consumes 1])
  case (1 root C env stopped m r s x)
  have same: "cb_ledger (cb_notify quiet m s) = cb_ledger s" "cb_ledger (cb_refresh quiet s) = cb_ledger s"
    "cb_ledger (cb_added t bs s) = cb_ledger s" for s t bs
    by (auto simp: cb_notify_def cb_refresh_def cb_added_def)
  show ?case
    using 1(1) [of C env stopped m r _ x] 1(2,3)
    by (auto simp: Let_def same dest!: confirm_max_final split: if_splits option.splits)
qed

lemma confirm_roots_final:
  "confirm_roots C quiet stopped m rs s = Some (b, s') \<Longrightarrow> same_final_votes (cb_ledger s) (cb_ledger s')"
  by (induction C quiet stopped m rs s arbitrary: b s' rule: confirm_roots.induct)
    (force dest!: confirm_root_final split: option.splits bool.splits prod.splits)+

lemma ledger_step_final: "ledger_step C verify L L' \<Longrightarrow> same_final_votes L L'"
  by (erule ledger_step.cases)
    (auto simp: process_batch_def roll_back_batch_def confirm_batch_def
      dest!: insert_batch_final roll_back_batch_final roll_back_competitors_final confirm_roots_final
      split: Option.bind_splits)

section \<open>Final votes of the node\<close>

lemma should_vote_final_grows:
  assumes "should_vote_final C h L = (ok, L')" "final_vote_get L r = Some k"
  shows "final_vote_get L' r = Some k"
  using assms by (auto simp: should_vote_final_def final_vote_put_def split: option.splits if_splits)

lemma should_vote_final_only: "\<exists>t. snd (should_vote_final C h L) = L\<lparr>st_final_vote := t\<rparr>"
  by (auto simp: should_vote_final_def final_vote_put_def intro: exI [of _ "st_final_vote L"] split: option.splits)

lemma should_vote_final_True:
  assumes "should_vote_final C h L = (True, L')"
  obtains b where "any_get_block L h = Some b" "dependents_confirmed C L b"
    "final_vote_get L' (qualified_root_of (svb_block b)) = Some h"
  using assms by (auto simp: should_vote_final_def final_vote_put_def split: option.splits if_splits)

lemma verify_final_votes_grows:
  "verify_final_votes C cs L = (vs, L') \<Longrightarrow> final_vote_get L r = Some k \<Longrightarrow> final_vote_get L' r = Some k"
proof (induction C cs L arbitrary: vs L' rule: verify_final_votes.induct)
  case (2 C root h rest L)
  then show ?case using should_vote_final_grows by (fastforce simp: Let_def split: prod.splits)
qed simp

lemma verify_final_votes_only: "\<exists>t. snd (verify_final_votes C cs L) = L\<lparr>st_final_vote := t\<rparr>"
proof (induction cs arbitrary: L)
  case Nil
  show ?case by (intro exI [of _ "st_final_vote L"]) simp
next
  case (Cons c cs)
  obtain t where "snd (should_vote_final C (snd c) L) = L\<lparr>st_final_vote := t\<rparr>" using should_vote_final_only by blast
  moreover obtain u where "snd (verify_final_votes C cs (L\<lparr>st_final_vote := t\<rparr>)) = L\<lparr>st_final_vote := u\<rparr>"
    using Cons.IH [of "L\<lparr>st_final_vote := t\<rparr>"] by auto
  ultimately show ?case by (cases c) (auto simp: Let_def case_prod_unfold)
qed

lemma final_votes_not_read [simp]:
  "any_get_block (L\<lparr>st_final_vote := t\<rparr>) h = any_get_block L h"
  "dependents_confirmed C (L\<lparr>st_final_vote := t\<rparr>) b = dependents_confirmed C L b"
proof -
  have "confirmed_block_exists (L\<lparr>st_final_vote := t\<rparr>) = confirmed_block_exists L"
    by (rule ext) (simp add: confirmed_block_exists_def confirmed_get_block_def)
  then show "dependents_confirmed C (L\<lparr>st_final_vote := t\<rparr>) b = dependents_confirmed C L b"
    by (simp add: dependents_confirmed_def)
qed (simp add: any_get_block_def)

text \<open>A verified final vote is for a block of the ledger with confirmed dependencies, and on record.\<close>

lemma verify_final_votes_recorded:
  assumes "verify_final_votes C cs L = (vs, L')" "(r, h) \<in> set vs"
  obtains b where "any_get_block L h = Some b" "final_vote_get L' (qualified_root_of (svb_block b)) = Some h"
    "dependents_confirmed C L b"
  using assms
proof (induction cs arbitrary: L vs thesis)
  case (Cons c cs)
  obtain root k where c: "c = (root, k)" by (cases c)
  obtain ok L1 where o: "should_vote_final C k L = (ok, L1)" by (cases "should_vote_final C k L")
  obtain vs1 L2 where v: "verify_final_votes C cs L1 = (vs1, L2)" by (cases "verify_final_votes C cs L1")
  obtain t where L1: "L1 = L\<lparr>st_final_vote := t\<rparr>" using should_vote_final_only [of C k L] o by auto
  have eq: "L2 = L'" "vs = (if ok then (root, k) # vs1 else vs1)" using Cons.prems(2) c o v by auto
  show ?case
  proof (cases "(r, h) \<in> set vs1")
    case True
    then obtain b where "any_get_block L1 h = Some b" "final_vote_get L' (qualified_root_of (svb_block b)) = Some h"
      "dependents_confirmed C L1 b"
      using Cons.IH [OF _ v [unfolded eq(1)] True] by blast
    then show ?thesis using Cons.prems(1) by (simp add: L1)
  next
    case False
    then have "ok" "h = k" using Cons.prems(3) eq(2) by (auto split: if_splits)
    then obtain b where b: "any_get_block L h = Some b" "dependents_confirmed C L b"
      "final_vote_get L1 (qualified_root_of (svb_block b)) = Some h"
      using o should_vote_final_True by metis
    then show ?thesis using Cons.prems(1) [of b] verify_final_votes_grows [OF v] eq(1) by simp
  qed
qed simp

text \<open>Ledger operations and votes, in any order.\<close>

inductive voting_step :: "ledger_constants \<Rightarrow> verifier \<Rightarrow> ledger \<Rightarrow> ledger \<Rightarrow> bool" for C verify where
  ledger: "ledger_step C verify L L' \<Longrightarrow> voting_step C verify L L'"
| vote: "verify_votes C cs is_final L = (vs, L') \<Longrightarrow> voting_step C verify L L'"

lemma voting_steps_grow:
  assumes "(voting_step C verify)\<^sup>*\<^sup>* L L'" "final_vote_get L r = Some h"
  shows "final_vote_get L' r = Some h"
  using assms
proof (induction rule: rtranclp_induct)
  case (step L1 L2)
  from step.hyps(2) show ?case
  proof cases
    case ledger
    then show ?thesis using ledger_step_final [OF ledger] step by simp
  next
    case (vote cs is_final vs)
    then show ?thesis
      using step verify_final_votes_grows [of C cs L1 vs L2 r h] by (auto simp: verify_votes_def split: if_splits)
  qed
qed

end
