(* ===== verification/Message_Payloads.thy ===== *)
theory Message_Payloads
  imports Votes "HOL-Library.Product_Lexorder"
begin

text \<open>
  The payloads of the network messages of \<^verbatim>\<open>messages/src\<close>, with their
  encodings and the extension bits that they put into the message header. The snapshot messages
  are compiled only with a feature that is off by default and are left out, as are JSON and
  display output. A panic is \<open>None\<close>; the number of bytes that are left over when a payload
  was read is not checked by the code, so a payload is read with \<^const>\<open>run_reader\<close>.
\<close>

type_synonym extensions = u16

lemma read_exact_all [simp]: "length bs = n \<Longrightarrow> read_exact n bs = Inr (bs, [])"
  by (simp add: read_exact_def)

lemma map_sum_eq_Inr: "map_sum f g x = Inr y \<longleftrightarrow> (\<exists>z. x = Inr z \<and> y = g z)"
  by (cases x) auto

text \<open>\<^verbatim>\<open>BitArray::set\<close> on the extension bits.\<close>

definition set_extension :: "nat \<Rightarrow> bool \<Rightarrow> extensions \<Rightarrow> extensions" where
  "set_extension n v w = (if v then set_bit n w else unset_bit n w)"

lemma bit_set_extension [simp]:
  "n < 16 \<Longrightarrow> bit (set_extension n v w) m = (if m = n then v else bit w m)"
  by (auto simp: set_extension_def bit_set_bit_iff bit_unset_bit_iff)

text \<open>
  What the header promises for a payload: the extension bits of a payload tell its length, and
  the payload is read back from its bytes and these bits; and whatever is read, from any bytes,
  is a payload of this kind.
\<close>

locale wire_payload =
  fixes enc :: "'a \<Rightarrow> bytes"
    and ext :: "'a \<Rightarrow> extensions"
    and size :: "extensions \<Rightarrow> nat"
    and dec :: "extensions \<Rightarrow> bytes \<Rightarrow> (deserialization_error + 'a) option"
    and wf :: "'a \<Rightarrow> bool"
  assumes dec_enc: "wf x \<Longrightarrow> dec (ext x) (enc x) = Some (Inr x)"
    and enc_length: "wf x \<Longrightarrow> length (enc x) = size (ext x)"
    and dec_wf: "dec e bs = Some (Inr x) \<Longrightarrow> wf x"
begin

lemma dec_again: "dec e bs = Some (Inr x) \<Longrightarrow> dec (ext x) (enc x) = Some (Inr x)"
  by (blast intro: dec_enc dec_wf)

lemma framed: "wf x \<Longrightarrow> dec (ext x) (take (size (ext x)) (enc x @ rest)) = Some (Inr x)"
  using dec_enc [of x] enc_length [of x] by simp

lemma frame_rest: "wf x \<Longrightarrow> drop (size (ext x)) (enc x @ rest) = rest"
  using enc_length [of x] by simp

end

section \<open>Keepalive\<close>

text \<open>\<^verbatim>\<open>SocketAddrV6\<close> of the standard library, with its derived order.\<close>

datatype socket_addr = SocketAddrV6 (sa_ip: u128) (sa_port: u16) (sa_flowinfo: u32) (sa_scope_id: u32)

abbreviation addr_key :: "socket_addr \<Rightarrow> u128 \<times> u16 \<times> u32 \<times> u32" where
  "addr_key a \<equiv> (sa_ip a, sa_port a, sa_flowinfo a, sa_scope_id a)"

instantiation socket_addr :: linorder
begin

definition less_eq_socket_addr :: "socket_addr \<Rightarrow> socket_addr \<Rightarrow> bool" where
  "less_eq_socket_addr a b \<longleftrightarrow> addr_key a \<le> addr_key b"

definition less_socket_addr :: "socket_addr \<Rightarrow> socket_addr \<Rightarrow> bool" where
  "less_socket_addr a b \<longleftrightarrow> addr_key a < addr_key b"

instance
proof
  fix a b :: socket_addr
  assume "a \<le> b" "b \<le> a"
  then have "addr_key a = addr_key b" unfolding less_eq_socket_addr_def by (rule antisym)
  then show "a = b" by (cases a; cases b) simp
qed (unfold less_eq_socket_addr_def less_socket_addr_def, auto)

end

record keepalive =
  ka_peers :: "socket_addr list"

definition keepalive_serialize :: "keepalive \<Rightarrow> bytes" where
  "keepalive_serialize k =
     concat (map (\<lambda>peer. to_be_bytes 16 (sa_ip peer) @ to_le_bytes 2 (sa_port peer)) (ka_peers k))"

definition keepalive_deserialize :: "bytes \<Rightarrow> deserialization_error + keepalive" where
  "keepalive_deserialize =
     run_reader (read_bind (read_times 8
       (read_bind (read_exact 16) (\<lambda>addr_buffer.
        read_bind (read_exact 2) (\<lambda>port_buffer.
        read_return (SocketAddrV6 (from_be_bytes addr_buffer) (from_le_bytes port_buffer) 0 0)))))
       (\<lambda>peers. read_return \<lparr>ka_peers = peers\<rparr>))"

text \<open>The array has 8 entries. The flow info and the scope are not sent.\<close>

definition keepalive_wf :: "keepalive \<Rightarrow> bool" where
  "keepalive_wf k \<longleftrightarrow> length (ka_peers k) = 8 \<and> (\<forall>p \<in> set (ka_peers k). sa_flowinfo p = 0 \<and> sa_scope_id p = 0)"

lemma length_peers:
  "length (concat (map (\<lambda>p. to_be_bytes 16 (sa_ip p) @ to_le_bytes 2 (sa_port p)) ps)) = 18 * length ps"
  by (induction ps) simp_all

interpretation keepalive: wire_payload keepalive_serialize "\<lambda>_. 0" "\<lambda>_. 144" "\<lambda>_ bs. Some (keepalive_deserialize bs)"
  keepalive_wf
proof
  fix k assume wf: "keepalive_wf k"
  show "length (keepalive_serialize k) = 144"
    using wf by (simp add: keepalive_serialize_def length_peers keepalive_wf_def)
  let ?p = "read_bind (read_exact 16) (\<lambda>a. read_bind (read_exact 2) (\<lambda>b.
     read_return (SocketAddrV6 (from_be_bytes a) (from_le_bytes b) 0 0)))"
  have "read_times (length (ka_peers k)) ?p (keepalive_serialize k @ []) = Inr (ka_peers k, [])"
    unfolding keepalive_serialize_def
    by (rule read_times_append) (use wf in \<open>auto simp: keepalive_wf_def intro: socket_addr.expand\<close>)
  then show "Some (keepalive_deserialize (keepalive_serialize k)) = Some (Inr k)"
    using wf by (simp add: keepalive_deserialize_def keepalive_wf_def)
next
  fix bs k assume a: "Some (keepalive_deserialize bs) = Some (Inr k)"
  let ?p = "read_bind (read_exact 16) (\<lambda>a. read_bind (read_exact 2) (\<lambda>b.
     read_return (SocketAddrV6 (from_be_bytes a) (from_le_bytes b) 0 0)))"
  obtain rest where r: "read_times 8 ?p bs = Inr (ka_peers k, rest)"
    using a by (auto simp: keepalive_deserialize_def run_reader_eq_Inr read_bind_eq_Inr)
  have "sa_flowinfo p = 0 \<and> sa_scope_id p = 0" if "p \<in> set (ka_peers k)" for p
    using that by (rule read_times_elems [OF r, rotated]) (auto simp: read_bind_eq_Inr)
  then show "keepalive_wf k" using read_times_length [OF r] by (simp add: keepalive_wf_def)
qed

section \<open>Publish\<close>

record publish =
  pb_block :: block
  pb_digest :: u128
  pb_is_originator :: bool

definition publish_block_type_id :: "extensions \<Rightarrow> block_type_id" where
  "publish_block_type_id ext =
     (case block_type_id_from_u8 (ucast (drop_bit 8 (ext AND 0x0F00))) of
        Some t \<Rightarrow> t | None \<Rightarrow> BTI_Invalid)"

definition publish_serialized_size :: "extensions \<Rightarrow> nat" where
  "publish_serialized_size ext =
     (case block_type_try_from (publish_block_type_id ext) of
        Some t \<Rightarrow> serialized_block_size t | None \<Rightarrow> 0)"

definition publish_serialize :: "publish \<Rightarrow> bytes" where
  "publish_serialize p = serialize_without_block_type (pb_block p)"

definition publish_deserialize :: "(bytes \<Rightarrow> block_hash) \<Rightarrow> bytes \<Rightarrow> extensions \<Rightarrow> u128 \<Rightarrow>
    deserialization_error + publish" where
  "publish_deserialize blake bs ext digest =
     run_reader (read_bind (read_ok_or (block_type_try_from (publish_block_type_id ext)) InvalidData)
       (\<lambda>block_type. read_bind (deserialize_block_type blake block_type)
       (\<lambda>block. read_return \<lparr>pb_block = block, pb_digest = digest, pb_is_originator = ext AND 4 > 0\<rparr>))) bs"

definition publish_header_extensions :: "publish \<Rightarrow> extensions" where
  "publish_header_extensions p =
     (let flags = push_bit 8 (ucast (block_type_id_as_u8 (block_type_id_of (block_type_of (pb_block p))))) in
      if pb_is_originator p then flags OR 4 else flags)"

lemma publish_header [simp]:
  "publish_block_type_id (publish_header_extensions p) = block_type_id_of (block_type_of (pb_block p))"
  "publish_header_extensions p AND 4 > 0 \<longleftrightarrow> pb_is_originator p"
  by (cases "block_type_of (pb_block p)"; simp add: publish_block_type_id_def publish_header_extensions_def Let_def
      block_type_id_from_u8_def)+

lemma deserialize_block_type_hash_ok: "deserialize_block_type blake t bs = Inr (b, rest) \<Longrightarrow> block_hash_ok blake b"
  by (cases t) (auto simp: read_bind_eq_Inr Let_def send_block_deserialize_def receive_block_deserialize_def
      open_block_deserialize_def change_block_deserialize_def state_block_deserialize_def)

interpretation publish: wire_payload publish_serialize publish_header_extensions publish_serialized_size
  "\<lambda>ext bs. Some (publish_deserialize blake bs ext digest)"
  "\<lambda>p. block_hash_ok blake (pb_block p) \<and> pb_digest p = digest" for blake digest
proof
  fix p :: publish assume wf: "block_hash_ok blake (pb_block p) \<and> pb_digest p = digest"
  show "length (publish_serialize p) = publish_serialized_size (publish_header_extensions p)"
    by (simp add: publish_serialize_def publish_serialized_size_def length_serialize_without_block_type)
  show "Some (publish_deserialize blake (publish_serialize p) (publish_header_extensions p) digest) = Some (Inr p)"
    using wf deserialize_serialize_without_block_type [of blake "pb_block p" "[]"]
    by (simp add: publish_deserialize_def publish_serialize_def)
next
  fix bs e p assume "Some (publish_deserialize blake bs e digest) = Some (Inr p)"
  then show "block_hash_ok blake (pb_block p) \<and> pb_digest p = digest"
    by (auto simp: publish_deserialize_def run_reader_eq_Inr read_bind_eq_Inr dest: deserialize_block_type_hash_ok)
qed

section \<open>Requests for votes\<close>

record confirm_req =
  cr_roots_hashes :: "(block_hash \<times> root) list"

definition confirm_req_new :: "(block_hash \<times> root) list \<Rightarrow> confirm_req option" where
  "confirm_req_new roots_hashes = (if length roots_hashes > 255 then None else Some \<lparr>cr_roots_hashes = roots_hashes\<rparr>)"

definition confirm_req_block_type :: "extensions \<Rightarrow> block_type_id" where
  "confirm_req_block_type ext =
     (case block_type_id_from_u8 (ucast (drop_bit 8 (ext AND 0x0F00))) of
        Some t \<Rightarrow> t | None \<Rightarrow> BTI_Invalid)"

definition v1_count :: "extensions \<Rightarrow> u8" where
  "v1_count bits = ucast (drop_bit 12 (bits AND 0xF000))"

definition v2_count :: "extensions \<Rightarrow> u8" where
  "v2_count bits =
     (let left = drop_bit 12 (bits AND 0xF000); right = drop_bit 4 (bits AND 0x00F0) in
      ucast (push_bit 4 left OR right))"

definition confirm_req_count :: "extensions \<Rightarrow> u8" where
  "confirm_req_count ext = (if ext AND 1 = 1 then v2_count ext else v1_count ext)"

definition split_count :: "u8 \<Rightarrow> u8 \<times> u8" where
  "split_count count = (drop_bit 4 count AND 0xF, count AND 0xF)"

definition count_bits :: "u8 \<Rightarrow> extensions" where
  "count_bits count =
     (if count < 16 then push_bit 12 (ucast count)
      else let (left, right) = split_count count in
        1 OR push_bit 12 (ucast left) OR push_bit 4 (ucast right))"

definition confirm_req_serialized_size :: "extensions \<Rightarrow> nat" where
  "confirm_req_serialized_size ext =
     (let block_type_id = confirm_req_block_type ext in
      case block_type_try_from block_type_id of
        Some block_type \<Rightarrow> serialized_block_size block_type
      | None \<Rightarrow>
          (let count = confirm_req_count ext in
           if block_type_id = BTI_NotABlock then unat count * (32 + 32) else 0))"

definition confirm_req_serialize :: "confirm_req \<Rightarrow> bytes" where
  "confirm_req_serialize r =
     concat (map (\<lambda>(hash, root). u256_serialize hash @ u256_serialize root) (cr_roots_hashes r))"

definition deserialize_roots :: "bytes \<Rightarrow> extensions \<Rightarrow> deserialization_error + (block_hash \<times> root) list" where
  "deserialize_roots bs ext =
     (let count = unat (confirm_req_count ext) in
      run_reader (read_bind (read_times count
          (read_bind u256_deserialize (\<lambda>block_hash. read_bind u256_deserialize (\<lambda>root.
           read_return (block_hash, root)))))
        (\<lambda>read. let roots_hashes = filter (\<lambda>(h, r). h \<noteq> 0 \<or> r \<noteq> 0) read in
          if roots_hashes = [] \<or> length roots_hashes \<noteq> count then read_fail InvalidData
          else read_return roots_hashes)) bs)"

definition confirm_req_deserialize :: "bytes \<Rightarrow> extensions \<Rightarrow> (deserialization_error + confirm_req) option" where
  "confirm_req_deserialize bs ext =
     (case deserialize_roots bs ext of
        Inl e \<Rightarrow> Some (Inl e)
      | Inr roots \<Rightarrow> map_option Inr (confirm_req_new roots))"

definition confirm_req_header_extensions :: "confirm_req \<Rightarrow> extensions" where
  "confirm_req_header_extensions r =
     0 OR count_bits (of_nat (length (cr_roots_hashes r))) OR
     push_bit 8 (ucast (block_type_id_as_u8 BTI_NotABlock))"

lemma extension_masks:
  "(0xF000 :: u16) = push_bit 12 (mask 4)" "(0xF0 :: u16) = push_bit 4 (mask 4)" "(0xF :: u8) = mask 4"
  by (simp_all add: mask_eq_exp_minus_1)

lemma bit_not_a_block [simp]: "bit (0x100 :: int) n \<longleftrightarrow> n = 8"
  using bit_exp_iff [of 8 n, where 'a = int] by auto

lemma bit_count_bits:
  "bit (count_bits c) n \<longleftrightarrow>
     (if c < 16 then 12 \<le> n \<and> bit c (n - 12) \<and> n < 16
      else n = 0 \<or> 12 \<le> n \<and> n < 16 \<and> bit c (n - 8) \<or> 4 \<le> n \<and> n < 8 \<and> bit c (n - 4))"
  by (auto simp: count_bits_def split_count_def extension_masks bit_simps)

lemma nibble_high_bits: "(c :: u8) < 16 \<Longrightarrow> 4 \<le> n \<Longrightarrow> \<not> bit c n"
proof -
  assume "c < 16" "4 \<le> n"
  then have "unat c < 2 ^ 4" "(2 :: nat) ^ 4 \<le> 2 ^ n"
    by (simp_all only: word_less_nat_alt power_increasing) simp
  then have "\<not> bit (unat c) n" by (simp add: bit_iff_odd)
  then show ?thesis using bit_imp_le_length [of c n] by (auto simp: bit_unsigned_iff)
qed

text \<open>The count is read back, whatever the other extension bits are.\<close>

lemma count_of_count_bits:
  assumes "\<And>n. n \<in> {0} \<union> {4..<8} \<union> {12..<16} \<Longrightarrow> bit w n = bit (count_bits c) n"
  shows "confirm_req_count w = c"
proof -
  have "w AND 1 = 1 \<longleftrightarrow> bit w 0" by (simp add: and_one_eq mod_2_eq_odd bit_0)
  then have flag: "w AND 1 = 1 \<longleftrightarrow> \<not> c < 16" using assms [of 0] by (simp add: bit_count_bits)
  show ?thesis
  proof (rule bit_word_eqI)
    fix n assume n: "n < LENGTH(8)"
    have "bit (confirm_req_count w) n = (if c < 16 then n < 4 \<and> bit w (n + 12)
        else if n < 4 then bit w (n + 4) else bit w (n + 8))"
      using n by (auto simp: confirm_req_count_def flag v1_count_def v2_count_def extension_masks bit_simps add.commute)
    moreover have "bit w (n + 12) = bit (count_bits c) (n + 12)" "bit w (n + 4) = bit (count_bits c) (n + 4)" if "n < 4"
      using that by (intro assms; simp)+
    moreover have "bit w (n + 8) = bit (count_bits c) (n + 8)" if "4 \<le> n"
      using that n by (intro assms) simp
    ultimately show "bit (confirm_req_count w) n = bit c n"
      using n nibble_high_bits [of c n] by (cases "c < 16"; cases "n < 4") (simp_all add: bit_count_bits)
  qed
qed

lemma confirm_req_header [simp]:
  "confirm_req_count (confirm_req_header_extensions r) = of_nat (length (cr_roots_hashes r))"
  "confirm_req_block_type (confirm_req_header_extensions r) = BTI_NotABlock"
proof -
  have bits: "bit (confirm_req_header_extensions r) n \<longleftrightarrow>
      bit (count_bits (of_nat (length (cr_roots_hashes r)))) n \<or> n = 8" for n
    by (auto simp: confirm_req_header_extensions_def bit_or_iff)
  show "confirm_req_count (confirm_req_header_extensions r) = of_nat (length (cr_roots_hashes r))"
    by (rule count_of_count_bits) (auto simp: bits)
  have mask: "(0x0F00 :: u16) = push_bit 8 (mask 4)" by (simp add: mask_eq_exp_minus_1)
  have "drop_bit 8 (confirm_req_header_extensions r AND 0x0F00) = 1"
    unfolding mask by (rule bit_word_eqI) (auto simp: bits bit_simps bit_count_bits)
  then show "confirm_req_block_type (confirm_req_header_extensions r) = BTI_NotABlock"
    by (simp add: confirm_req_block_type_def block_type_id_from_u8_def)
qed

text \<open>The list is not empty, has at most 255 entries, and none of them is zero.\<close>

definition confirm_req_wf :: "confirm_req \<Rightarrow> bool" where
  "confirm_req_wf r \<longleftrightarrow> cr_roots_hashes r \<noteq> [] \<and> length (cr_roots_hashes r) \<le> 255 \<and> (0, 0) \<notin> set (cr_roots_hashes r)"

lemma length_roots: "length (concat (map (\<lambda>(h, r). u256_serialize h @ u256_serialize r) xs)) = 64 * length xs"
  by (induction xs) auto

interpretation confirm_req: wire_payload confirm_req_serialize confirm_req_header_extensions confirm_req_serialized_size
  "\<lambda>ext bs. confirm_req_deserialize bs ext" confirm_req_wf
proof
  fix r assume wf: "confirm_req_wf r"
  have n: "unat (of_nat (length (cr_roots_hashes r)) :: u8) = length (cr_roots_hashes r)"
    using wf by (simp add: confirm_req_wf_def unat_of_nat)
  show "length (confirm_req_serialize r) = confirm_req_serialized_size (confirm_req_header_extensions r)"
    by (simp add: confirm_req_serialize_def confirm_req_serialized_size_def length_roots n Let_def)
  have "filter (\<lambda>(h, r). h \<noteq> 0 \<or> r \<noteq> 0) (cr_roots_hashes r) = cr_roots_hashes r"
    using wf by (auto simp: confirm_req_wf_def filter_id_conv)
  moreover have "read_times (length (cr_roots_hashes r)) (read_bind u256_deserialize (\<lambda>h. read_bind u256_deserialize
      (\<lambda>r. read_return (h, r)))) (confirm_req_serialize r @ []) = Inr (cr_roots_hashes r, [])"
    unfolding confirm_req_serialize_def by (rule read_times_append) auto
  ultimately show "confirm_req_deserialize (confirm_req_serialize r) (confirm_req_header_extensions r) = Some (Inr r)"
    using wf by (simp add: confirm_req_deserialize_def deserialize_roots_def n Let_def confirm_req_new_def confirm_req_wf_def)
next
  fix e bs r assume "confirm_req_deserialize bs e = Some (Inr r)"
  then show "confirm_req_wf r"
    by (auto simp: confirm_req_deserialize_def deserialize_roots_def confirm_req_new_def confirm_req_wf_def Let_def
        run_reader_eq_Inr read_bind_eq_Inr split: sum.splits if_splits)
qed

text \<open>The constructor never panics on what was read.\<close>

lemma confirm_req_deserialize_total: "confirm_req_deserialize bs ext \<noteq> None"
proof -
  have "length roots \<le> 255" if "deserialize_roots bs ext = Inr roots" for roots
    using that unat_lt2p [of "confirm_req_count ext"]
    by (auto simp: deserialize_roots_def Let_def run_reader_eq_Inr read_bind_eq_Inr split: if_splits)
  then show ?thesis by (auto simp: confirm_req_deserialize_def confirm_req_new_def split: sum.splits)
qed

section \<open>Votes\<close>

record confirm_ack =
  ca_vote :: vote
  ca_is_rebroadcasted :: bool
  ca_digest :: u128

text \<open>\<^verbatim>\<open>new_with_own_vote\<close> and \<^verbatim>\<open>new_with_rebroadcasted_vote\<close>\<close>

definition confirm_ack_new :: "bool \<Rightarrow> vote \<Rightarrow> confirm_ack option" where
  "confirm_ack_new rebroadcasted v =
     (if length (vt_hashes v) \<le> 255
      then Some \<lparr>ca_vote = v, ca_is_rebroadcasted = rebroadcasted, ca_digest = 0\<rparr> else None)"

definition confirm_ack_serialized_size :: "extensions \<Rightarrow> nat" where
  "confirm_ack_serialized_size ext = vote_serialized_size (unat (confirm_req_count ext))"

definition confirm_ack_deserialize :: "bytes \<Rightarrow> extensions \<Rightarrow> u128 \<Rightarrow>
    (deserialization_error + confirm_ack) option" where
  "confirm_ack_deserialize bs ext digest =
     (case vote_deserialize bs of
        Inl e \<Rightarrow> Some (Inl e)
      | Inr vote \<Rightarrow> map_option (\<lambda>ack. Inr (ack\<lparr>ca_digest := digest\<rparr>)) (confirm_ack_new (bit ext 2) vote))"

definition confirm_ack_header_extensions :: "confirm_ack \<Rightarrow> extensions" where
  "confirm_ack_header_extensions a =
     set_extension 2 (ca_is_rebroadcasted a) (0 OR count_bits (of_nat (length (vt_hashes (ca_vote a)))))"

lemma read_hashes_length: "read_hashes n bs = Inr (hs, rest) \<Longrightarrow> length hs \<le> n"
  by (induction n arbitrary: bs hs) (auto simp: read_bind_eq_Inr split: if_splits)

lemma vote_deserialize_length: "vote_deserialize bs = Inr v \<Longrightarrow> length (vt_hashes v) \<le> MAX_HASHES"
  unfolding vote_deserialize_def run_reader_def [symmetric]
  by (auto simp: run_reader_eq_Inr read_bind_eq_Inr dest: read_hashes_length)

lemma confirm_ack_deserialize_total: "confirm_ack_deserialize bs ext digest \<noteq> None"
  using vote_deserialize_length [of bs]
  by (auto simp: confirm_ack_deserialize_def confirm_ack_new_def MAX_HASHES_def split: sum.splits)

interpretation confirm_ack: wire_payload "\<lambda>a. vote_serialize (ca_vote a)" confirm_ack_header_extensions
  confirm_ack_serialized_size "\<lambda>ext bs. confirm_ack_deserialize bs ext digest"
  "\<lambda>a. length (vt_hashes (ca_vote a)) \<le> 255 \<and> ca_digest a = digest" for digest
proof
  fix a :: confirm_ack assume wf: "length (vt_hashes (ca_vote a)) \<le> 255 \<and> ca_digest a = digest"
  have "confirm_req_count (confirm_ack_header_extensions a) = of_nat (length (vt_hashes (ca_vote a)))"
    by (rule count_of_count_bits) (auto simp: confirm_ack_header_extensions_def)
  then show "length (vote_serialize (ca_vote a)) = confirm_ack_serialized_size (confirm_ack_header_extensions a)"
    using wf by (simp add: confirm_ack_serialized_size_def vote_serialize_length unat_of_nat)
  show "confirm_ack_deserialize (vote_serialize (ca_vote a)) (confirm_ack_header_extensions a) digest = Some (Inr a)"
    using wf by (simp add: confirm_ack_deserialize_def vote_dec_enc MAX_HASHES_def confirm_ack_new_def
        confirm_ack_header_extensions_def)
next
  fix e bs a assume "confirm_ack_deserialize bs e digest = Some (Inr a)"
  then show "length (vt_hashes (ca_vote a)) \<le> 255 \<and> ca_digest a = digest"
    by (auto simp: confirm_ack_deserialize_def confirm_ack_new_def split: sum.splits if_splits)
qed

section \<open>The handshake\<close>

record node_id_handshake_query =
  hq_cookie :: bytes

record v2_payload =
  v2_salt :: bytes
  v2_genesis :: block_hash

record node_id_handshake_response =
  hr_node_id :: public_key
  hr_signature :: signature
  hr_v2 :: "v2_payload option"

record node_id_handshake =
  nh_query :: "node_id_handshake_query option"
  nh_response :: "node_id_handshake_response option"
  nh_is_v2 :: bool

definition data_to_sign :: "bytes \<Rightarrow> node_id_handshake_response \<Rightarrow> bytes" where
  "data_to_sign cookie r =
     (case hr_v2 r of
        Some v2 \<Rightarrow> cookie @ v2_salt v2 @ u256_serialize (v2_genesis v2)
      | None \<Rightarrow> cookie)"

definition response_serialized_size :: "extensions \<Rightarrow> nat" where
  "response_serialized_size ext = (if bit ext 2 then 32 + 32 + 32 + 64 else 32 + 64)"

definition response_serialize :: "node_id_handshake_response \<Rightarrow> bytes" where
  "response_serialize r =
     (case hr_v2 r of
        Some v2 \<Rightarrow> u256_serialize (hr_node_id r) @ v2_salt v2 @ u256_serialize (v2_genesis v2) @
          signature_serialize (hr_signature r)
      | None \<Rightarrow> u256_serialize (hr_node_id r) @ signature_serialize (hr_signature r))"

definition response_deserialize :: "extensions \<Rightarrow> node_id_handshake_response reader" where
  "response_deserialize ext =
     (if bit ext 2 then
        read_bind u256_deserialize (\<lambda>node_id. read_bind (read_exact 32) (\<lambda>salt.
        read_bind u256_deserialize (\<lambda>genesis. read_bind signature_deserialize (\<lambda>signature.
        read_return \<lparr>hr_node_id = node_id, hr_signature = signature,
          hr_v2 = Some \<lparr>v2_salt = salt, v2_genesis = genesis\<rparr>\<rparr>))))
      else
        read_bind u256_deserialize (\<lambda>node_id. read_bind signature_deserialize (\<lambda>signature.
        read_return \<lparr>hr_node_id = node_id, hr_signature = signature, hr_v2 = None\<rparr>)))"

definition handshake_serialized_size :: "extensions \<Rightarrow> nat" where
  "handshake_serialized_size ext =
     (if bit ext 0 then 32 else 0) + (if bit ext 1 then response_serialized_size ext else 0)"

definition handshake_serialize :: "node_id_handshake \<Rightarrow> bytes" where
  "handshake_serialize h =
     (case nh_query h of Some query \<Rightarrow> hq_cookie query | None \<Rightarrow> []) @
     (case nh_response h of Some response \<Rightarrow> response_serialize response | None \<Rightarrow> [])"

definition handshake_deserialize :: "bytes \<Rightarrow> extensions \<Rightarrow> deserialization_error + node_id_handshake" where
  "handshake_deserialize bs ext =
     run_reader
       (read_bind (if bit ext 0 then read_bind (read_exact 32) (\<lambda>cookie. read_return (Some \<lparr>hq_cookie = cookie\<rparr>))
          else read_return None) (\<lambda>query.
        read_bind (if bit ext 1 then read_bind (response_deserialize ext) (\<lambda>r. read_return (Some r))
          else read_return None) (\<lambda>response.
        read_return \<lparr>nh_query = query, nh_response = response, nh_is_v2 = bit ext 2\<rparr>))) bs"

definition handshake_header_extensions :: "node_id_handshake \<Rightarrow> extensions" where
  "handshake_header_extensions h =
     set_extension 2 (nh_is_v2 h) (set_extension 1 (nh_response h \<noteq> None) (set_extension 0 (nh_query h \<noteq> None) 0))"

text \<open>The arrays have 32 bytes and the version flag fits to the response.\<close>

definition handshake_wf :: "node_id_handshake \<Rightarrow> bool" where
  "handshake_wf h \<longleftrightarrow>
     (\<forall>q. nh_query h = Some q \<longrightarrow> length (hq_cookie q) = 32) \<and>
     (\<forall>r. nh_response h = Some r \<longrightarrow> (hr_v2 r \<noteq> None) = nh_is_v2 h \<and>
        (\<forall>v2. hr_v2 r = Some v2 \<longrightarrow> length (v2_salt v2) = 32))"

lemma response_roundtrip:
  assumes "(hr_v2 r \<noteq> None) = bit ext 2" "\<forall>v2. hr_v2 r = Some v2 \<longrightarrow> length (v2_salt v2) = 32"
  shows "response_deserialize ext (response_serialize r @ rest) = Inr (r, rest)"
    "length (response_serialize r) = response_serialized_size ext"
  using assms by (cases r; cases "hr_v2 r"; simp add: response_deserialize_def response_serialize_def response_serialized_size_def)+

interpretation handshake: wire_payload handshake_serialize handshake_header_extensions handshake_serialized_size
  "\<lambda>ext bs. Some (handshake_deserialize bs ext)" handshake_wf
proof
  fix h assume wf: "handshake_wf h"
  let ?e = "handshake_header_extensions h"
  have b: "bit ?e 0 = (nh_query h \<noteq> None)" "bit ?e 1 = (nh_response h \<noteq> None)" "bit ?e 2 = nh_is_v2 h"
    by (simp_all add: handshake_header_extensions_def)
  have r: "response_deserialize ?e (response_serialize r @ rest) = Inr (r, rest)"
    "length (response_serialize r) = response_serialized_size ?e" if "nh_response h = Some r" for r rest
    using that wf b(3) by (intro response_roundtrip; simp add: handshake_wf_def)+
  show "length (handshake_serialize h) = handshake_serialized_size ?e"
    using wf b r by (auto simp: handshake_serialize_def handshake_serialized_size_def handshake_wf_def split: option.splits)
  show "Some (handshake_deserialize (handshake_serialize h) ?e) = Some (Inr h)"
    using wf b r(1) [where rest = "[]"]
    by (cases h; cases "nh_query h"; cases "nh_response h")
      (simp_all add: handshake_deserialize_def handshake_serialize_def handshake_wf_def)
next
  fix e bs h assume "Some (handshake_deserialize bs e) = Some (Inr h)"
  then show "handshake_wf h"
    by (auto simp: handshake_deserialize_def handshake_wf_def response_deserialize_def run_reader_eq_Inr
        read_bind_eq_Inr read_exact_eq_Inr split: if_splits)
qed

end
