(* ===== verification/Pull_Payloads.thy ===== *)
theory Pull_Payloads
  imports Message_Payloads
begin

text \<open>
  The payloads of \<^verbatim>\<open>messages/src\<close> that ask for and carry parts of a ledger
  (\<^verbatim>\<open>asc_pull_req.rs\<close>, \<^verbatim>\<open>asc_pull_ack.rs\<close>,
  \<^verbatim>\<open>frontier_req.rs\<close>, \<^verbatim>\<open>bulk_pull.rs\<close>,
  \<^verbatim>\<open>bulk_pull_account.rs\<close>) and the telemetry data
  (\<^verbatim>\<open>telemetry_ack.rs\<close>).
\<close>

section \<open>Ascending pull requests\<close>

datatype asc_pull_payload_id = PullBlocks | PullAccountInfo | PullFrontiers

fun payload_id_as_u8 :: "asc_pull_payload_id \<Rightarrow> u8" where
  "payload_id_as_u8 PullBlocks = 1"
| "payload_id_as_u8 PullAccountInfo = 2"
| "payload_id_as_u8 PullFrontiers = 3"

definition payload_id_from_u8 :: "u8 \<Rightarrow> asc_pull_payload_id option" where
  "payload_id_from_u8 v =
     (if v = 1 then Some PullBlocks else if v = 2 then Some PullAccountInfo
      else if v = 3 then Some PullFrontiers else None)"

datatype hash_type = HashTypeAccount | HashTypeBlock

fun hash_type_as_u8 :: "hash_type \<Rightarrow> u8" where
  "hash_type_as_u8 HashTypeAccount = 0"
| "hash_type_as_u8 HashTypeBlock = 1"

definition hash_type_deserialize :: "hash_type reader" where
  "hash_type_deserialize =
     read_bind read_u8 (\<lambda>v. read_ok_or
       (if v = 0 then Some HashTypeAccount else if v = 1 then Some HashTypeBlock else None) InvalidData)"

lemma payload_id_from_as_u8 [simp]: "payload_id_from_u8 (payload_id_as_u8 t) = Some t"
  by (cases t) (simp_all add: payload_id_from_u8_def)

lemma hash_type_roundtrip [simp]: "hash_type_deserialize (hash_type_as_u8 t # rest) = Inr (t, rest)"
  by (cases t) (simp_all add: hash_type_deserialize_def)

record blocks_req_payload =
  brp_start_type :: hash_type
  brp_start :: u256
  brp_count :: u8

definition blocks_req_deserialize :: "blocks_req_payload reader" where
  "blocks_req_deserialize =
     read_bind u256_deserialize (\<lambda>start. read_bind read_u8 (\<lambda>count.
     read_bind hash_type_deserialize (\<lambda>start_type.
     read_return \<lparr>brp_start_type = start_type, brp_start = start, brp_count = count\<rparr>)))"

definition blocks_req_serialize :: "blocks_req_payload \<Rightarrow> bytes" where
  "blocks_req_serialize p = u256_serialize (brp_start p) @ [brp_count p, hash_type_as_u8 (brp_start_type p)]"

record account_info_req_payload =
  airp_target :: u256
  airp_target_type :: hash_type

definition account_info_req_deserialize :: "account_info_req_payload reader" where
  "account_info_req_deserialize =
     read_bind u256_deserialize (\<lambda>target. read_bind hash_type_deserialize (\<lambda>target_type.
     read_return \<lparr>airp_target = target, airp_target_type = target_type\<rparr>))"

definition account_info_req_serialize :: "account_info_req_payload \<Rightarrow> bytes" where
  "account_info_req_serialize p = u256_serialize (airp_target p) @ [hash_type_as_u8 (airp_target_type p)]"

record frontiers_req_payload =
  frp_start :: account
  frp_count :: u16

definition frontiers_req_deserialize :: "frontiers_req_payload reader" where
  "frontiers_req_deserialize =
     read_bind u256_deserialize (\<lambda>start. read_bind (read_exact 2) (\<lambda>count_bytes.
     read_return \<lparr>frp_start = start, frp_count = from_be_bytes count_bytes\<rparr>))"

definition frontiers_req_serialize :: "frontiers_req_payload \<Rightarrow> bytes" where
  "frontiers_req_serialize p = u256_serialize (frp_start p) @ to_be_bytes 2 (frp_count p)"

datatype asc_pull_req_type =
    ReqBlocks blocks_req_payload
  | ReqAccountInfo account_info_req_payload
  | ReqFrontiers frontiers_req_payload

fun asc_pull_req_type_serialize :: "asc_pull_req_type \<Rightarrow> bytes" where
  "asc_pull_req_type_serialize (ReqBlocks i) = blocks_req_serialize i"
| "asc_pull_req_type_serialize (ReqAccountInfo i) = account_info_req_serialize i"
| "asc_pull_req_type_serialize (ReqFrontiers i) = frontiers_req_serialize i"

fun req_payload_type :: "asc_pull_req_type \<Rightarrow> asc_pull_payload_id" where
  "req_payload_type (ReqBlocks i) = PullBlocks"
| "req_payload_type (ReqAccountInfo i) = PullAccountInfo"
| "req_payload_type (ReqFrontiers i) = PullFrontiers"

record asc_pull_req =
  apr_id :: u64
  apr_req_type :: asc_pull_req_type

definition asc_pull_serialized_size :: "extensions \<Rightarrow> nat" where
  "asc_pull_serialized_size ext = 1 + 8 + unat ext"

definition asc_pull_req_serialize :: "asc_pull_req \<Rightarrow> bytes" where
  "asc_pull_req_serialize r =
     [payload_id_as_u8 (req_payload_type (apr_req_type r))] @ to_be_bytes 8 (apr_id r) @
     asc_pull_req_type_serialize (apr_req_type r)"

definition asc_pull_req_deserialize :: "bytes \<Rightarrow> deserialization_error + asc_pull_req" where
  "asc_pull_req_deserialize =
     run_reader (read_bind read_u8 (\<lambda>code. read_bind (read_ok_or (payload_id_from_u8 code) InvalidData) (\<lambda>pull_type.
       read_bind read_u64_be (\<lambda>id.
       read_bind (case pull_type of
           PullBlocks \<Rightarrow> read_bind blocks_req_deserialize (\<lambda>p. read_return (ReqBlocks p))
         | PullAccountInfo \<Rightarrow> read_bind account_info_req_deserialize (\<lambda>p. read_return (ReqAccountInfo p))
         | PullFrontiers \<Rightarrow> read_bind frontiers_req_deserialize (\<lambda>p. read_return (ReqFrontiers p))) (\<lambda>req_type.
       read_return \<lparr>apr_id = id, apr_req_type = req_type\<rparr>)))))"

text \<open>The length of the payload without the type and the id; the subtraction is on \<^verbatim>\<open>u16\<close>.\<close>

definition asc_pull_header_extensions :: "u16 \<Rightarrow> extensions" where
  "asc_pull_header_extensions payload_len = payload_len - 1 - 8"

lemma asc_pull_size:
  assumes "length bs = 9 + n" "n < 2 ^ 16 - 9"
  shows "asc_pull_serialized_size (asc_pull_header_extensions (of_nat (length bs))) = length bs"
proof -
  have "(of_nat (length bs) :: u16) - 1 - 8 = of_nat n" using assms(1) by simp
  then show ?thesis
    using assms by (simp add: asc_pull_serialized_size_def asc_pull_header_extensions_def unat_of_nat)
qed

lemma req_roundtrip:
  "blocks_req_deserialize (blocks_req_serialize p @ rest) = Inr (p, rest)"
  "account_info_req_deserialize (account_info_req_serialize q @ rest) = Inr (q, rest)"
  "frontiers_req_deserialize (frontiers_req_serialize r @ rest) = Inr (r, rest)"
  by (simp_all add: blocks_req_deserialize_def blocks_req_serialize_def account_info_req_deserialize_def
      account_info_req_serialize_def frontiers_req_deserialize_def frontiers_req_serialize_def)

interpretation asc_pull_req: wire_payload asc_pull_req_serialize
  "\<lambda>r. asc_pull_header_extensions (of_nat (length (asc_pull_req_serialize r)))" asc_pull_serialized_size
  "\<lambda>_ bs. Some (asc_pull_req_deserialize bs)" "\<lambda>_. True"
proof
  fix r
  obtain i t where r: "r = \<lparr>apr_id = i, apr_req_type = t\<rparr>" by (cases r)
  have len: "length (asc_pull_req_serialize r) = 9 + length (asc_pull_req_type_serialize t)"
    by (simp add: asc_pull_req_serialize_def r)
  have "length (asc_pull_req_type_serialize t) < 2 ^ 16 - 9"
    by (cases t) (simp_all add: blocks_req_serialize_def account_info_req_serialize_def frontiers_req_serialize_def)
  from asc_pull_size [OF len this]
  show "length (asc_pull_req_serialize r) =
      asc_pull_serialized_size (asc_pull_header_extensions (of_nat (length (asc_pull_req_serialize r))))" by simp
  have "asc_pull_req_deserialize (asc_pull_req_serialize r) = Inr r"
    using req_roundtrip [where rest = "[]"]
    by (cases t) (simp_all add: asc_pull_req_deserialize_def asc_pull_req_serialize_def r payload_id_from_u8_def)
  then show "Some (asc_pull_req_deserialize (asc_pull_req_serialize r)) = Some (Inr r)" by simp
qed simp

section \<open>Ascending pull responses\<close>

record frontier =
  fr_account :: account
  fr_hash :: block_hash

definition frontier_serialize :: "frontier \<Rightarrow> bytes" where
  "frontier_serialize f = u256_serialize (fr_account f) @ u256_serialize (fr_hash f)"

definition frontier_deserialize :: "frontier reader" where
  "frontier_deserialize =
     read_bind u256_deserialize (\<lambda>account. read_bind u256_deserialize (\<lambda>hash.
     read_return \<lparr>fr_account = account, fr_hash = hash\<rparr>))"

abbreviation frontier_default :: frontier where
  "frontier_default \<equiv> \<lparr>fr_account = 0, fr_hash = 0\<rparr>"

record account_info_ack_payload =
  aia_account :: account
  aia_account_open :: block_hash
  aia_account_head :: block_hash
  aia_account_block_count :: u64
  aia_account_conf_frontier :: block_hash
  aia_account_conf_height :: u64

definition account_info_ack_deserialize :: "account_info_ack_payload reader" where
  "account_info_ack_deserialize =
     read_bind u256_deserialize (\<lambda>account. read_bind u256_deserialize (\<lambda>account_open.
     read_bind u256_deserialize (\<lambda>account_head. read_bind read_u64_be (\<lambda>account_block_count.
     read_bind u256_deserialize (\<lambda>account_conf_frontier. read_bind read_u64_be (\<lambda>account_conf_height.
     read_return \<lparr>aia_account = account, aia_account_open = account_open, aia_account_head = account_head,
       aia_account_block_count = account_block_count, aia_account_conf_frontier = account_conf_frontier,
       aia_account_conf_height = account_conf_height\<rparr>))))))"

definition account_info_ack_serialize :: "account_info_ack_payload \<Rightarrow> bytes" where
  "account_info_ack_serialize p =
     u256_serialize (aia_account p) @ u256_serialize (aia_account_open p) @
     u256_serialize (aia_account_head p) @ to_be_bytes 8 (aia_account_block_count p) @
     u256_serialize (aia_account_conf_frontier p) @ to_be_bytes 8 (aia_account_conf_height p)"

text \<open>\<^verbatim>\<open>BlocksAckPayload::new\<close>\<close>

definition blocks_ack_new :: "block list \<Rightarrow> block list option" where
  "blocks_ack_new blocks = (if length blocks > 128 then None else Some blocks)"

definition blocks_ack_serialize :: "block list \<Rightarrow> bytes" where
  "blocks_ack_serialize blocks = concat (map block_serialize blocks) @ [block_type_id_as_u8 BTI_NotABlock]"

text \<open>The loop that reads blocks, where \<open>n\<close> more blocks are allowed.\<close>

fun blocks_ack_read :: "(bytes \<Rightarrow> block_hash) \<Rightarrow> nat \<Rightarrow> block list reader" where
  "blocks_ack_read blake n bs =
     (if bs = [] then Inr ([], [])
      else read_bind read_u8 (\<lambda>t. read_bind (read_ok_or (block_type_id_from_u8 t) InvalidData) (\<lambda>type_id.
        if type_id = BTI_NotABlock then read_return []
        else read_bind (read_ok_or (block_type_try_from type_id) InvalidData) (\<lambda>block_type.
          read_bind (deserialize_block_type blake block_type) (\<lambda>block.
          case n of
            0 \<Rightarrow> read_fail TooMuchData
          | Suc m \<Rightarrow> read_bind (blocks_ack_read blake m) (\<lambda>blocks. read_return (block # blocks)))))) bs)"

declare blocks_ack_read.simps [simp del]

definition blocks_ack_deserialize :: "(bytes \<Rightarrow> block_hash) \<Rightarrow> bytes \<Rightarrow> (deserialization_error + block list) option" where
  "blocks_ack_deserialize blake bs =
     (case run_reader (blocks_ack_read blake 128) bs of
        Inl e \<Rightarrow> Some (Inl e)
      | Inr blocks \<Rightarrow> map_option Inr (blocks_ack_new blocks))"

datatype asc_pull_ack_type =
    AckBlocks "block list"
  | AckAccountInfo account_info_ack_payload
  | AckFrontiers "frontier list"

record asc_pull_ack =
  apa_id :: u64
  apa_pull_type :: asc_pull_ack_type

fun ack_payload_type :: "asc_pull_ack_type \<Rightarrow> asc_pull_payload_id" where
  "ack_payload_type (AckBlocks x) = PullBlocks"
| "ack_payload_type (AckAccountInfo x) = PullAccountInfo"
| "ack_payload_type (AckFrontiers x) = PullFrontiers"

fun serialize_pull_type :: "asc_pull_ack_type \<Rightarrow> bytes" where
  "serialize_pull_type (AckBlocks blocks) = blocks_ack_serialize blocks"
| "serialize_pull_type (AckAccountInfo account_info) = account_info_ack_serialize account_info"
| "serialize_pull_type (AckFrontiers frontiers) =
     concat (map frontier_serialize frontiers) @ frontier_serialize frontier_default"

definition asc_pull_ack_serialize :: "asc_pull_ack \<Rightarrow> bytes" where
  "asc_pull_ack_serialize a =
     [payload_id_as_u8 (ack_payload_type (apa_pull_type a))] @ to_be_bytes 8 (apa_id a) @
     serialize_pull_type (apa_pull_type a)"

text \<open>The loop that reads at most \<open>n\<close> frontiers.\<close>

fun read_frontiers :: "nat \<Rightarrow> frontier list reader" where
  "read_frontiers 0 = read_return []"
| "read_frontiers (Suc n) =
     read_bind frontier_deserialize (\<lambda>current.
     if current = frontier_default then read_return []
     else read_bind (read_frontiers n) (\<lambda>frontiers. read_return (current # frontiers)))"

definition asc_pull_ack_deserialize :: "(bytes \<Rightarrow> block_hash) \<Rightarrow> bytes \<Rightarrow>
    (deserialization_error + asc_pull_ack) option" where
  "asc_pull_ack_deserialize blake bs =
     (case read_bind read_u8 (\<lambda>code. read_bind (read_ok_or (payload_id_from_u8 code) InvalidData) (\<lambda>pull_type_code.
           read_bind read_u64_be (\<lambda>pull_id. read_return (pull_type_code, pull_id)))) bs of
        Inl e \<Rightarrow> Some (Inl e)
      | Inr ((pull_type_code, pull_id), rest) \<Rightarrow>
          map_option (map_sum (\<lambda>e. e) (\<lambda>t. \<lparr>apa_id = pull_id, apa_pull_type = t\<rparr>))
           (case pull_type_code of
              PullBlocks \<Rightarrow> map_option (map_sum (\<lambda>e. e) AckBlocks) (blocks_ack_deserialize blake rest)
            | PullAccountInfo \<Rightarrow> Some (map_sum (\<lambda>e. e) AckAccountInfo (run_reader account_info_ack_deserialize rest))
            | PullFrontiers \<Rightarrow> Some (map_sum (\<lambda>e. e) AckFrontiers (run_reader (read_frontiers 1000) rest))))"

lemma blocks_ack_read_enc:
  "\<forall>b \<in> set bl. block_hash_ok blake b \<Longrightarrow> length bl \<le> n \<Longrightarrow>
     blocks_ack_read blake n (blocks_ack_serialize bl) = Inr (bl, [])"
proof (induction bl arbitrary: n)
  case Nil
  show ?case by (simp add: blocks_ack_read.simps [of blake n] blocks_ack_serialize_def block_type_id_from_u8_def)
next
  case (Cons b bl)
  obtain m where n: "n = Suc m" using Cons.prems(2) by (cases n) auto
  have "block_type_id_of (block_type_of b) \<noteq> BTI_NotABlock" by (cases "block_type_of b") simp_all
  then show ?case
    using Cons.IH [of m] Cons.prems
    by (simp add: blocks_ack_read.simps [of blake "Suc m"] n blocks_ack_serialize_def block_serialize_def
        deserialize_serialize_without_block_type)
qed

lemma blocks_ack_read_length: "blocks_ack_read blake n bs = Inr (bl, rest) \<Longrightarrow> length bl \<le> n"
proof (induction blake n bs arbitrary: bl rest rule: blocks_ack_read.induct)
  case (1 blake n bs)
  show ?case
  proof (cases n)
    case 0
    then show ?thesis
      using 1(2) by (auto simp: blocks_ack_read.simps [of blake 0] read_bind_eq_Inr split: if_splits)
  next
    case (Suc m)
    then show ?thesis
      using 1 by (auto simp: blocks_ack_read.simps [of blake "Suc m"] read_bind_eq_Inr split: if_splits)
  qed
qed

lemma blocks_ack_deserialize_total: "blocks_ack_deserialize blake bs \<noteq> None"
  by (auto simp: blocks_ack_deserialize_def blocks_ack_new_def run_reader_eq_Inr dest: blocks_ack_read_length
      split: sum.splits)

lemma asc_pull_ack_deserialize_total: "asc_pull_ack_deserialize blake bs \<noteq> None"
  using blocks_ack_deserialize_total
  by (auto simp: asc_pull_ack_deserialize_def split: sum.splits asc_pull_payload_id.splits)

lemma frontier_roundtrip [simp]: "frontier_deserialize (frontier_serialize f @ rest) = Inr (f, rest)"
  by (simp add: frontier_deserialize_def frontier_serialize_def)

lemma read_frontiers_enc:
  assumes "frontier_default \<notin> set fs" "length fs \<le> n"
  shows "\<exists>rest. read_frontiers n (concat (map frontier_serialize fs) @ frontier_serialize frontier_default) = Inr (fs, rest)"
  using assms
proof (induction fs arbitrary: n)
  case Nil
  then show ?case using frontier_roundtrip [of frontier_default "[]"] by (cases n) simp_all
next
  case (Cons f fs)
  then obtain m where n: "n = Suc m" by (cases n) auto
  then obtain rest where "read_frontiers m (concat (map frontier_serialize fs) @ frontier_serialize frontier_default) = Inr (fs, rest)"
    using Cons by auto
  then show ?case using Cons.prems n by auto
qed

text \<open>
  At most 128 blocks with correct hashes, and at most 1000 frontiers, none of them the zero
  frontier that ends the list.
\<close>

definition asc_pull_ack_wf :: "(bytes \<Rightarrow> block_hash) \<Rightarrow> asc_pull_ack \<Rightarrow> bool" where
  "asc_pull_ack_wf blake a =
     (case apa_pull_type a of
        AckBlocks bl \<Rightarrow> length bl \<le> 128 \<and> (\<forall>b \<in> set bl. block_hash_ok blake b)
      | AckAccountInfo _ \<Rightarrow> True
      | AckFrontiers fs \<Rightarrow> length fs \<le> 1000 \<and> frontier_default \<notin> set fs)"

lemma length_blocks_ack: "length (blocks_ack_serialize bl) \<le> 217 * length bl + 1"
proof -
  have "length (block_serialize b) \<le> 217" for b
    by (cases "block_type_of b") (simp_all add: block_serialize_def length_serialize_without_block_type)
  then have "length (concat (map block_serialize bl)) \<le> 217 * length bl"
    by (induction bl) (simp_all add: add_mono)
  then show ?thesis by (simp add: blocks_ack_serialize_def)
qed

lemma length_frontiers: "length (concat (map frontier_serialize fs)) = 64 * length fs"
  by (induction fs) (simp_all add: frontier_serialize_def)

lemma serialize_pull_type_length:
  "asc_pull_ack_wf blake a \<Longrightarrow> length (serialize_pull_type (apa_pull_type a)) < 2 ^ 16 - 9"
  using length_blocks_ack
  by (auto simp: asc_pull_ack_wf_def account_info_ack_serialize_def length_frontiers frontier_serialize_def
      split: asc_pull_ack_type.splits intro: le_less_trans [OF length_blocks_ack])

lemma serialize_pull_type_roundtrip:
  assumes "asc_pull_ack_wf blake \<lparr>apa_id = i, apa_pull_type = t\<rparr>"
  shows "asc_pull_ack_deserialize blake (asc_pull_ack_serialize \<lparr>apa_id = i, apa_pull_type = t\<rparr>) =
    Some (Inr \<lparr>apa_id = i, apa_pull_type = t\<rparr>)"
proof (cases t)
  case (AckBlocks bl)
  then show ?thesis
    using assms blocks_ack_read_enc [of bl blake 128]
    by (simp add: asc_pull_ack_wf_def asc_pull_ack_deserialize_def asc_pull_ack_serialize_def blocks_ack_deserialize_def
        blocks_ack_new_def payload_id_from_u8_def)
next
  case (AckAccountInfo x)
  have "account_info_ack_deserialize (account_info_ack_serialize x @ []) = Inr (x, [])"
    by (simp add: account_info_ack_deserialize_def account_info_ack_serialize_def del: append_Nil2)
  then show ?thesis
    by (simp add: AckAccountInfo asc_pull_ack_deserialize_def asc_pull_ack_serialize_def payload_id_from_u8_def)
next
  case (AckFrontiers fs)
  then obtain rest where "read_frontiers 1000 (concat (map frontier_serialize fs) @ frontier_serialize frontier_default) = Inr (fs, rest)"
    using assms read_frontiers_enc [of fs 1000] by (auto simp: asc_pull_ack_wf_def)
  then show ?thesis
    by (simp add: AckFrontiers asc_pull_ack_deserialize_def asc_pull_ack_serialize_def payload_id_from_u8_def)
qed

lemma blocks_ack_read_hash_ok:
  "blocks_ack_read blake n bs = Inr (bl, rest) \<Longrightarrow> b \<in> set bl \<Longrightarrow> block_hash_ok blake b"
proof (induction blake n bs arbitrary: bl rest rule: blocks_ack_read.induct)
  case (1 blake n bs)
  show ?case
  proof (cases n)
    case 0
    then show ?thesis
      using 1(2,3) by (auto simp: blocks_ack_read.simps [of blake 0] read_bind_eq_Inr split: if_splits)
  next
    case (Suc m)
    then show ?thesis
      using 1 by (auto simp: blocks_ack_read.simps [of blake "Suc m"] read_bind_eq_Inr
          dest: deserialize_block_type_hash_ok split: if_splits)
  qed
qed

lemma read_frontiers_wf:
  "read_frontiers n bs = Inr (fs, rest) \<Longrightarrow> length fs \<le> n \<and> frontier_default \<notin> set fs"
proof (induction n arbitrary: bs fs rest)
  case (Suc n)
  then show ?case by (fastforce simp: read_bind_eq_Inr split: if_splits)
qed simp

lemma asc_pull_ack_dec_wf: "asc_pull_ack_deserialize blake bs = Some (Inr a) \<Longrightarrow> asc_pull_ack_wf blake a"
  using blocks_ack_read_hash_ok [of blake 128]
  by (auto simp: asc_pull_ack_deserialize_def asc_pull_ack_wf_def blocks_ack_deserialize_def blocks_ack_new_def
      run_reader_eq_Inr map_sum_eq_Inr dest!: read_frontiers_wf
      split: sum.splits asc_pull_payload_id.splits if_splits)

interpretation asc_pull_ack: wire_payload asc_pull_ack_serialize
  "\<lambda>a. asc_pull_header_extensions (of_nat (length (asc_pull_ack_serialize a)))" asc_pull_serialized_size
  "\<lambda>_ bs. asc_pull_ack_deserialize blake bs" "asc_pull_ack_wf blake" for blake
proof
  fix a assume wf: "asc_pull_ack_wf blake a"
  have "length (asc_pull_ack_serialize a) = 9 + length (serialize_pull_type (apa_pull_type a))"
    by (simp add: asc_pull_ack_serialize_def)
  from asc_pull_size [OF this serialize_pull_type_length [OF wf]]
  show "length (asc_pull_ack_serialize a) =
      asc_pull_serialized_size (asc_pull_header_extensions (of_nat (length (asc_pull_ack_serialize a))))" by simp
  show "asc_pull_ack_deserialize blake (asc_pull_ack_serialize a) = Some (Inr a)"
    using serialize_pull_type_roundtrip [of blake] wf by (cases a) simp
next
  fix bs a assume "asc_pull_ack_deserialize blake bs = Some (Inr a)"
  then show "asc_pull_ack_wf blake a" by (rule asc_pull_ack_dec_wf)
qed

section \<open>Frontier requests and bulk pulls\<close>

record frontier_req =
  frq_start :: account
  frq_age :: u32
  frq_count :: u32
  frq_only_confirmed :: bool

definition frontier_req_serialize :: "frontier_req \<Rightarrow> bytes" where
  "frontier_req_serialize r =
     u256_serialize (frq_start r) @ to_le_bytes 4 (frq_age r) @ to_le_bytes 4 (frq_count r)"

definition frontier_req_deserialize :: "bytes \<Rightarrow> extensions \<Rightarrow> deserialization_error + frontier_req" where
  "frontier_req_deserialize bs ext =
     run_reader (read_bind u256_deserialize (\<lambda>start. read_bind (read_exact 4) (\<lambda>age. read_bind (read_exact 4) (\<lambda>count.
       read_return \<lparr>frq_start = start, frq_age = from_le_bytes age, frq_count = from_le_bytes count,
         frq_only_confirmed = bit ext 1\<rparr>)))) bs"

definition frontier_req_header_extensions :: "frontier_req \<Rightarrow> extensions" where
  "frontier_req_header_extensions r = set_extension 1 (frq_only_confirmed r) 0"

interpretation frontier_req: wire_payload frontier_req_serialize frontier_req_header_extensions "\<lambda>_. 32 + 4 + 4"
  "\<lambda>ext bs. Some (frontier_req_deserialize bs ext)" "\<lambda>_. True"
  by unfold_locales (simp_all add: frontier_req_deserialize_def frontier_req_serialize_def frontier_req_header_extensions_def)

record bulk_pull =
  bp_start :: u256
  bp_end :: block_hash
  bp_count :: u32
  bp_ascending :: bool

definition bulk_pull_serialized_size :: "extensions \<Rightarrow> nat" where
  "bulk_pull_serialized_size ext = 32 + 32 + (if bit ext 0 then 8 else 0)"

definition bulk_pull_serialize :: "bulk_pull \<Rightarrow> bytes" where
  "bulk_pull_serialize p =
     u256_serialize (bp_start p) @ u256_serialize (bp_end p) @
     (if bp_count p > 0 then [0] @ to_le_bytes 4 (bp_count p) @ [0, 0, 0] else [])"

definition bulk_pull_deserialize :: "bytes \<Rightarrow> extensions \<Rightarrow> deserialization_error + bulk_pull" where
  "bulk_pull_deserialize bs ext =
     run_reader (read_bind u256_deserialize (\<lambda>start. read_bind u256_deserialize (\<lambda>end.
       read_bind (if bit ext 0 then read_bind (read_exact 8) (\<lambda>buffer.
           if hd buffer \<noteq> 0 then read_fail InvalidData
           else read_return (from_le_bytes (take 4 (drop 1 buffer)))) else read_return 0) (\<lambda>count.
       read_return \<lparr>bp_start = start, bp_end = end, bp_count = count, bp_ascending = bit ext 1\<rparr>)))) bs"

definition bulk_pull_header_extensions :: "bulk_pull \<Rightarrow> extensions" where
  "bulk_pull_header_extensions p = set_extension 1 (bp_ascending p) (set_extension 0 (bp_count p > 0) 0)"

interpretation bulk_pull: wire_payload bulk_pull_serialize bulk_pull_header_extensions bulk_pull_serialized_size
  "\<lambda>ext bs. Some (bulk_pull_deserialize bs ext)" "\<lambda>_. True"
proof
  fix p
  have b: "bit (bulk_pull_header_extensions p) 0 = (bp_count p > 0)" "bit (bulk_pull_header_extensions p) 1 = bp_ascending p"
    by (simp_all add: bulk_pull_header_extensions_def)
  show "length (bulk_pull_serialize p) = bulk_pull_serialized_size (bulk_pull_header_extensions p)"
    by (simp add: bulk_pull_serialize_def bulk_pull_serialized_size_def b)
  show "Some (bulk_pull_deserialize (bulk_pull_serialize p) (bulk_pull_header_extensions p)) = Some (Inr p)"
    using b by (cases p; cases "bp_count p > 0") (simp_all add: bulk_pull_deserialize_def bulk_pull_serialize_def
        u256.dec_enc_self word_gt_0)
qed simp

datatype bulk_pull_account_flags = PendingHashAndAmount | PendingAddressOnly | PendingHashAmountAndAddress

fun bulk_pull_account_flags_as_u8 :: "bulk_pull_account_flags \<Rightarrow> u8" where
  "bulk_pull_account_flags_as_u8 PendingHashAndAmount = 0"
| "bulk_pull_account_flags_as_u8 PendingAddressOnly = 1"
| "bulk_pull_account_flags_as_u8 PendingHashAmountAndAddress = 2"

record bulk_pull_account =
  bpa_account :: account
  bpa_minimum_amount :: amount
  bpa_flags :: bulk_pull_account_flags

definition bulk_pull_account_serialize :: "bulk_pull_account \<Rightarrow> bytes" where
  "bulk_pull_account_serialize p =
     u256_serialize (bpa_account p) @ amount_serialize (bpa_minimum_amount p) @
     [bulk_pull_account_flags_as_u8 (bpa_flags p)]"

definition bulk_pull_account_deserialize :: "bytes \<Rightarrow> deserialization_error + bulk_pull_account" where
  "bulk_pull_account_deserialize =
     run_reader (read_bind u256_deserialize (\<lambda>account. read_bind amount_deserialize (\<lambda>minimum_amount.
       read_bind read_u8 (\<lambda>v. read_bind (read_ok_or
         (if v = 0 then Some PendingHashAndAmount else if v = 1 then Some PendingAddressOnly
          else if v = 2 then Some PendingHashAmountAndAddress else None) InvalidData) (\<lambda>flags.
       read_return \<lparr>bpa_account = account, bpa_minimum_amount = minimum_amount, bpa_flags = flags\<rparr>)))))"

interpretation bulk_pull_account: wire_payload bulk_pull_account_serialize "\<lambda>_. 0" "\<lambda>_. 32 + 16 + 1"
  "\<lambda>_ bs. Some (bulk_pull_account_deserialize bs)" "\<lambda>_. True"
proof
  fix p
  show "length (bulk_pull_account_serialize p) = 32 + 16 + 1" by (simp add: bulk_pull_account_serialize_def)
  show "Some (bulk_pull_account_deserialize (bulk_pull_account_serialize p)) = Some (Inr p)"
    by (cases p; cases "bpa_flags p") (simp_all add: bulk_pull_account_deserialize_def bulk_pull_account_serialize_def)
qed simp

section \<open>Telemetry\<close>

text \<open>A point in time is the number of nanoseconds since the epoch, negative before it.\<close>

record telemetry_data =
  td_signature :: signature
  td_node_id :: public_key
  td_block_count :: u64
  td_cemented_count :: u64
  td_unchecked_count :: u64
  td_account_count :: u64
  td_bandwidth_cap :: u64
  td_uptime :: u64
  td_peer_count :: u32
  td_protocol_version :: u8
  td_genesis_block :: block_hash
  td_major_version :: u8
  td_minor_version :: u8
  td_patch_version :: u8
  td_pre_release_version :: u8
  td_maker :: u8
  td_timestamp :: int
  td_active_difficulty :: u64
  td_unknown_data :: bytes

abbreviation SERIALIZED_SIZE_OF_KNOWN_DATA :: nat where
  "SERIALIZED_SIZE_OF_KNOWN_DATA \<equiv> 64 + 32 + 8 + 8 + 8 + 8 + 8 + 4 + 1 + 8 + 32 + 1 + 1 + 1 + 1 + 1 + 8 + 8"

definition serialize_without_signature :: "telemetry_data \<Rightarrow> bytes option" where
  "serialize_without_signature d =
     (if td_timestamp d < 0 then None
      else Some (u256_serialize (td_node_id d) @ to_be_bytes 8 (td_block_count d) @
        to_be_bytes 8 (td_cemented_count d) @ to_be_bytes 8 (td_unchecked_count d) @
        to_be_bytes 8 (td_account_count d) @ to_be_bytes 8 (td_bandwidth_cap d) @
        to_be_bytes 4 (td_peer_count d) @ [td_protocol_version d] @ to_be_bytes 8 (td_uptime d) @
        u256_serialize (td_genesis_block d) @
        [td_major_version d, td_minor_version d, td_patch_version d, td_pre_release_version d, td_maker d] @
        to_be_bytes 8 (word_of_int (td_timestamp d div 1000000) :: u64) @
        to_be_bytes 8 (td_active_difficulty d) @ td_unknown_data d))"

definition telemetry_data_deserialize :: "nat \<Rightarrow> telemetry_data reader" where
  "telemetry_data_deserialize payload_len =
     read_bind signature_deserialize (\<lambda>signature. read_bind u256_deserialize (\<lambda>node_id.
     read_bind read_u64_be (\<lambda>block_count. read_bind read_u64_be (\<lambda>cemented_count.
     read_bind read_u64_be (\<lambda>unchecked_count. read_bind read_u64_be (\<lambda>account_count.
     read_bind read_u64_be (\<lambda>bandwidth_cap. read_bind read_u32_be (\<lambda>peer_count.
     read_bind read_u8 (\<lambda>protocol_version. read_bind read_u64_be (\<lambda>uptime.
     read_bind u256_deserialize (\<lambda>genesis_block. read_bind read_u8 (\<lambda>major_version.
     read_bind read_u8 (\<lambda>minor_version. read_bind read_u8 (\<lambda>patch_version.
     read_bind read_u8 (\<lambda>pre_release_version. read_bind read_u8 (\<lambda>maker.
     read_bind read_u64_be (\<lambda>timestamp_ms. read_bind read_u64_be (\<lambda>active_difficulty.
     read_bind (if payload_len > SERIALIZED_SIZE_OF_KNOWN_DATA
       then read_exact (payload_len - SERIALIZED_SIZE_OF_KNOWN_DATA) else read_return []) (\<lambda>unknown_data.
     read_return \<lparr>td_signature = signature, td_node_id = node_id, td_block_count = block_count,
       td_cemented_count = cemented_count, td_unchecked_count = unchecked_count, td_account_count = account_count,
       td_bandwidth_cap = bandwidth_cap, td_uptime = uptime, td_peer_count = peer_count,
       td_protocol_version = protocol_version, td_genesis_block = genesis_block, td_major_version = major_version,
       td_minor_version = minor_version, td_patch_version = patch_version,
       td_pre_release_version = pre_release_version, td_maker = maker,
       td_timestamp = int (unat timestamp_ms) * 1000000, td_active_difficulty = active_difficulty,
       td_unknown_data = unknown_data\<rparr>)))))))))))))))))))"

definition telemetry_ack_serialized_size :: "extensions \<Rightarrow> nat" where
  "telemetry_ack_serialized_size ext = unat (ext AND 0x3FF)"

definition telemetry_ack_serialize :: "telemetry_data option \<Rightarrow> bytes option" where
  "telemetry_ack_serialize ack =
     (case ack of
        Some d \<Rightarrow> map_option (\<lambda>bs. signature_serialize (td_signature d) @ bs) (serialize_without_signature d)
      | None \<Rightarrow> Some [])"

definition telemetry_ack_deserialize :: "bytes \<Rightarrow> extensions \<Rightarrow> deserialization_error + telemetry_data option" where
  "telemetry_ack_deserialize bs ext =
     (let payload_length = telemetry_ack_serialized_size ext in
      if payload_length = 0 then Inr None
      else map_sum (\<lambda>e. e) Some (run_reader (telemetry_data_deserialize payload_length) bs))"

definition telemetry_ack_header_extensions :: "telemetry_data option \<Rightarrow> extensions" where
  "telemetry_ack_header_extensions ack =
     (case ack of
        Some d \<Rightarrow> of_nat SERIALIZED_SIZE_OF_KNOWN_DATA + of_nat (length (td_unknown_data d))
      | None \<Rightarrow> 0)"

definition telemetry_validate_signature :: "(public_key \<Rightarrow> bytes \<Rightarrow> signature \<Rightarrow> bool) \<Rightarrow> telemetry_data \<Rightarrow> bool option" where
  "telemetry_validate_signature verify d =
     map_option (\<lambda>buffer. verify (td_node_id d) buffer (td_signature d)) (serialize_without_signature d)"

text \<open>
  The length fits into the 10 bits of the header, and the time is a whole number of
  milliseconds after the epoch, at most 64 bits of them.
\<close>

definition telemetry_wf :: "telemetry_data option \<Rightarrow> bool" where
  "telemetry_wf ack \<longleftrightarrow>
     (\<forall>d. ack = Some d \<longrightarrow> length (td_unknown_data d) + SERIALIZED_SIZE_OF_KNOWN_DATA < 1024 \<and>
        (\<exists>ms < 2 ^ 64. td_timestamp d = int ms * 1000000))"

lemma telemetry_size:
  assumes "telemetry_wf (Some d)"
  shows "telemetry_ack_serialized_size (telemetry_ack_header_extensions (Some d)) =
    SERIALIZED_SIZE_OF_KNOWN_DATA + length (td_unknown_data d)"
proof -
  define n where "n = SERIALIZED_SIZE_OF_KNOWN_DATA + length (td_unknown_data d)"
  have n: "n < 1024" using assms by (auto simp: telemetry_wf_def n_def)
  have "telemetry_ack_header_extensions (Some d) = of_nat n" by (simp add: telemetry_ack_header_extensions_def n_def)
  moreover have "(0x3FF :: u16) = mask 10" by (simp add: mask_eq_exp_minus_1)
  ultimately have "telemetry_ack_serialized_size (telemetry_ack_header_extensions (Some d)) = take_bit 10 n"
    using n by (simp only: telemetry_ack_serialized_size_def take_bit_eq_mask [symmetric] unsigned_take_bit_eq)
      (simp add: unat_of_nat)
  then show ?thesis using n by (simp add: take_bit_nat_eq_self_iff n_def)
qed

lemma telemetry_data_roundtrip:
  assumes "serialize_without_signature d = Some bs" "n = SERIALIZED_SIZE_OF_KNOWN_DATA + length (td_unknown_data d)"
    "\<exists>ms < 2 ^ 64. td_timestamp d = int ms * 1000000"
  shows "telemetry_data_deserialize n (signature_serialize (td_signature d) @ bs) = Inr (d, [])"
proof -
  obtain ms where ms: "ms < 2 ^ 64" "td_timestamp d = int ms * 1000000" using assms(3) by blast
  then have "int (unat (word_of_int (td_timestamp d div 1000000) :: u64)) * 1000000 = td_timestamp d"
    by (simp add: unat_of_nat)
  moreover have "(if 202 < n then read_exact (n - 202) else read_return []) (td_unknown_data d) = Inr (td_unknown_data d, [])"
    using assms(2) by simp
  ultimately show ?thesis
    using assms(1,2) by (cases d) (auto simp: telemetry_data_deserialize_def serialize_without_signature_def
        read_u64_be_append [where rest = "[]", simplified] split: if_splits)
qed

lemma telemetry_data_dec:
  assumes "telemetry_data_deserialize n bs = Inr (d, rest)"
  shows "length (td_unknown_data d) = n - SERIALIZED_SIZE_OF_KNOWN_DATA \<and>
    (\<exists>ms < 2 ^ 64. td_timestamp d = int ms * 1000000)"
proof -
  obtain ms :: u64 where "td_timestamp d = int (unat ms) * 1000000" "length (td_unknown_data d) = n - 202"
    using assms by (auto simp: telemetry_data_deserialize_def read_bind_eq_Inr read_exact_eq_Inr split: if_splits)
  then show ?thesis
    using unat_lt2p [of ms] by auto
qed

lemma telemetry_dec_wf: "telemetry_ack_deserialize bs e = Inr ack \<Longrightarrow> telemetry_wf ack"
proof -
  have "e AND 0x3FF \<le> 0x3FF" by (rule word_and_le1)
  then have "telemetry_ack_serialized_size e < 1024"
    by (simp add: telemetry_ack_serialized_size_def word_le_nat_alt)
  then show "telemetry_ack_deserialize bs e = Inr ack \<Longrightarrow> telemetry_wf ack"
    by (auto simp: telemetry_ack_deserialize_def telemetry_wf_def Let_def run_reader_eq_Inr map_sum_eq_Inr
        dest!: telemetry_data_dec split: if_splits)
qed

interpretation telemetry_ack: wire_payload "\<lambda>ack. the (telemetry_ack_serialize ack)" telemetry_ack_header_extensions
  telemetry_ack_serialized_size "\<lambda>ext bs. Some (telemetry_ack_deserialize bs ext)" telemetry_wf
proof
  fix ack assume wf: "telemetry_wf ack"
  have "length (the (telemetry_ack_serialize ack)) = telemetry_ack_serialized_size (telemetry_ack_header_extensions ack) \<and>
    telemetry_ack_deserialize (the (telemetry_ack_serialize ack)) (telemetry_ack_header_extensions ack) = Inr ack"
  proof (cases ack)
    case None
    then show ?thesis by (simp add: telemetry_ack_serialize_def telemetry_ack_header_extensions_def
        telemetry_ack_serialized_size_def telemetry_ack_deserialize_def)
  next
    case (Some d)
    then have t: "\<exists>ms < 2 ^ 64. td_timestamp d = int ms * 1000000" using wf by (auto simp: telemetry_wf_def)
    then obtain bs where bs: "serialize_without_signature d = Some bs" by (auto simp: serialize_without_signature_def)
    then have "length bs = 138 + length (td_unknown_data d)" by (auto simp: serialize_without_signature_def split: if_splits)
    then show ?thesis
      using Some telemetry_size [of d] telemetry_data_roundtrip [OF bs refl t] wf
      by (simp add: telemetry_ack_serialize_def telemetry_ack_deserialize_def bs)
  qed
  then show "length (the (telemetry_ack_serialize ack)) = telemetry_ack_serialized_size (telemetry_ack_header_extensions ack)"
    "Some (telemetry_ack_deserialize (the (telemetry_ack_serialize ack)) (telemetry_ack_header_extensions ack)) = Some (Inr ack)"
    by simp_all
next
  fix e bs ack assume "Some (telemetry_ack_deserialize bs e) = Some (Inr ack)"
  then show "telemetry_wf ack" by (auto intro: telemetry_dec_wf)
qed

end
