(* ===== verification/Messages.thy ===== *)
theory Messages
  imports Pull_Payloads
begin

text \<open>
  The message header and the messages of \<^verbatim>\<open>messages/src\<close>
  (\<^verbatim>\<open>message_header.rs\<close>, \<^verbatim>\<open>message.rs\<close>,
  \<^verbatim>\<open>message_serializer.rs\<close>): writing a message with its header, checking a
  header, and reading a message back. The contract \<open>wire_payload\<close> of every payload gives
  the round trip of all messages.
\<close>

section \<open>The header\<close>

datatype networks = NetworkInvalid | NanoDevNetwork | NanoBetaNetwork | NanoLiveNetwork | NanoTestNetwork

fun network_as_u16 :: "networks \<Rightarrow> u16" where
  "network_as_u16 NetworkInvalid = 0"
| "network_as_u16 NanoDevNetwork = 0x5241"
| "network_as_u16 NanoBetaNetwork = 0x5242"
| "network_as_u16 NanoLiveNetwork = 0x5243"
| "network_as_u16 NanoTestNetwork = 0x5258"

definition network_from_u16 :: "u16 \<Rightarrow> networks option" where
  "network_from_u16 v =
     (if v = 0 then Some NetworkInvalid else if v = 0x5241 then Some NanoDevNetwork
      else if v = 0x5242 then Some NanoBetaNetwork else if v = 0x5243 then Some NanoLiveNetwork
      else if v = 0x5258 then Some NanoTestNetwork else None)"

record protocol_info =
  pr_version_using :: u8
  pr_version_max :: u8
  pr_version_min :: u8
  pr_network :: networks

datatype message_type =
    TypeInvalid | TypeNotAType | TypeKeepalive | TypePublish | TypeConfirmReq | TypeConfirmAck
  | TypeBulkPull | TypeBulkPush | TypeFrontierReq | TypeNodeIdHandshake | TypeBulkPullAccount
  | TypeTelemetryReq | TypeTelemetryAck | TypeAscPullReq | TypeAscPullAck

fun message_type_as_u8 :: "message_type \<Rightarrow> u8" where
  "message_type_as_u8 TypeInvalid = 0x0"
| "message_type_as_u8 TypeNotAType = 0x1"
| "message_type_as_u8 TypeKeepalive = 0x2"
| "message_type_as_u8 TypePublish = 0x3"
| "message_type_as_u8 TypeConfirmReq = 0x4"
| "message_type_as_u8 TypeConfirmAck = 0x5"
| "message_type_as_u8 TypeBulkPull = 0x6"
| "message_type_as_u8 TypeBulkPush = 0x7"
| "message_type_as_u8 TypeFrontierReq = 0x8"
| "message_type_as_u8 TypeNodeIdHandshake = 0x0A"
| "message_type_as_u8 TypeBulkPullAccount = 0x0B"
| "message_type_as_u8 TypeTelemetryReq = 0x0C"
| "message_type_as_u8 TypeTelemetryAck = 0x0D"
| "message_type_as_u8 TypeAscPullReq = 0x0E"
| "message_type_as_u8 TypeAscPullAck = 0x0F"

text \<open>The derived \<^verbatim>\<open>FromPrimitive::from_u8\<close>.\<close>

definition message_type_from_u8 :: "u8 \<Rightarrow> message_type option" where
  "message_type_from_u8 v = find (\<lambda>t. message_type_as_u8 t = v)
     [TypeInvalid, TypeNotAType, TypeKeepalive, TypePublish, TypeConfirmReq, TypeConfirmAck,
      TypeBulkPull, TypeBulkPush, TypeFrontierReq, TypeNodeIdHandshake, TypeBulkPullAccount,
      TypeTelemetryReq, TypeTelemetryAck, TypeAscPullReq, TypeAscPullAck]"

record message_header =
  mh_message_type :: message_type
  mh_protocol :: protocol_info
  mh_extensions :: extensions

definition header_serialize :: "message_header \<Rightarrow> bytes" where
  "header_serialize h =
     to_be_bytes 2 (network_as_u16 (pr_network (mh_protocol h))) @
     [pr_version_max (mh_protocol h), pr_version_using (mh_protocol h), pr_version_min (mh_protocol h),
      message_type_as_u8 (mh_message_type h)] @
     to_le_bytes 2 (mh_extensions h)"

definition header_deserialize :: "message_header reader" where
  "header_deserialize =
     read_bind (read_exact 2) (\<lambda>buffer.
     read_bind (read_ok_or (network_from_u16 (from_be_bytes buffer)) InvalidData) (\<lambda>network.
     read_bind read_u8 (\<lambda>version_max. read_bind read_u8 (\<lambda>version_using. read_bind read_u8 (\<lambda>version_min.
     read_bind read_u8 (\<lambda>code. read_bind (read_ok_or (message_type_from_u8 code) InvalidData) (\<lambda>message_type.
     read_bind (read_exact 2) (\<lambda>buffer.
     read_return \<lparr>mh_message_type = message_type,
       mh_protocol = \<lparr>pr_version_using = version_using, pr_version_max = version_max,
         pr_version_min = version_min, pr_network = network\<rparr>,
       mh_extensions = from_le_bytes buffer\<rparr>))))))))"

text \<open>The debug assertion on the two invalid types is not modelled; \<^verbatim>\<open>validate_header\<close> refuses them first.\<close>

definition payload_length :: "message_header \<Rightarrow> nat" where
  "payload_length h =
     (let ext = mh_extensions h in
      case mh_message_type h of
        TypeKeepalive \<Rightarrow> 8 * (16 + 2)
      | TypePublish \<Rightarrow> publish_serialized_size ext
      | TypeConfirmReq \<Rightarrow> confirm_req_serialized_size ext
      | TypeConfirmAck \<Rightarrow> confirm_ack_serialized_size ext
      | TypeBulkPull \<Rightarrow> bulk_pull_serialized_size ext
      | TypeBulkPush \<Rightarrow> 0
      | TypeTelemetryReq \<Rightarrow> 0
      | TypeFrontierReq \<Rightarrow> 32 + 4 + 4
      | TypeNodeIdHandshake \<Rightarrow> handshake_serialized_size ext
      | TypeBulkPullAccount \<Rightarrow> 32 + 16 + 1
      | TypeTelemetryAck \<Rightarrow> telemetry_ack_serialized_size ext
      | TypeAscPullReq \<Rightarrow> asc_pull_serialized_size ext
      | TypeAscPullAck \<Rightarrow> asc_pull_serialized_size ext
      | TypeInvalid \<Rightarrow> 0
      | TypeNotAType \<Rightarrow> 0)"

definition is_valid_message_type :: "message_header \<Rightarrow> bool" where
  "is_valid_message_type h = (mh_message_type h \<notin> {TypeInvalid, TypeNotAType})"

datatype parse_message_error =
    ParseOther | InvalidHeader | InvalidMessageType | InvalidMessage message_type | InvalidNetwork
  | OutdatedVersion | DuplicatePublishMessage | DuplicateConfirmAckMessage | MessageSizeTooBig | ParseStopped

abbreviation MAX_MESSAGE_SIZE :: nat where
  "MAX_MESSAGE_SIZE \<equiv> 1024 * 65"

definition validate_header :: "message_header \<Rightarrow> protocol_info \<Rightarrow> parse_message_error + unit" where
  "validate_header h expected =
     (if pr_network (mh_protocol h) \<noteq> pr_network expected then Inl InvalidNetwork
      else if pr_version_using (mh_protocol h) < pr_version_min expected then Inl OutdatedVersion
      else if \<not> is_valid_message_type h then Inl InvalidHeader
      else if payload_length h > MAX_MESSAGE_SIZE then Inl MessageSizeTooBig
      else Inr ())"

lemma network_from_as_u16 [simp]: "network_from_u16 (network_as_u16 n) = Some n"
  by (cases n) (simp_all add: network_from_u16_def)

lemma message_type_from_as_u8 [simp]: "message_type_from_u8 (message_type_as_u8 t) = Some t"
  by (cases t) (simp_all add: message_type_from_u8_def)

lemma read_bind_length:
  "read_bind p f bs = Inr (x, rest) \<Longrightarrow> (\<And>y r. p bs = Inr (y, r) \<Longrightarrow> length bs = n + length r) \<Longrightarrow>
     (\<And>y r. f y r = Inr (x, rest) \<Longrightarrow> length r = m + length rest) \<Longrightarrow> length bs = (n + m) + length rest"
  by (auto simp: read_bind_eq_Inr)

interpretation header: fixed_codec header_serialize header_deserialize "\<lambda>_. True" 8
proof
  fix h rest
  show "header_deserialize (header_serialize h @ rest) = Inr (h, rest)"
    by (simp add: header_deserialize_def header_serialize_def)
  show "length (header_serialize h) = 8" by (simp add: header_serialize_def)
next
  fix bs h rest assume "header_deserialize bs = Inr (h, rest)"
  then show "length bs = 8 + length rest"
    by (auto simp: header_deserialize_def read_bind_eq_Inr read_exact_eq_Inr read_ok_or_eq_Inr dest!: read_u8_length)
qed

section \<open>Messages\<close>

datatype message =
    Keepalive keepalive
  | Publish publish
  | AscPullAck asc_pull_ack
  | AscPullReq asc_pull_req
  | BulkPull bulk_pull
  | BulkPullAccount bulk_pull_account
  | BulkPush
  | ConfirmAck confirm_ack
  | ConfirmReq confirm_req
  | FrontierReq frontier_req
  | NodeIdHandshake node_id_handshake
  | TelemetryAck "telemetry_data option"
  | TelemetryReq

fun message_type_of :: "message \<Rightarrow> message_type" where
  "message_type_of (Keepalive x) = TypeKeepalive"
| "message_type_of (Publish x) = TypePublish"
| "message_type_of (AscPullAck x) = TypeAscPullAck"
| "message_type_of (AscPullReq x) = TypeAscPullReq"
| "message_type_of (BulkPull x) = TypeBulkPull"
| "message_type_of (BulkPullAccount x) = TypeBulkPullAccount"
| "message_type_of BulkPush = TypeBulkPush"
| "message_type_of (ConfirmAck x) = TypeConfirmAck"
| "message_type_of (ConfirmReq x) = TypeConfirmReq"
| "message_type_of (FrontierReq x) = TypeFrontierReq"
| "message_type_of (NodeIdHandshake x) = TypeNodeIdHandshake"
| "message_type_of (TelemetryAck x) = TypeTelemetryAck"
| "message_type_of TelemetryReq = TypeTelemetryReq"

fun header_extensions :: "message \<Rightarrow> u16 \<Rightarrow> extensions" where
  "header_extensions (Keepalive x) payload_len = 0"
| "header_extensions (Publish x) payload_len = publish_header_extensions x"
| "header_extensions (AscPullAck x) payload_len = asc_pull_header_extensions payload_len"
| "header_extensions (AscPullReq x) payload_len = asc_pull_header_extensions payload_len"
| "header_extensions (BulkPull x) payload_len = bulk_pull_header_extensions x"
| "header_extensions (BulkPullAccount x) payload_len = 0"
| "header_extensions BulkPush payload_len = 0"
| "header_extensions (ConfirmAck x) payload_len = confirm_ack_header_extensions x"
| "header_extensions (ConfirmReq x) payload_len = confirm_req_header_extensions x"
| "header_extensions (FrontierReq x) payload_len = frontier_req_header_extensions x"
| "header_extensions (NodeIdHandshake x) payload_len = handshake_header_extensions x"
| "header_extensions (TelemetryAck x) payload_len = telemetry_ack_header_extensions x"
| "header_extensions TelemetryReq payload_len = 0"

fun message_serialize :: "message \<Rightarrow> bytes option" where
  "message_serialize (Keepalive m) = Some (keepalive_serialize m)"
| "message_serialize (Publish m) = Some (publish_serialize m)"
| "message_serialize (AscPullAck m) = Some (asc_pull_ack_serialize m)"
| "message_serialize (AscPullReq m) = Some (asc_pull_req_serialize m)"
| "message_serialize (BulkPull m) = Some (bulk_pull_serialize m)"
| "message_serialize (BulkPullAccount m) = Some (bulk_pull_account_serialize m)"
| "message_serialize (ConfirmAck m) = Some (vote_serialize (ca_vote m))"
| "message_serialize (ConfirmReq m) = Some (confirm_req_serialize m)"
| "message_serialize (FrontierReq m) = Some (frontier_req_serialize m)"
| "message_serialize (NodeIdHandshake m) = Some (handshake_serialize m)"
| "message_serialize (TelemetryAck m) = telemetry_ack_serialize m"
| "message_serialize BulkPush = Some []"
| "message_serialize TelemetryReq = Some []"

definition message_deserialize :: "(bytes \<Rightarrow> block_hash) \<Rightarrow> bytes \<Rightarrow> message_header \<Rightarrow> u128 \<Rightarrow>
    (deserialization_error + message) option" where
  "message_deserialize blake payload h digest =
     (let ext = mh_extensions h in
      case mh_message_type h of
        TypeKeepalive \<Rightarrow> Some (map_sum (\<lambda>e. e) Keepalive (keepalive_deserialize payload))
      | TypePublish \<Rightarrow> Some (map_sum (\<lambda>e. e) Publish (publish_deserialize blake payload ext digest))
      | TypeAscPullAck \<Rightarrow> map_option (map_sum (\<lambda>e. e) AscPullAck) (asc_pull_ack_deserialize blake payload)
      | TypeAscPullReq \<Rightarrow> Some (map_sum (\<lambda>e. e) AscPullReq (asc_pull_req_deserialize payload))
      | TypeBulkPull \<Rightarrow> Some (map_sum (\<lambda>e. e) BulkPull (bulk_pull_deserialize payload ext))
      | TypeBulkPullAccount \<Rightarrow> Some (map_sum (\<lambda>e. e) BulkPullAccount (bulk_pull_account_deserialize payload))
      | TypeBulkPush \<Rightarrow> Some (Inr BulkPush)
      | TypeConfirmAck \<Rightarrow> map_option (map_sum (\<lambda>e. e) ConfirmAck) (confirm_ack_deserialize payload ext digest)
      | TypeConfirmReq \<Rightarrow> map_option (map_sum (\<lambda>e. e) ConfirmReq) (confirm_req_deserialize payload ext)
      | TypeFrontierReq \<Rightarrow> Some (map_sum (\<lambda>e. e) FrontierReq (frontier_req_deserialize payload ext))
      | TypeNodeIdHandshake \<Rightarrow> Some (map_sum (\<lambda>e. e) NodeIdHandshake (handshake_deserialize payload ext))
      | TypeTelemetryAck \<Rightarrow> Some (map_sum (\<lambda>e. e) TelemetryAck (telemetry_ack_deserialize payload ext))
      | TypeTelemetryReq \<Rightarrow> Some (Inr TelemetryReq)
      | TypeInvalid \<Rightarrow> Some (Inl InvalidData)
      | TypeNotAType \<Rightarrow> Some (Inl InvalidData))"

text \<open>\<^verbatim>\<open>MessageSerializer::serialize\<close>\<close>

definition serializer_serialize :: "protocol_info \<Rightarrow> message \<Rightarrow> bytes option" where
  "serializer_serialize protocol m =
     map_option (\<lambda>payload.
       let header = \<lparr>mh_message_type = message_type_of m, mh_protocol = protocol,
         mh_extensions = header_extensions m (of_nat (length payload))\<rparr>
       in header_serialize header @ payload) (message_serialize m)"

definition deserialize_message :: "(bytes \<Rightarrow> block_hash) \<Rightarrow> bytes \<Rightarrow>
    (deserialization_error + message_header \<times> message) option" where
  "deserialize_message blake buffer =
     (if length buffer < 8 then None
      else case header_deserialize (take 8 buffer) of
        Inl e \<Rightarrow> Some (Inl e)
      | Inr (header, _) \<Rightarrow>
          map_option (map_sum (\<lambda>e. e) (\<lambda>m. (header, m))) (message_deserialize blake (drop 8 buffer) header 0))"

section \<open>Round trip, bounds, no panics\<close>

text \<open>The messages that arrive as they were sent.\<close>

fun message_wf :: "(bytes \<Rightarrow> block_hash) \<Rightarrow> u128 \<Rightarrow> message \<Rightarrow> bool" where
  "message_wf blake digest (Keepalive x) = keepalive_wf x"
| "message_wf blake digest (Publish x) = (block_hash_ok blake (pb_block x) \<and> pb_digest x = digest)"
| "message_wf blake digest (AscPullAck x) = asc_pull_ack_wf blake x"
| "message_wf blake digest (ConfirmAck x) = (length (vt_hashes (ca_vote x)) \<le> 255 \<and> ca_digest x = digest)"
| "message_wf blake digest (ConfirmReq x) = confirm_req_wf x"
| "message_wf blake digest (NodeIdHandshake x) = handshake_wf x"
| "message_wf blake digest (TelemetryAck x) = telemetry_wf x"
| "message_wf blake digest _ = True"

abbreviation header_of :: "protocol_info \<Rightarrow> message \<Rightarrow> bytes \<Rightarrow> message_header" where
  "header_of protocol m payload \<equiv> \<lparr>mh_message_type = message_type_of m, mh_protocol = protocol,
     mh_extensions = header_extensions m (of_nat (length payload))\<rparr>"

lemma telemetry_serialize_total: "telemetry_wf x \<Longrightarrow> telemetry_ack_serialize x \<noteq> None"
  by (auto simp: telemetry_wf_def telemetry_ack_serialize_def serialize_without_signature_def split: option.splits)

text \<open>The contracts of the payloads, as rewrite rules.\<close>

lemma publish_size: "publish_serialized_size (publish_header_extensions p) = length (publish_serialize p)"
  by (simp add: publish_serialize_def publish_serialized_size_def length_serialize_without_block_type)

lemmas payload_facts =
  keepalive.dec_enc [unfolded option.inject] keepalive.enc_length publish.dec_enc [unfolded option.inject] publish_size
  asc_pull_ack.dec_enc asc_pull_ack.enc_length [symmetric] asc_pull_req.dec_enc [unfolded option.inject] asc_pull_req.enc_length [symmetric]
  bulk_pull.dec_enc [unfolded option.inject] bulk_pull.enc_length [symmetric] bulk_pull_account.dec_enc [unfolded option.inject] bulk_pull_account.enc_length
  confirm_ack.dec_enc confirm_ack.enc_length [symmetric] confirm_req.dec_enc confirm_req.enc_length [symmetric]
  frontier_req.dec_enc [unfolded option.inject] frontier_req.enc_length handshake.dec_enc [unfolded option.inject] handshake.enc_length [symmetric]

lemma message_payload:
  assumes "message_wf blake digest m"
  obtains payload where "message_serialize m = Some payload"
    "payload_length (header_of protocol m payload) = length payload"
    "message_deserialize blake payload (header_of protocol m payload) digest = Some (Inr m)"
proof (cases m)
  case (TelemetryAck x)
  then obtain bs where "telemetry_ack_serialize x = Some bs" using assms telemetry_serialize_total by auto
  then show ?thesis using that [of bs] assms TelemetryAck telemetry_ack.dec_enc [of x] telemetry_ack.enc_length [of x]
    by (simp add: payload_length_def message_deserialize_def)
qed (use that assms in \<open>simp_all add: payload_length_def message_deserialize_def payload_facts\<close>)

lemma message_deserialize_total: "message_deserialize blake payload h digest \<noteq> None"
  using confirm_req_deserialize_total confirm_ack_deserialize_total asc_pull_ack_deserialize_total
  by (auto simp: message_deserialize_def Let_def split: message_type.splits)

text \<open>Whatever is read is a message that could have been sent.\<close>

lemma message_deserialize_wf:
  assumes "message_deserialize blake payload h digest = Some (Inr m)"
  shows "message_wf blake digest m"
  using assms keepalive.dec_wf publish.dec_wf [of blake] asc_pull_ack.dec_wf [of blake] confirm_ack.dec_wf
    confirm_req.dec_wf handshake.dec_wf telemetry_ack.dec_wf
  by (auto simp: message_deserialize_def Let_def map_sum_eq_Inr split: message_type.splits)

text \<open>The length in a header is never more than the limit.\<close>

lemma serialized_block_size_le: "serialized_block_size t \<le> 216"
  by (cases t) simp_all

lemma payload_length_le: "payload_length h \<le> 65544"
proof -
  let ?e = "mh_extensions h"
  have ext: "unat e \<le> 65535" for e :: extensions using unat_lt2p [of e] by simp
  have count: "unat (confirm_req_count e) \<le> 255" for e using unat_lt2p [of "confirm_req_count e"] by simp
  have block: "serialized_block_size t \<le> 65544" for t using serialized_block_size_le [of t] by simp
  have "publish_serialized_size ?e \<le> 65544" "confirm_req_serialized_size ?e \<le> 65544"
    "confirm_ack_serialized_size ?e \<le> 65544"
    using count [of ?e] by (auto simp: publish_serialized_size_def confirm_req_serialized_size_def block Let_def
        confirm_ack_serialized_size_def vote_serialized_size_def split: option.splits)
  moreover have "bulk_pull_serialized_size ?e \<le> 65544" "handshake_serialized_size ?e \<le> 65544"
    "telemetry_ack_serialized_size ?e \<le> 65544" "asc_pull_serialized_size ?e \<le> 65544"
    using ext [of ?e] ext [of "?e AND 0x3FF"]
    by (simp_all add: bulk_pull_serialized_size_def handshake_serialized_size_def response_serialized_size_def
        telemetry_ack_serialized_size_def asc_pull_serialized_size_def)
  ultimately show ?thesis by (cases "mh_message_type h") (simp_all add: payload_length_def)
qed

end
