(* ===== verification/Message_Stream.thy ===== *)
theory Message_Stream
  imports Messages
begin

text \<open>
  From bytes to messages: the duplicate filter (\<^verbatim>\<open>messages/src/network_filter.rs\<close>)
  and the deserializer that cuts a stream of bytes, which arrives in pieces of any size, into
  messages (\<^verbatim>\<open>messages/src/message_deserializer.rs\<close>). The keyed hash function of
  the filter is the parameter \<open>hasher\<close>. Every operation of the filter holds its mutex, so
  it is one step; the filter is shared by all connections.
\<close>

section \<open>The duplicate filter\<close>

record filter_entry =
  fe_digest :: u128
  fe_epoch :: u64

abbreviation filter_entry_default :: filter_entry where
  "filter_entry_default \<equiv> \<lparr>fe_digest = 0, fe_epoch = 0\<rparr>"

record network_filter =
  nf_items :: "filter_entry list"
  nf_age_cutoff :: u64
  nf_current_epoch :: u64

definition nf_with_hasher :: "nat \<Rightarrow> network_filter" where
  "nf_with_hasher len =
     \<lparr>nf_items = replicate len filter_entry_default, nf_age_cutoff = 0, nf_current_epoch = 0\<rparr>"

definition nf_update :: "u64 \<Rightarrow> network_filter \<Rightarrow> network_filter" where
  "nf_update epoch_inc f = f\<lparr>nf_current_epoch := nf_current_epoch f + epoch_inc\<rparr>"

definition nf_compare :: "network_filter \<Rightarrow> filter_entry \<Rightarrow> u128 \<Rightarrow> bool" where
  "nf_compare f existing digest \<longleftrightarrow>
     fe_digest existing = digest \<and> nf_current_epoch f \<le> fe_epoch existing + nf_age_cutoff f"

text \<open>The index of the element; the remainder of a division by zero is a panic.\<close>

definition nf_index :: "u128 \<Rightarrow> network_filter \<Rightarrow> nat option" where
  "nf_index digest f = (if nf_items f = [] then None else Some (unat digest mod length (nf_items f)))"

definition apply_digest :: "u128 \<Rightarrow> network_filter \<Rightarrow> (bool \<times> network_filter) option" where
  "apply_digest digest f = do {
     i \<leftarrow> nf_index digest f;
     let existed = nf_compare f (nf_items f ! i) digest;
     Some (existed,
       if existed then f
       else f\<lparr>nf_items := (nf_items f)[i := \<lparr>fe_digest = digest, fe_epoch = nf_current_epoch f\<rparr>]\<rparr>)
   }"

definition nf_apply :: "(bytes \<Rightarrow> u128) \<Rightarrow> bytes \<Rightarrow> network_filter \<Rightarrow> ((u128 \<times> bool) \<times> network_filter) option" where
  "nf_apply hasher bs f = do {
     let digest = hasher bs;
     (existed, f) \<leftarrow> apply_digest digest f;
     Some ((digest, existed), f)
   }"

definition nf_check :: "u128 \<Rightarrow> network_filter \<Rightarrow> bool option" where
  "nf_check digest f = map_option (\<lambda>i. nf_compare f (nf_items f ! i) digest) (nf_index digest f)"

definition nf_clear :: "u128 \<Rightarrow> network_filter \<Rightarrow> network_filter option" where
  "nf_clear digest f =
     map_option (\<lambda>i. if nf_compare f (nf_items f ! i) digest
       then f\<lparr>nf_items := (nf_items f)[i := filter_entry_default]\<rparr> else f) (nf_index digest f)"

fun nf_clear_many :: "u128 list \<Rightarrow> network_filter \<Rightarrow> network_filter option" where
  "nf_clear_many [] f = Some f"
| "nf_clear_many (digest # digests) f = Option.bind (nf_clear digest f) (nf_clear_many digests)"

definition nf_clear_all :: "network_filter \<Rightarrow> network_filter" where
  "nf_clear_all f = f\<lparr>nf_items := replicate (length (nf_items f)) filter_entry_default\<rparr>"

section \<open>The deserializer\<close>

record message_deserializer =
  md_buffer :: bytes
  md_current_header :: "message_header option"
  md_network_filter :: "network_filter option"
  md_protocol :: protocol_info

definition md_with_filter :: "protocol_info \<Rightarrow> network_filter option \<Rightarrow> message_deserializer" where
  "md_with_filter protocol f =
     \<lparr>md_buffer = [], md_current_header = None, md_network_filter = f, md_protocol = protocol\<rparr>"

definition md_push :: "bytes \<Rightarrow> message_deserializer \<Rightarrow> message_deserializer" where
  "md_push data md = md\<lparr>md_buffer := md_buffer md @ data\<rparr>"

definition filter_duplicate_messages :: "(bytes \<Rightarrow> u128) \<Rightarrow> message_type \<Rightarrow> bytes \<Rightarrow> network_filter option \<Rightarrow>
    ((parse_message_error + u128) \<times> network_filter option) option" where
  "filter_duplicate_messages hasher t payload flt =
     (if t = TypePublish \<or> t = TypeConfirmAck then
        (case flt of
           Some f \<Rightarrow> do {
             ((digest, existed), f) \<leftarrow> nf_apply hasher payload f;
             Some (if existed
               then Inl (if t = TypeConfirmAck then DuplicateConfirmAckMessage else DuplicatePublishMessage)
               else Inr digest, Some f)
           }
         | None \<Rightarrow> Some (Inr 0, None))
      else Some (Inr 0, flt))"

type_synonym deserialized = "parse_message_error + message \<times> protocol_info"

definition deserialize_payload_for :: "(bytes \<Rightarrow> u128) \<Rightarrow> (bytes \<Rightarrow> block_hash) \<Rightarrow> message_header \<Rightarrow>
    message_deserializer \<Rightarrow> (deserialized \<times> message_deserializer) option" where
  "deserialize_payload_for hasher blake h md =
     (if length (md_buffer md) < payload_length h then None
      else do {
        let payload = take (payload_length h) (md_buffer md);
        let md = md\<lparr>md_buffer := drop (payload_length h) (md_buffer md)\<rparr>;
        (digest, flt) \<leftarrow> filter_duplicate_messages hasher (mh_message_type h) payload (md_network_filter md);
        let md = md\<lparr>md_network_filter := flt\<rparr>;
        case digest of
          Inl e \<Rightarrow> Some (Inl e, md)
        | Inr digest \<Rightarrow> do {
            message \<leftarrow> message_deserialize blake payload h digest;
            Some (case message of
                Inl _ \<Rightarrow> Inl (InvalidMessage (mh_message_type h))
              | Inr message \<Rightarrow> Inr (message, mh_protocol h), md)
          }
      })"

definition try_deserialize_payload_for :: "(bytes \<Rightarrow> u128) \<Rightarrow> (bytes \<Rightarrow> block_hash) \<Rightarrow> message_header \<Rightarrow>
    message_deserializer \<Rightarrow> (deserialized option \<times> message_deserializer) option" where
  "try_deserialize_payload_for hasher blake h md =
     (if payload_length h > 0 \<and> length (md_buffer md) < payload_length h then Some (None, md)
      else map_option (\<lambda>(r, md). (Some r, md))
        (deserialize_payload_for hasher blake h (md\<lparr>md_current_header := None\<rparr>)))"

definition deserialize_header_and_payload :: "(bytes \<Rightarrow> u128) \<Rightarrow> (bytes \<Rightarrow> block_hash) \<Rightarrow>
    message_deserializer \<Rightarrow> (deserialized option \<times> message_deserializer) option" where
  "deserialize_header_and_payload hasher blake md =
     (if length (md_buffer md) < 8 then Some (None, md)
      else
        let header_bytes = take 8 (md_buffer md); md = md\<lparr>md_buffer := drop 8 (md_buffer md)\<rparr> in
        case header_deserialize header_bytes of
          Inl _ \<Rightarrow> Some (Some (Inl InvalidHeader), md)
        | Inr (h, _) \<Rightarrow>
            (case validate_header h (md_protocol md) of
               Inl e \<Rightarrow> Some (Some (Inl e), md)
             | Inr _ \<Rightarrow> try_deserialize_payload_for hasher blake h (md\<lparr>md_current_header := Some h\<rparr>)))"

definition try_deserialize :: "(bytes \<Rightarrow> u128) \<Rightarrow> (bytes \<Rightarrow> block_hash) \<Rightarrow>
    message_deserializer \<Rightarrow> (deserialized option \<times> message_deserializer) option" where
  "try_deserialize hasher blake md =
     (case md_current_header md of
        Some h \<Rightarrow> try_deserialize_payload_for hasher blake h md
      | None \<Rightarrow> deserialize_header_and_payload hasher blake md)"

section \<open>The filter remembers\<close>

text \<open>No epoch of an entry is in the future, and adding the age limit does not overflow.\<close>

definition filter_inv :: "network_filter \<Rightarrow> bool" where
  "filter_inv f \<longleftrightarrow> nf_items f \<noteq> [] \<and> unat (nf_current_epoch f) + unat (nf_age_cutoff f) < 2 ^ 64 \<and>
     (\<forall>e \<in> set (nf_items f). fe_epoch e \<le> nf_current_epoch f)"

lemma apply_digest_Some: "nf_items f \<noteq> [] \<Longrightarrow> \<exists>existed f'. apply_digest digest f = Some (existed, f')"
  by (simp add: apply_digest_def Let_def nf_index_def)

lemma apply_digest_items: "apply_digest digest f = Some (existed, f') \<Longrightarrow> length (nf_items f') = length (nf_items f)"
  by (auto simp: apply_digest_def Let_def split: Option.bind_splits)

lemma apply_digest_inv:
  assumes "filter_inv f" "apply_digest digest f = Some (existed, f')"
  shows "filter_inv f'"
  using assms by (auto simp: apply_digest_def Let_def filter_inv_def nf_index_def dest!: set_update_subset_insert [THEN subsetD]
      split: if_splits)

text \<open>What was applied is found, until its epoch is too old.\<close>

lemma apply_then_check:
  assumes "filter_inv f" "apply_digest digest f = Some (existed, f')"
  shows "nf_check digest f' = Some True" "nf_check digest f = Some existed"
proof -
  obtain i where i: "nf_index digest f = Some i" "i < length (nf_items f)"
    using assms(1) by (auto simp: filter_inv_def nf_index_def)
  have ok: "nf_current_epoch f \<le> nf_current_epoch f + nf_age_cutoff f"
    using assms(1) by (simp add: filter_inv_def word_le_nat_alt unat_add_no_overflow)
  show "nf_check digest f = Some existed" using assms(2) i by (auto simp: apply_digest_def Let_def nf_check_def)
  have "nf_index digest f' = Some i" using i assms(2) by (auto simp: apply_digest_def Let_def nf_index_def)
  then show "nf_check digest f' = Some True"
    using assms(2) i ok by (auto simp: apply_digest_def Let_def nf_check_def nf_compare_def split: if_splits)
qed

lemma nf_clear_Some: "nf_items f \<noteq> [] \<Longrightarrow> \<exists>f'. nf_clear digest f = Some f' \<and> nf_items f' \<noteq> []"
  by (simp add: nf_clear_def nf_index_def)

text \<open>A cleared digest is forgotten, unless it is the digest zero of an empty slot.\<close>

lemma clear_then_check:
  assumes "nf_clear digest f = Some f'" "digest \<noteq> 0"
  shows "nf_check digest f' = Some False"
  using assms by (auto simp: nf_clear_def nf_check_def nf_compare_def nf_index_def split: if_splits)

end
