(* ===== verification/Reassembly.thy ===== *)
theory Reassembly
  imports Message_Stream "HOL-Library.Sublist"
begin

text \<open>
  The receive loop of a connection (\<^verbatim>\<open>network_protocol/src/nano_data_receiver.rs\<close>,
  \<^verbatim>\<open>network/src/tcp_network_adapter.rs\<close>) over the deserializer. What is done with a
  deserialized message is the argument \<open>handle\<close>. The loop terminates, and what it does depends
  only on the bytes of the stream, not on the pieces in which they arrive: it handles the frames
  of the stream one after the other.
\<close>

datatype receive_result = Continue | Abort | Pause

section \<open>The receive loop\<close>

abbreviation md_work :: "message_deserializer \<Rightarrow> nat" where
  "md_work md \<equiv> 2 * length (md_buffer md) + (if md_current_header md = None then 0 else 1)"

lemma deserialize_payload_for_shape:
  "deserialize_payload_for hasher blake h md = Some (r, md') \<Longrightarrow>
     md_buffer md' = drop (payload_length h) (md_buffer md) \<and> md_current_header md' = md_current_header md \<and>
     md_protocol md' = md_protocol md"
  by (auto simp: deserialize_payload_for_def Let_def split: if_splits Option.bind_splits sum.splits)

lemma try_deserialize_work:
  assumes "try_deserialize hasher blake md = Some (Some r, md')"
  shows "md_work md' < md_work md"
proof (cases "md_current_header md")
  case None
  then show ?thesis
    using assms by (auto simp: try_deserialize_def deserialize_header_and_payload_def try_deserialize_payload_for_def
        Let_def dest!: deserialize_payload_for_shape split: if_splits sum.splits)
next
  case (Some h)
  then show ?thesis
    using assms by (auto simp: try_deserialize_def try_deserialize_payload_for_def
        dest!: deserialize_payload_for_shape split: if_splits)
qed

function receive_loop :: "(bytes \<Rightarrow> u128) \<Rightarrow> (bytes \<Rightarrow> block_hash) \<Rightarrow> (deserialized \<Rightarrow> 's \<Rightarrow> (receive_result \<times> 's) option) \<Rightarrow>
    message_deserializer \<Rightarrow> 's \<Rightarrow> (receive_result \<times> message_deserializer \<times> 's) option" where
  "receive_loop hasher blake handle md s =
     (case try_deserialize hasher blake md of
        None \<Rightarrow> None
      | Some (None, md) \<Rightarrow> Some (Continue, md, s)
      | Some (Some r, md) \<Rightarrow>
          (case handle r s of
             None \<Rightarrow> None
           | Some (result, s) \<Rightarrow>
               if result \<noteq> Continue then Some (result, md, s) else receive_loop hasher blake handle md s))"
  by pat_completeness auto

termination
  by (relation "measure (\<lambda>(hasher, blake, handle, md, s). md_work md)") (auto dest!: try_deserialize_work)

declare receive_loop.simps [simp del]

definition receive :: "(bytes \<Rightarrow> u128) \<Rightarrow> (bytes \<Rightarrow> block_hash) \<Rightarrow> (deserialized \<Rightarrow> 's \<Rightarrow> (receive_result \<times> 's) option) \<Rightarrow>
    bytes \<Rightarrow> message_deserializer \<Rightarrow> 's \<Rightarrow> (receive_result \<times> message_deserializer \<times> 's) option" where
  "receive hasher blake handle data md s = receive_loop hasher blake handle (md_push data md) s"

text \<open>Reading from the socket, as long as the receiver continues.\<close>

fun receive_chunks :: "(bytes \<Rightarrow> u128) \<Rightarrow> (bytes \<Rightarrow> block_hash) \<Rightarrow> (deserialized \<Rightarrow> 's \<Rightarrow> (receive_result \<times> 's) option) \<Rightarrow>
    bytes list \<Rightarrow> message_deserializer \<Rightarrow> 's \<Rightarrow> (receive_result \<times> message_deserializer \<times> 's) option" where
  "receive_chunks hasher blake handle [] md s = Some (Continue, md, s)"
| "receive_chunks hasher blake handle (data # rest) md s = do {
     (result, md, s) \<leftarrow> receive hasher blake handle data md s;
     if result \<noteq> Continue then Some (result, md, s) else receive_chunks hasher blake handle rest md s
   }"

section \<open>No panics\<close>

abbreviation filter_ok :: "network_filter option \<Rightarrow> bool" where
  "filter_ok flt \<equiv> \<forall>f. flt = Some f \<longrightarrow> nf_items f \<noteq> []"

text \<open>A call returns and keeps the filter usable.\<close>

definition returns :: "('a \<times> message_deserializer) option \<Rightarrow> bool" where
  "returns x \<longleftrightarrow> (\<exists>r md. x = Some (r, md) \<and> filter_ok (md_network_filter md))"

lemma filter_duplicate_messages_total:
  assumes "filter_ok flt"
  shows "\<exists>r flt'. filter_duplicate_messages hasher t payload flt = Some (r, flt') \<and> filter_ok flt'"
proof (cases flt)
  case (Some f)
  then obtain existed f' where f': "apply_digest (hasher payload) f = Some (existed, f')"
    using assms apply_digest_Some [of f "hasher payload"] by auto
  then have "nf_items f' \<noteq> []" using apply_digest_items [OF f'] assms Some by auto
  then show ?thesis
    using Some f' assms by (cases "t = TypePublish \<or> t = TypeConfirmAck")
      (auto simp: filter_duplicate_messages_def nf_apply_def Let_def)
qed (simp add: filter_duplicate_messages_def)

lemma deserialize_payload_for_total:
  assumes "filter_ok (md_network_filter md)" "payload_length h \<le> length (md_buffer md)"
  shows "returns (deserialize_payload_for hasher blake h md)"
proof -
  let ?p = "take (payload_length h) (md_buffer md)"
  obtain d flt where d: "filter_duplicate_messages hasher (mh_message_type h) ?p (md_network_filter md) = Some (d, flt)"
    "filter_ok flt" using filter_duplicate_messages_total [OF assms(1)] by blast
  show ?thesis
  proof (cases d)
    case (Inl e)
    then show ?thesis using d assms(2) by (simp add: deserialize_payload_for_def Let_def returns_def)
  next
    case (Inr digest)
    obtain m where "message_deserialize blake ?p h digest = Some m" using message_deserialize_total by blast
    then show ?thesis using d assms(2) Inr by (simp add: deserialize_payload_for_def Let_def returns_def)
  qed
qed

lemma try_deserialize_payload_for_total:
  assumes "filter_ok (md_network_filter md)"
  shows "returns (try_deserialize_payload_for hasher blake h md)"
proof (cases "payload_length h > 0 \<and> length (md_buffer md) < payload_length h")
  case True
  then show ?thesis using assms by (simp add: try_deserialize_payload_for_def returns_def)
next
  case False
  then show ?thesis
    using deserialize_payload_for_total [of "md\<lparr>md_current_header := None\<rparr>" h hasher blake] assms
    by (auto simp: try_deserialize_payload_for_def returns_def)
qed

lemma try_deserialize_total:
  assumes "filter_ok (md_network_filter md)"
  shows "returns (try_deserialize hasher blake md)"
proof (cases "md_current_header md")
  case (Some h)
  then show ?thesis using try_deserialize_payload_for_total [OF assms] by (simp add: try_deserialize_def)
next
  case None
  let ?md = "md\<lparr>md_buffer := drop 8 (md_buffer md)\<rparr>"
  have "returns (try_deserialize_payload_for hasher blake h (?md\<lparr>md_current_header := Some h\<rparr>))" for h
    by (rule try_deserialize_payload_for_total) (use assms in simp)
  then show ?thesis
    using None assms by (auto simp: try_deserialize_def deserialize_header_and_payload_def Let_def returns_def
        split: sum.splits)
qed

section \<open>The frames of a stream\<close>

type_synonym frame = "message_header \<times> bytes"

abbreviation frame_bytes :: "frame \<Rightarrow> bytes" where
  "frame_bytes f \<equiv> header_serialize (fst f) @ snd f"

definition valid_frame :: "protocol_info \<Rightarrow> frame \<Rightarrow> bool" where
  "valid_frame protocol f \<longleftrightarrow>
     validate_header (fst f) protocol = Inr () \<and> length (snd f) = payload_length (fst f)"

text \<open>What a frame is deserialized to, and the reference for the receive loop: frame by frame.\<close>

definition frame_result :: "(bytes \<Rightarrow> u128) \<Rightarrow> (bytes \<Rightarrow> block_hash) \<Rightarrow> frame \<Rightarrow> network_filter option \<Rightarrow>
    (deserialized \<times> network_filter option) option" where
  "frame_result hasher blake f flt =
     map_option (\<lambda>(r, md). (r, md_network_filter md))
       (deserialize_payload_for hasher blake (fst f)
         \<lparr>md_buffer = snd f, md_current_header = None, md_network_filter = flt, md_protocol = mh_protocol (fst f)\<rparr>)"

fun handle_frames :: "(bytes \<Rightarrow> u128) \<Rightarrow> (bytes \<Rightarrow> block_hash) \<Rightarrow> (deserialized \<Rightarrow> 's \<Rightarrow> (receive_result \<times> 's) option) \<Rightarrow>
    frame list \<Rightarrow> network_filter option \<Rightarrow> 's \<Rightarrow> (receive_result \<times> network_filter option \<times> 's) option" where
  "handle_frames hasher blake handle [] flt s = Some (Continue, flt, s)"
| "handle_frames hasher blake handle (f # fs) flt s = do {
     (r, flt) \<leftarrow> frame_result hasher blake f flt;
     (result, s) \<leftarrow> handle r s;
     if result \<noteq> Continue then Some (result, flt, s) else handle_frames hasher blake handle fs flt s
   }"

lemma handle_frames_append:
  "handle_frames hasher blake handle (fs @ gs) flt s =
     (case handle_frames hasher blake handle fs flt s of
        Some (Continue, flt, s) \<Rightarrow> handle_frames hasher blake handle gs flt s
      | r \<Rightarrow> r)"
  by (induction fs arbitrary: flt s) (auto split: Option.bind_splits receive_result.splits option.splits)

section \<open>What the deserializer holds\<close>

text \<open>The bytes that were pushed and not yet turned into a message.\<close>

definition md_rep :: "message_deserializer \<Rightarrow> bytes \<Rightarrow> bool" where
  "md_rep md raw =
     (case md_current_header md of
        None \<Rightarrow> md_buffer md = raw
      | Some h \<Rightarrow> header_serialize h @ md_buffer md = raw)"

lemma md_rep_push: "md_rep md raw \<Longrightarrow> md_rep (md_push data md) (raw @ data)"
  by (auto simp: md_rep_def md_push_def split: option.splits)

lemma md_push_filter: "md_network_filter (md_push data md) = md_network_filter md"
  by (simp add: md_push_def)

lemma deserialize_payload_for_frame:
  assumes "md_buffer md = snd f @ rest" "length (snd f) = payload_length (fst f)" "md_current_header md = None"
  shows "deserialize_payload_for hasher blake (fst f) md =
    map_option (\<lambda>(r, flt). (r, md\<lparr>md_buffer := rest, md_network_filter := flt\<rparr>))
      (frame_result hasher blake f (md_network_filter md))"
  using assms
  by (cases md) (auto simp: deserialize_payload_for_def frame_result_def Let_def
      split: Option.bind_splits sum.splits option.splits)

text \<open>A complete frame is deserialized.\<close>

lemma try_deserialize_complete:
  assumes "md_rep md (frame_bytes f @ rest)" "valid_frame (md_protocol md) f"
  shows "try_deserialize hasher blake md =
    map_option (\<lambda>(r, flt). (Some r, md\<lparr>md_buffer := rest, md_current_header := None, md_network_filter := flt\<rparr>))
      (frame_result hasher blake f (md_network_filter md))"
proof -
  have len: "length (snd f) = payload_length (fst f)" and ok: "validate_header (fst f) (md_protocol md) = Inr ()"
    using assms(2) by (simp_all add: valid_frame_def)
  show ?thesis
  proof (cases "md_current_header md")
    case None
    then have "take 8 (md_buffer md) = header_serialize (fst f)" "drop 8 (md_buffer md) = snd f @ rest"
      "\<not> length (md_buffer md) < 8"
      using assms(1) header.enc_length [of "fst f"] by (auto simp: md_rep_def)
    then show ?thesis
      using None len ok deserialize_payload_for_frame [of "md\<lparr>md_buffer := snd f @ rest, md_current_header := None\<rparr>"
          f rest hasher blake]
      by (cases md) (simp add: try_deserialize_def deserialize_header_and_payload_def try_deserialize_payload_for_def
          Let_def header.dec_enc_self option.map_comp comp_def case_prod_unfold)
  next
    case (Some h)
    then have "header_serialize h @ md_buffer md = header_serialize (fst f) @ snd f @ rest"
      using assms(1) by (simp add: md_rep_def)
    from header.enc_prefix_free [OF TrueI TrueI this] have "h = fst f" "md_buffer md = snd f @ rest" by simp_all
    then show ?thesis
      using Some len deserialize_payload_for_frame [of "md\<lparr>md_current_header := None\<rparr>" f rest hasher blake]
      by (cases md) (simp add: try_deserialize_def try_deserialize_payload_for_def option.map_comp comp_def
          case_prod_unfold)
  qed
qed

text \<open>With a part of a frame the deserializer waits.\<close>

lemma try_deserialize_incomplete:
  assumes "md_rep md raw" "strict_prefix raw (frame_bytes f)" "valid_frame (md_protocol md) f"
  obtains md' where "try_deserialize hasher blake md = Some (None, md')" "md_rep md' raw"
    "md_network_filter md' = md_network_filter md" "md_protocol md' = md_protocol md"
proof -
  obtain c cs where raw: "raw @ c # cs = frame_bytes f"
    using assms(2) by (metis append_self_conv list.exhaust prefixE strict_prefix_def)
  have len: "length (snd f) = payload_length (fst f)" and ok: "validate_header (fst f) (md_protocol md) = Inr ()"
    using assms(3) by (simp_all add: valid_frame_def)
  have h8: "length (header_serialize h) = 8" for h by (rule header.enc_length) simp
  show thesis
  proof (cases "md_current_header md")
    case None
    then have b: "md_buffer md = raw" using assms(1) by (simp add: md_rep_def)
    show thesis
    proof (cases "length raw < 8")
      case True
      then show thesis
        using that [of md] None b assms(1) by (simp add: try_deserialize_def deserialize_header_and_payload_def)
    next
      case False
      then have "take 8 raw = header_serialize (fst f)"
        using arg_cong [OF raw, of "take 8"] h8 [of "fst f"] by simp
      then obtain p where p: "raw = header_serialize (fst f) @ p" by (metis append_take_drop_id)
      then have "length p < payload_length (fst f)" using arg_cong [OF raw, of length] len by simp
      then show thesis
        using that [of "md\<lparr>md_buffer := p, md_current_header := Some (fst f)\<rparr>"] None b p h8 [of "fst f"] ok
        by (simp add: try_deserialize_def deserialize_header_and_payload_def try_deserialize_payload_for_def Let_def
            header.dec_enc_self md_rep_def)
    qed
  next
    case (Some h)
    then have "header_serialize h @ md_buffer md @ c # cs = header_serialize (fst f) @ snd f"
      using assms(1) raw by (auto simp: md_rep_def)
    from header.enc_prefix_free [OF TrueI TrueI this] have e: "h = fst f" "md_buffer md @ c # cs = snd f" by simp_all
    then have "length (md_buffer md) < payload_length (fst f)" 
      unfolding len [symmetric] e(2) [symmetric] by simp
    then show thesis using that [of md] Some e assms(1) by (simp add: try_deserialize_def try_deserialize_payload_for_def)
  qed
qed

section \<open>Handling a stream\<close>

abbreviation stream :: "frame list \<Rightarrow> bytes" where
  "stream fs \<equiv> concat (map frame_bytes fs)"

text \<open>No complete frame is left in the bytes.\<close>

definition drained :: "bytes \<Rightarrow> frame list \<Rightarrow> bool" where
  "drained raw fs = (case fs of [] \<Rightarrow> raw = [] | f # _ \<Rightarrow> strict_prefix raw (frame_bytes f))"

lemma md_rep_Nil: "md_rep md [] \<Longrightarrow> try_deserialize hasher blake md = Some (None, md)"
proof (cases "md_current_header md")
  case (Some h)
  moreover have "header_serialize h \<noteq> []" by (simp add: header_serialize_def)
  ultimately show "md_rep md [] \<Longrightarrow> ?thesis" by (simp add: md_rep_def)
qed (simp add: md_rep_def try_deserialize_def deserialize_header_and_payload_def)

text \<open>
  The result of the loop agrees with the frame by frame result: the same panic, the same verdict
  and state; and if it continues, a part of the frames \<open>hs\<close> is left.
\<close>

definition agrees :: "protocol_info \<Rightarrow> bytes \<Rightarrow> frame list \<Rightarrow> (receive_result \<times> network_filter option \<times> 's) option \<Rightarrow>
    (receive_result \<times> message_deserializer \<times> 's) option \<Rightarrow> bool" where
  "agrees protocol rest hs spec impl =
     (case spec of
        None \<Rightarrow> impl = None
      | Some (result, flt, s) \<Rightarrow> \<exists>md raw. impl = Some (result, md, s) \<and>
          (result = Continue \<longrightarrow> md_rep md raw \<and> drained raw hs \<and> raw @ rest = stream hs \<and>
             md_network_filter md = flt \<and> md_protocol md = protocol))"

lemma receive_loop_complete:
  assumes "md_rep md (frame_bytes f @ c)" "valid_frame (md_protocol md) f"
    "frame_result hasher blake f (md_network_filter md) = Some (r, flt)"
  shows "receive_loop hasher blake handle md s =
    (let md = md\<lparr>md_buffer := c, md_current_header := None, md_network_filter := flt\<rparr> in
     case handle r s of None \<Rightarrow> None
     | Some (result, s) \<Rightarrow> if result \<noteq> Continue then Some (result, md, s) else receive_loop hasher blake handle md s)"
  using try_deserialize_complete [OF assms(1,2), of hasher blake] assms(3)
  by (simp add: receive_loop.simps [of hasher blake handle md] Let_def)

lemma next_frame:
  assumes "raw @ rest = stream (f # fs)"
  obtains c where "raw = frame_bytes f @ c" "c @ rest = stream fs" | "strict_prefix raw (frame_bytes f)"
proof -
  have "prefix raw (stream (f # fs))" unfolding assms [symmetric] by simp
  moreover have "prefix (frame_bytes f) (stream (f # fs))" by (rule prefixI [of _ _ "stream fs"]) simp
  ultimately have "prefix raw (frame_bytes f) \<or> prefix (frame_bytes f) raw" by (meson prefix_same_cases)
  then have "strict_prefix raw (frame_bytes f) \<or> prefix (frame_bytes f) raw"
    by (cases "raw = frame_bytes f") (auto simp: strict_prefix_def)
  then show thesis using that assms unfolding prefix_def [of "frame_bytes f"] by auto
qed

text \<open>The loop handles the complete frames at the front of the stream.\<close>

lemma receive_loop_frames:
  assumes "md_rep md raw" "raw @ rest = stream fs" "\<forall>f \<in> set fs. valid_frame protocol f" "md_protocol md = protocol"
  shows "\<exists>gs hs. fs = gs @ hs \<and> agrees protocol rest hs
    (handle_frames hasher blake handle gs (md_network_filter md) s) (receive_loop hasher blake handle md s)"
  using assms
proof (induction fs arbitrary: md raw s)
  case Nil
  then have "md_rep md []" by simp
  from md_rep_Nil [OF this] this show ?case
    using Nil by (auto simp: receive_loop.simps drained_def agrees_def)
next
  case (Cons f fs)
  have f: "valid_frame (md_protocol md) f" using Cons.prems by simp
  from Cons.prems(2) show ?case
  proof (cases rule: next_frame)
    case (1 c)
    show ?thesis
    proof (cases "frame_result hasher blake f (md_network_filter md)")
      case None
      then show ?thesis
        using try_deserialize_complete [OF Cons.prems(1) [unfolded 1(1)] f, of hasher blake]
        by - (rule exI [where x = "[f]"], rule exI [where x = fs], simp add: receive_loop.simps agrees_def)
    next
      case (Some p)
      obtain r flt where p: "p = (r, flt)" by (cases p)
      let ?md = "md\<lparr>md_buffer := c, md_current_header := None, md_network_filter := flt\<rparr>"
      note loop = receive_loop_complete [OF Cons.prems(1) [unfolded 1(1)] f Some [unfolded p], of handle s]
      show ?thesis
      proof (cases "\<exists>s'. handle r s = Some (Continue, s')")
        case True
        then obtain s' where h: "handle r s = Some (Continue, s')" by blast
        have "md_rep ?md c" "\<forall>f \<in> set fs. valid_frame protocol f" "md_protocol ?md = protocol"
          using Cons.prems by (simp_all add: md_rep_def)
        from Cons.IH [OF this(1) 1(2) this(2,3), of s']
        obtain gs hs where "fs = gs @ hs" "agrees protocol rest hs (handle_frames hasher blake handle gs flt s')
            (receive_loop hasher blake handle ?md s')" by auto
        then show ?thesis
          using loop h Some p unfolding Let_def by - (rule exI [where x = "f # gs"], rule exI [where x = hs], simp)
      next
        case False
        then show ?thesis
          using loop Some p unfolding Let_def by - (rule exI [where x = "[f]"], rule exI [where x = fs], auto simp: agrees_def split: option.splits)
      qed
    qed
  next
    case 2
    obtain md' where "try_deserialize hasher blake md = Some (None, md')" "md_rep md' raw"
      "md_network_filter md' = md_network_filter md" "md_protocol md' = md_protocol md"
      by (rule try_deserialize_incomplete [OF Cons.prems(1) 2 f])
    then show ?thesis
      using 2 Cons.prems by - (rule exI [where x = "[]"], rule exI [where x = "f # fs"], auto simp: receive_loop.simps drained_def agrees_def)
  qed
qed

lemma receive_chunks_frames:
  assumes "md_rep md raw" "drained raw fs" "raw @ concat chunks = stream fs" "\<forall>f \<in> set fs. valid_frame protocol f"
    "md_protocol md = protocol"
  shows "agrees protocol [] [] (handle_frames hasher blake handle fs (md_network_filter md) s)
    (receive_chunks hasher blake handle chunks md s)"
  using assms
proof (induction chunks arbitrary: md raw fs s)
  case Nil
  then have "fs = []" by (cases fs) (auto simp: drained_def strict_prefix_def)
  then show ?case using Nil by (auto simp: agrees_def drained_def)
next
  case (Cons data chunks)
  have "(raw @ data) @ concat chunks = stream fs" "md_rep (md_push data md) (raw @ data)"
    "md_protocol (md_push data md) = protocol"
    using Cons.prems by (simp_all add: md_rep_push) (simp add: md_push_def)
  from receive_loop_frames [OF this(2,1) Cons.prems(4) this(3), of hasher blake handle s, folded receive_def,
      unfolded md_push_filter]
  obtain gs hs where g: "fs = gs @ hs" "agrees protocol (concat chunks) hs
      (handle_frames hasher blake handle gs (md_network_filter md) s) (receive hasher blake handle data md s)" by blast
  have valid: "\<forall>f \<in> set hs. valid_frame protocol f" using Cons.prems(4) g(1) by simp
  show ?case
  proof (cases "handle_frames hasher blake handle gs (md_network_filter md) s")
    case None
    then show ?thesis using g by (simp add: handle_frames_append agrees_def)
  next
    case (Some q)
    obtain result flt s' where q: "q = (result, flt, s')" by (cases q)
    then obtain md' raw' where r: "receive hasher blake handle data md s = Some (result, md', s')"
      "result = Continue \<longrightarrow> md_rep md' raw' \<and> drained raw' hs \<and> raw' @ concat chunks = stream hs \<and>
         md_network_filter md' = flt \<and> md_protocol md' = protocol"
      using g(2) Some by (auto simp: agrees_def)
    show ?thesis
    proof (cases "result = Continue")
      case True
      then show ?thesis
        using Some q r g(1) Cons.IH [of md' raw' hs s'] valid by (simp add: handle_frames_append)
    next
      case False
      then show ?thesis using Some q r g(1) by (cases result) (simp_all add: handle_frames_append agrees_def)
    qed
  qed
qed

end
