(* ===== verification/Delivery.thy ===== *)
theory Delivery
  imports Reassembly
begin

text \<open>
  What the receive loop makes of a stream of bytes, however it is cut: the pieces in which the
  bytes of any stream arrive do not matter, and a stream of serialized messages is delivered to
  the handler message by message.
\<close>

section \<open>Pieces\<close>

lemma md_push_fields [simp]:
  "md_buffer (md_push d md) = md_buffer md @ d" "md_current_header (md_push d md) = md_current_header md"
  "md_network_filter (md_push d md) = md_network_filter md" "md_protocol (md_push d md) = md_protocol md"
  by (simp_all add: md_push_def)

lemma md_push_update:
  "(md_push d md)\<lparr>md_current_header := h\<rparr> = md_push d (md\<lparr>md_current_header := h\<rparr>)"
  "(md_push d md)\<lparr>md_buffer := b @ d\<rparr> = md_push d (md\<lparr>md_buffer := b\<rparr>)"
  by (cases md; simp add: md_push_def)+

lemma md_push_push: "md_push e (md_push d md) = md_push (d @ e) md"
  by (simp add: md_push_def)

lemma md_push_Nil [simp]: "md_push [] md = md"
  by (simp add: md_push_def)

lemma deserialize_payload_for_push:
  assumes "payload_length h \<le> length (md_buffer md)"
  shows "deserialize_payload_for hasher blake h (md_push d md) =
    map_option (\<lambda>(r, md). (r, md_push d md)) (deserialize_payload_for hasher blake h md)"
  using assms by (cases md) (auto simp: deserialize_payload_for_def md_push_def Let_def
      split: Option.bind_splits sum.splits option.splits)

lemma try_deserialize_payload_for_push:
  assumes "payload_length h \<le> length (md_buffer md)"
  shows "try_deserialize_payload_for hasher blake h (md_push d md) =
    map_option (\<lambda>(r, md). (r, md_push d md)) (try_deserialize_payload_for hasher blake h md)"
  using assms deserialize_payload_for_push [of h "md\<lparr>md_current_header := None\<rparr>" hasher blake d]
  by (simp add: try_deserialize_payload_for_def md_push_update option.map_comp comp_def case_prod_unfold)

lemma try_deserialize_payload_for_wait:
  "try_deserialize_payload_for hasher blake h md = Some (None, md') \<longleftrightarrow>
     length (md_buffer md) < payload_length h \<and> md' = md"
  by (auto simp: try_deserialize_payload_for_def split: if_splits)

text \<open>One more piece changes nothing but the rest, unless the deserializer waits for it.\<close>

lemma try_deserialize_push:
  "try_deserialize hasher blake (md_push d md) =
     (case try_deserialize hasher blake md of
        None \<Rightarrow> None
      | Some (Some r, md') \<Rightarrow> Some (Some r, md_push d md')
      | Some (None, md') \<Rightarrow> try_deserialize hasher blake (md_push d md'))"
proof -
  have payload: "try_deserialize_payload_for hasher blake h (md_push d m) =
     (case try_deserialize_payload_for hasher blake h m of
        None \<Rightarrow> None
      | Some (Some r, md') \<Rightarrow> Some (Some r, md_push d md')
      | Some (None, md') \<Rightarrow> try_deserialize_payload_for hasher blake h (md_push d md'))" for h m
  proof (cases "payload_length h \<le> length (md_buffer m)")
    case True
    then show ?thesis
      using try_deserialize_payload_for_push [OF True, of hasher blake d]
        try_deserialize_payload_for_wait [of hasher blake h m] by (auto split: option.splits)
  qed (simp add: try_deserialize_payload_for_def)
  show ?thesis
  proof (cases "md_current_header md")
    case (Some h)
    then show ?thesis
      using payload [of h md] try_deserialize_payload_for_wait [of hasher blake h md]
      by (auto simp: try_deserialize_def split: option.splits)
  next
    case None
    show ?thesis
    proof (cases "length (md_buffer md) < 8")
      case False
      then show ?thesis
        using None False payload try_deserialize_payload_for_wait [of hasher blake]
        by (auto simp: try_deserialize_def deserialize_header_and_payload_def Let_def md_push_update
            split: sum.splits option.splits prod.splits)
    qed (use None in \<open>simp add: try_deserialize_def deserialize_header_and_payload_def\<close>)
  qed
qed

lemma try_deserialize_waits:
  "try_deserialize hasher blake md = Some (None, md') \<Longrightarrow> try_deserialize hasher blake md' = Some (None, md')"
  using try_deserialize_push [of hasher blake "[]" md] by simp

lemma receive_loop_push:
  "receive_loop hasher blake handle (md_push d md) s =
     (case receive_loop hasher blake handle md s of
        None \<Rightarrow> None
      | Some (result, md', s') \<Rightarrow>
          if result \<noteq> Continue then Some (result, md_push d md', s')
          else receive_loop hasher blake handle (md_push d md') s')"
proof (induction hasher blake handle md s rule: receive_loop.induct)
  case (1 hasher blake handle md s)
  show ?case
  proof (cases "try_deserialize hasher blake md")
    case None
    then show ?thesis
      using try_deserialize_push [of hasher blake d md]
      by (simp add: receive_loop.simps [of hasher blake handle md] receive_loop.simps [of hasher blake handle "md_push d md"])
  next
    case (Some p)
    obtain r md' where p: "p = (r, md')" by (cases p)
    show ?thesis
    proof (cases r)
      case None
      then have "try_deserialize hasher blake (md_push d md) = try_deserialize hasher blake (md_push d md')"
        using try_deserialize_push [of hasher blake d md] Some p by simp
      then show ?thesis
        using Some p None by (simp add: receive_loop.simps [of hasher blake handle md]
            receive_loop.simps [of hasher blake handle "md_push d md"] receive_loop.simps [of hasher blake handle "md_push d md'"])
    next
      case r: (Some x)
      then have t: "try_deserialize hasher blake (md_push d md) = Some (Some x, md_push d md')"
        using try_deserialize_push [of hasher blake d md] Some p by simp
      show ?thesis
        using Some p r t 1 [OF Some p [symmetric] r]
        by (auto simp: receive_loop.simps [of hasher blake handle md] receive_loop.simps [of hasher blake handle "md_push d md"]
            split: option.splits prod.splits)
    qed
  qed
qed

lemma receive_loop_waits:
  "receive_loop hasher blake handle md s = Some (Continue, md', s') \<Longrightarrow> try_deserialize hasher blake md' = Some (None, md')"
proof (induction hasher blake handle md s rule: receive_loop.induct)
  case (1 hasher blake handle md s)
  then show ?case
    by (subst (asm) (2) receive_loop.simps) (auto split: option.splits prod.splits if_splits dest: try_deserialize_waits)
qed

text \<open>The verdict and the state of the handler.\<close>

definition verdict :: "(receive_result \<times> message_deserializer \<times> 's) option \<Rightarrow> (receive_result \<times> 's) option" where
  "verdict = map_option (\<lambda>(result, md, s). (result, s))"

lemma receive_chunks_concat:
  assumes "try_deserialize hasher blake md = Some (None, md)"
  shows "verdict (receive_chunks hasher blake handle chunks md s) = verdict (receive hasher blake handle (concat chunks) md s)"
  using assms
proof (induction chunks arbitrary: md s)
  case Nil
  then show ?case by (simp add: receive_def receive_loop.simps)
next
  case (Cons d chunks)
  have split: "receive hasher blake handle (concat (d # chunks)) md s =
     (case receive hasher blake handle d md s of
        None \<Rightarrow> None
      | Some (result, md', s') \<Rightarrow>
          if result \<noteq> Continue then Some (result, md_push (concat chunks) md', s')
          else receive hasher blake handle (concat chunks) md' s')"
    using receive_loop_push [of hasher blake handle "concat chunks" "md_push d md" s]
    unfolding receive_def md_push_push concat.simps .
  show ?case
  proof (cases "receive hasher blake handle d md s")
    case None
    then show ?thesis unfolding split by (simp add: verdict_def)
  next
    case (Some p)
    obtain result md' s' where p: "p = (result, md', s')" by (cases p)
    show ?thesis
    proof (cases "result = Continue")
      case True
      then have "try_deserialize hasher blake md' = Some (None, md')"
        using Some p receive_loop_waits by (fastforce simp: receive_def)
      from Cons.IH [OF this, of s'] show ?thesis
        using Some p True unfolding split by simp
    next
      case False
      then show ?thesis using Some p unfolding split by (simp add: verdict_def)
    qed
  qed
qed

section \<open>What the handler sees\<close>

text \<open>Errors, and messages that could have been sent.\<close>

definition well_typed :: "(bytes \<Rightarrow> block_hash) \<Rightarrow> deserialized \<Rightarrow> bool" where
  "well_typed blake r \<longleftrightarrow> (\<forall>m protocol. r = Inr (m, protocol) \<longrightarrow> (\<exists>digest. message_wf blake digest m))"

lemma deserialize_payload_for_typed:
  "deserialize_payload_for hasher blake h md = Some (r, md') \<Longrightarrow> well_typed blake r"
  by (auto simp: deserialize_payload_for_def well_typed_def Let_def split: if_splits Option.bind_splits sum.splits)
    (drule message_deserialize_wf, blast)

lemma try_deserialize_typed: "try_deserialize hasher blake md = Some (Some r, md') \<Longrightarrow> well_typed blake r"
  by (auto simp: try_deserialize_def deserialize_header_and_payload_def try_deserialize_payload_for_def Let_def
      split: option.splits if_splits sum.splits prod.splits dest: deserialize_payload_for_typed)
    (simp_all add: well_typed_def)

lemma receive_loop_total:
  "filter_ok (md_network_filter md) \<Longrightarrow> (\<And>r s. well_typed blake r \<Longrightarrow> handle r s \<noteq> None) \<Longrightarrow>
     \<exists>result md' s'. receive_loop hasher blake handle md s = Some (result, md', s') \<and> filter_ok (md_network_filter md')"
proof (induction hasher blake handle md s rule: receive_loop.induct)
  case (1 hasher blake handle md s)
  obtain r md' where t: "try_deserialize hasher blake md = Some (r, md')" "filter_ok (md_network_filter md')"
    using try_deserialize_total [OF 1(2), of hasher blake] by (auto simp: returns_def)
  show ?case
  proof (cases r)
    case None
    then show ?thesis using t by (simp add: receive_loop.simps [of hasher blake handle md])
  next
    case (Some x)
    then obtain result s' where h: "handle x s = Some (result, s')"
      using 1(3) [of x s] try_deserialize_typed t(1) by fastforce
    show ?thesis
    proof (cases "result = Continue")
      case True
      then show ?thesis
        using 1(1) [OF t(1) refl Some h refl] 1(3) t Some h by (simp add: receive_loop.simps [of hasher blake handle md])
    qed (use t Some h in \<open>simp add: receive_loop.simps [of hasher blake handle md]\<close>)
  qed
qed

lemma receive_chunks_total:
  assumes "filter_ok (md_network_filter md)" "\<And>r s. well_typed blake r \<Longrightarrow> handle r s \<noteq> None"
  shows "receive_chunks hasher blake handle chunks md s \<noteq> None"
  using assms(1)
proof (induction chunks arbitrary: md s)
  case (Cons d chunks)
  have "filter_ok (md_network_filter (md_push d md))" using Cons.prems by simp
  then obtain result md' s' where "receive hasher blake handle d md s = Some (result, md', s')" "filter_ok (md_network_filter md')"
    using receive_loop_total [of "md_push d md" blake handle hasher s] assms(2) unfolding receive_def by blast
  then show ?case using Cons.IH [of md' s'] by simp
qed simp

section \<open>Delivery\<close>

text \<open>The messages are handed to the handler in their order, as long as it continues.\<close>

fun handle_messages :: "(deserialized \<Rightarrow> 's \<Rightarrow> (receive_result \<times> 's) option) \<Rightarrow> protocol_info \<Rightarrow> message list \<Rightarrow> 's \<Rightarrow>
    (receive_result \<times> 's) option" where
  "handle_messages handle protocol [] s = Some (Continue, s)"
| "handle_messages handle protocol (m # ms) s = do {
     (result, s) \<leftarrow> handle (Inr (m, protocol)) s;
     if result \<noteq> Continue then Some (result, s) else handle_messages handle protocol ms s
   }"

text \<open>The versions and networks of two nodes are compatible.\<close>

definition accepts_protocol :: "protocol_info \<Rightarrow> protocol_info \<Rightarrow> bool" where
  "accepts_protocol expected protocol \<longleftrightarrow>
     pr_network protocol = pr_network expected \<and> pr_version_min expected \<le> pr_version_using protocol"

text \<open>Messages of the two types that go through the duplicate filter are taken without one.\<close>

definition deliverable :: "(bytes \<Rightarrow> block_hash) \<Rightarrow> network_filter option \<Rightarrow> message \<Rightarrow> bool" where
  "deliverable blake flt m \<longleftrightarrow> message_wf blake 0 m \<and> (flt = None \<or> message_type_of m \<notin> {TypePublish, TypeConfirmAck})"

lemma message_frame:
  assumes "deliverable blake flt m" "accepts_protocol expected protocol" "serializer_serialize protocol m = Some bs"
  obtains f where "bs = frame_bytes f" "valid_frame expected f"
    "frame_result hasher blake f flt = Some (Inr (m, protocol), flt)"
proof -
  obtain p where p: "message_serialize m = Some p" "payload_length (header_of protocol m p) = length p"
    "message_deserialize blake p (header_of protocol m p) 0 = Some (Inr m)"
    by (rule message_payload [of blake 0 m protocol]) (use assms(1) in \<open>simp_all add: deliverable_def\<close>)
  let ?f = "(header_of protocol m p, p)"
  have "is_valid_message_type (fst ?f)" by (cases m) (simp_all add: is_valid_message_type_def)
  then have "valid_frame expected ?f"
    using p(2) assms(2) payload_length_le [of "fst ?f"]
    by (simp add: valid_frame_def validate_header_def accepts_protocol_def not_less)
  moreover have "filter_duplicate_messages hasher (message_type_of m) p flt = Some (Inr 0, flt)"
    using assms(1) by (auto simp: filter_duplicate_messages_def deliverable_def)
  then have "frame_result hasher blake ?f flt = Some (Inr (m, protocol), flt)"
    using p(2,3) by (simp add: frame_result_def deserialize_payload_for_def Let_def)
  moreover have "bs = frame_bytes ?f" using assms(3) p(1) by (simp add: serializer_serialize_def Let_def)
  ultimately show thesis using that by blast
qed

lemma message_frames:
  assumes "\<forall>m \<in> set ms. deliverable blake flt m" "accepts_protocol expected protocol"
    "those (map (serializer_serialize protocol) ms) = Some bss"
  shows "\<exists>fs. concat bss = stream fs \<and> (\<forall>f \<in> set fs. valid_frame expected f) \<and>
    (\<forall>s. handle_frames hasher blake handle fs flt s =
      map_option (\<lambda>(result, s). (result, flt, s)) (handle_messages handle protocol ms s))"
  using assms
proof (induction ms arbitrary: bss)
  case Nil
  then show ?case by (intro exI [of _ "[]"]) simp
next
  case (Cons m ms)
  obtain b bs where b: "serializer_serialize protocol m = Some b" "those (map (serializer_serialize protocol) ms) = Some bs"
    "bss = b # bs" using Cons.prems(3) by (auto split: option.splits)
  obtain f where f: "b = frame_bytes f" "valid_frame expected f" "frame_result hasher blake f flt = Some (Inr (m, protocol), flt)"
    by (rule message_frame [OF _ Cons.prems(2) b(1)]) (use Cons.prems(1) in auto)
  obtain fs where fs: "concat bs = stream fs" "\<forall>f \<in> set fs. valid_frame expected f"
    "\<forall>s. handle_frames hasher blake handle fs flt s =
      map_option (\<lambda>(result, s). (result, flt, s)) (handle_messages handle protocol ms s)"
    using Cons.IH [OF _ Cons.prems(2) b(2)] Cons.prems(1) by auto
  show ?case using b f fs by (intro exI [of _ "f # fs"]) (auto split: Option.bind_splits)
qed

lemma messages_delivered:
  assumes "\<forall>m \<in> set ms. deliverable blake flt m" "accepts_protocol expected protocol"
    "those (map (serializer_serialize protocol) ms) = Some bss" "concat chunks = concat bss"
  shows "verdict (receive_chunks hasher blake handle chunks (md_with_filter expected flt) s) =
    handle_messages handle protocol ms s"
proof -
  obtain fs where fs: "concat bss = stream fs" "\<forall>f \<in> set fs. valid_frame expected f"
    "\<forall>s. handle_frames hasher blake handle fs flt s =
      map_option (\<lambda>(result, s). (result, flt, s)) (handle_messages handle protocol ms s)"
    using message_frames [OF assms(1-3)] by blast
  have "drained [] fs" by (auto simp: drained_def header_serialize_def strict_prefix_def split: list.splits)
  then have "agrees expected [] [] (handle_frames hasher blake handle fs flt s)
      (receive_chunks hasher blake handle chunks (md_with_filter expected flt) s)"
    using receive_chunks_frames [of "md_with_filter expected flt" "[]" fs chunks expected hasher blake handle s] fs assms(4)
    by (simp add: md_with_filter_def md_rep_def)
  then show ?thesis using fs(3) by (auto simp: agrees_def verdict_def split: option.splits)
qed

end
