(* ===== verification/Handshake.thy ===== *)
theory Handshake
  imports Reassembly Hash_Maps
begin

text \<open>
  The node id handshake: the cookies that are sent to peers
  (\<^verbatim>\<open>network_protocol/src/syn_cookies.rs\<close>) and the exchange of queries and signed
  responses (\<^verbatim>\<open>network_protocol/src/handshake_process.rs\<close>, and the responses of
  \<^verbatim>\<open>messages/src/node_id_handshake.rs\<close>). Random cookies and salts are arguments,
  as are the signature scheme and the clock. A panic is \<open>None\<close>.
\<close>

section \<open>Cookies\<close>

type_synonym cookie = bytes
type_synonym instant = int

record syn_cookies =
  sc_cookies :: "(socket_addr, cookie \<times> instant) table"
  sc_cookies_per_ip :: "(u128, nat) table"
  sc_max_cookies_per_ip :: nat

definition syn_cookies_new :: "nat \<Rightarrow> syn_cookies" where
  "syn_cookies_new max_per_ip =
     \<lparr>sc_cookies = fmempty, sc_cookies_per_ip = fmempty, sc_max_cookies_per_ip = max_per_ip\<rparr>"

abbreviation ip_count :: "u128 \<Rightarrow> syn_cookies \<Rightarrow> nat" where
  "ip_count ip sc \<equiv> (case tbl_get (sc_cookies_per_ip sc) ip of Some n \<Rightarrow> n | None \<Rightarrow> 0)"

definition sc_assign :: "cookie \<Rightarrow> instant \<Rightarrow> socket_addr \<Rightarrow> syn_cookies \<Rightarrow> cookie option \<times> syn_cookies" where
  "sc_assign random now endpoint sc =
     (if tbl_get (sc_cookies sc) endpoint \<noteq> None then (None, sc)
      else
        let ip = sa_ip endpoint; ip_cookies = ip_count ip sc in
        if ip_cookies < sc_max_cookies_per_ip sc
        then (Some random, sc\<lparr>sc_cookies_per_ip := tbl_put ip (ip_cookies + 1) (sc_cookies_per_ip sc),
          sc_cookies := tbl_put endpoint (random, now) (sc_cookies sc)\<rparr>)
        else (None, sc\<lparr>sc_cookies_per_ip := tbl_put ip ip_cookies (sc_cookies_per_ip sc)\<rparr>))"

definition dec_cookie_count :: "u128 \<Rightarrow> syn_cookies \<Rightarrow> syn_cookies option" where
  "dec_cookie_count ip sc =
     (if ip_count ip sc > 0
      then Some (sc\<lparr>sc_cookies_per_ip := tbl_put ip (ip_count ip sc - 1) (sc_cookies_per_ip sc)\<rparr>) else None)"

definition sc_validate :: "(public_key \<Rightarrow> bytes \<Rightarrow> signature \<Rightarrow> bool) \<Rightarrow> socket_addr \<Rightarrow> public_key \<Rightarrow> signature \<Rightarrow>
    syn_cookies \<Rightarrow> (bool \<times> syn_cookies) option" where
  "sc_validate verify endpoint node_id signature sc =
     (case tbl_get (sc_cookies sc) endpoint of
        None \<Rightarrow> Some (True, sc)
      | Some (cookie, _) \<Rightarrow>
          if \<not> verify node_id cookie signature then Some (False, sc)
          else map_option (Pair True)
            (dec_cookie_count (sa_ip endpoint) (sc\<lparr>sc_cookies := fmdrop endpoint (sc_cookies sc)\<rparr>)))"

fun sc_remove_all :: "socket_addr list \<Rightarrow> syn_cookies \<Rightarrow> syn_cookies option" where
  "sc_remove_all [] sc = Some sc"
| "sc_remove_all (endpoint # rest) sc =
     Option.bind (dec_cookie_count (sa_ip endpoint) (sc\<lparr>sc_cookies := fmdrop endpoint (sc_cookies sc)\<rparr>))
       (sc_remove_all rest)"

definition sc_purge :: "socket_addr hash_order \<Rightarrow> nat \<Rightarrow> instant \<Rightarrow> syn_cookies \<Rightarrow> syn_cookies option" where
  "sc_purge ord cutoff now sc =
     (let removed_endpoints = map fst (filter (\<lambda>(_, _, created_at). nat (now - created_at) > cutoff)
        (hash_iter ord (sc_cookies sc)))
      in sc_remove_all removed_endpoints sc)"

definition sc_cookie :: "socket_addr \<Rightarrow> syn_cookies \<Rightarrow> (cookie option \<times> syn_cookies) option" where
  "sc_cookie endpoint sc =
     (case tbl_get (sc_cookies sc) endpoint of
        None \<Rightarrow> Some (None, sc)
      | Some (cookie, _) \<Rightarrow>
          map_option (Pair (Some cookie))
            (dec_cookie_count (sa_ip endpoint) (sc\<lparr>sc_cookies := fmdrop endpoint (sc_cookies sc)\<rparr>)))"

section \<open>The handshake\<close>

datatype handshake_response_error =
    OwnNodeId | InvalidGenesis | MissingCookie | InvalidSignature | EmptyResponse | MultipleQueries

text \<open>The private key is its public key and its signing function.\<close>

record handshake_process =
  hp_genesis_hash :: block_hash
  hp_node_id :: public_key
  hp_sign :: "bytes \<Rightarrow> signature"
  hp_handshake_received :: bool

text \<open>The random numbers and the time of a call.\<close>

record randomness =
  rnd_cookie :: cookie
  rnd_salt :: bytes
  rnd_now :: instant

definition response_sign :: "cookie \<Rightarrow> (bytes \<Rightarrow> signature) \<Rightarrow> node_id_handshake_response \<Rightarrow> node_id_handshake_response" where
  "response_sign cookie sign r = r\<lparr>hr_signature := sign (data_to_sign cookie r)\<rparr>"

definition response_new_v1 :: "cookie \<Rightarrow> handshake_process \<Rightarrow> node_id_handshake_response" where
  "response_new_v1 cookie hp =
     response_sign cookie (hp_sign hp) \<lparr>hr_node_id = hp_node_id hp, hr_signature = 0, hr_v2 = None\<rparr>"

definition response_new_v2 :: "cookie \<Rightarrow> bytes \<Rightarrow> handshake_process \<Rightarrow> node_id_handshake_response" where
  "response_new_v2 cookie salt hp =
     response_sign cookie (hp_sign hp) \<lparr>hr_node_id = hp_node_id hp, hr_signature = 0,
       hr_v2 = Some \<lparr>v2_salt = salt, v2_genesis = hp_genesis_hash hp\<rparr>\<rparr>"

definition response_validate :: "(public_key \<Rightarrow> bytes \<Rightarrow> signature \<Rightarrow> bool) \<Rightarrow> cookie \<Rightarrow> node_id_handshake_response \<Rightarrow> bool" where
  "response_validate verify cookie r = verify (hr_node_id r) (data_to_sign cookie r) (hr_signature r)"

definition prepare_query :: "randomness \<Rightarrow> socket_addr \<Rightarrow> syn_cookies \<Rightarrow> node_id_handshake_query option \<times> syn_cookies" where
  "prepare_query rnd peer sc =
     (let (c, sc) = sc_assign (rnd_cookie rnd) (rnd_now rnd) peer sc
      in (map_option (\<lambda>c. \<lparr>hq_cookie = c\<rparr>) c, sc))"

definition prepare_response :: "randomness \<Rightarrow> node_id_handshake_query \<Rightarrow> bool \<Rightarrow> handshake_process \<Rightarrow> node_id_handshake_response" where
  "prepare_response rnd query v2 hp =
     (if v2 then response_new_v2 (hq_cookie query) (rnd_salt rnd) hp else response_new_v1 (hq_cookie query) hp)"

definition initiate_handshake :: "randomness \<Rightarrow> socket_addr \<Rightarrow> syn_cookies \<Rightarrow> (unit + node_id_handshake) \<times> syn_cookies" where
  "initiate_handshake rnd peer sc =
     (let (query, sc) = prepare_query rnd peer sc in
      if query = None then (Inl (), sc)
      else (Inr \<lparr>nh_query = query, nh_response = None, nh_is_v2 = True\<rparr>, sc))"

definition create_response :: "randomness \<Rightarrow> node_id_handshake_query \<Rightarrow> bool \<Rightarrow> socket_addr \<Rightarrow> handshake_process \<Rightarrow>
    syn_cookies \<Rightarrow> node_id_handshake \<times> syn_cookies" where
  "create_response rnd query v2 peer hp sc =
     (let response = prepare_response rnd query v2 hp; (own_query, sc) = prepare_query rnd peer sc in
      (\<lparr>nh_query = own_query, nh_response = Some response,
        nh_is_v2 = (own_query \<noteq> None \<or> hr_v2 response \<noteq> None)\<rparr>, sc))"

definition verify_response :: "(public_key \<Rightarrow> bytes \<Rightarrow> signature \<Rightarrow> bool) \<Rightarrow> node_id_handshake_response \<Rightarrow> socket_addr \<Rightarrow>
    handshake_process \<Rightarrow> syn_cookies \<Rightarrow> ((handshake_response_error + unit) \<times> syn_cookies) option" where
  "verify_response verify response peer hp sc =
     (if hr_node_id response = hp_node_id hp then Some (Inl OwnNodeId, sc)
      else if (case hr_v2 response of Some v2 \<Rightarrow> v2_genesis v2 \<noteq> hp_genesis_hash hp | None \<Rightarrow> False)
      then Some (Inl InvalidGenesis, sc)
      else do {
        (cookie, sc) \<leftarrow> sc_cookie peer sc;
        Some (case cookie of
            None \<Rightarrow> Inl MissingCookie
          | Some cookie \<Rightarrow> if \<not> response_validate verify cookie response then Inl InvalidSignature else Inr (), sc)
      })"

definition process_handshake :: "(public_key \<Rightarrow> bytes \<Rightarrow> signature \<Rightarrow> bool) \<Rightarrow> randomness \<Rightarrow> node_id_handshake \<Rightarrow> socket_addr \<Rightarrow>
    handshake_process \<Rightarrow> syn_cookies \<Rightarrow>
    ((handshake_response_error + public_key option \<times> node_id_handshake option) \<times> handshake_process \<times> syn_cookies) option" where
  "process_handshake verify rnd message peer hp sc =
     (if nh_query message = None \<and> nh_response message = None then Some (Inl EmptyResponse, hp, sc)
      else if nh_query message \<noteq> None \<and> hp_handshake_received hp then Some (Inl MultipleQueries, hp, sc)
      else
        let hp = hp\<lparr>hp_handshake_received := True\<rparr>;
            (our_response, sc) = (case nh_query message of
                Some query \<Rightarrow> (let (r, sc) = create_response rnd query (nh_is_v2 message) peer hp sc in (Some r, sc))
              | None \<Rightarrow> (None, sc))
        in case nh_response message of
          Some their_response \<Rightarrow> do {
            (verdict, sc) \<leftarrow> verify_response verify their_response peer hp sc;
            Some (map_sum (\<lambda>e. e) (\<lambda>_. (Some (hr_node_id their_response), our_response)) verdict, hp, sc)
          }
        | None \<Rightarrow> Some (Inr (None, our_response), hp, sc))"

section \<open>The cookie counters\<close>

text \<open>The counter of an address is the number of cookies that are out to it, at most the limit.\<close>

definition cookies_inv :: "syn_cookies \<Rightarrow> bool" where
  "cookies_inv sc \<longleftrightarrow>
     (\<forall>ip. ip_count ip sc = card {e. e |\<in>| fmdom (sc_cookies sc) \<and> sa_ip e = ip}) \<and>
     (\<forall>ip. ip_count ip sc \<le> sc_max_cookies_per_ip sc)"

lemma cookies_inv_new [simp]: "cookies_inv (syn_cookies_new n)"
  by (simp add: cookies_inv_def syn_cookies_new_def)

lemma finite_endpoints [simp]: "finite {e. e |\<in>| fmdom m \<and> P e}"
  by (rule finite_subset [of _ "fset (fmdom m)"]) auto

lemma sc_assign_inv:
  assumes "cookies_inv sc" "sc_assign random now endpoint sc = (c, sc')"
  shows "cookies_inv sc'"
proof -
  have "{e. (e = endpoint \<or> e |\<in>| fmdom (sc_cookies sc)) \<and> sa_ip e = ip} =
      (if ip = sa_ip endpoint then insert endpoint {e. e |\<in>| fmdom (sc_cookies sc) \<and> sa_ip e = ip}
       else {e. e |\<in>| fmdom (sc_cookies sc) \<and> sa_ip e = ip})" for ip by auto
  note ins = this
  show ?thesis
  proof (cases "tbl_get (sc_cookies sc) endpoint = None")
    case True
    then have "endpoint |\<notin>| fmdom (sc_cookies sc)" by (rule fmdom_notI)
    then show ?thesis
      using assms True by (auto simp: sc_assign_def cookies_inv_def Let_def ins split: if_splits)
  qed (use assms in \<open>simp add: sc_assign_def\<close>)
qed

lemma remove_cookie:
  assumes "cookies_inv sc" "tbl_get (sc_cookies sc) endpoint \<noteq> None"
  obtains sc' where "dec_cookie_count (sa_ip endpoint) (sc\<lparr>sc_cookies := fmdrop endpoint (sc_cookies sc)\<rparr>) = Some sc'"
    "cookies_inv sc'" "sc_cookies sc' = fmdrop endpoint (sc_cookies sc)"
    "sc_max_cookies_per_ip sc' = sc_max_cookies_per_ip sc"
proof -
  let ?E = "\<lambda>ip. {e. e |\<in>| fmdom (sc_cookies sc) \<and> sa_ip e = ip}"
  have "endpoint \<in> ?E (sa_ip endpoint)" using assms(2) by (auto simp: fmlookup_dom_iff)
  then have pos: "ip_count (sa_ip endpoint) sc > 0" and
    less: "card (?E (sa_ip endpoint) - {endpoint}) = ip_count (sa_ip endpoint) sc - 1"
    using assms(1) by (auto simp: cookies_inv_def card_gt_0_iff card_Diff_singleton)
  have drop: "{e. e |\<in>| fmdom (fmdrop endpoint (sc_cookies sc)) \<and> sa_ip e = ip} =
      (if ip = sa_ip endpoint then ?E ip - {endpoint} else ?E ip)" for ip by auto
  have le: "ip_count ip sc \<le> sc_max_cookies_per_ip sc" for ip using assms(1) unfolding cookies_inv_def by blast
  have other: "ip_count ip sc = card (?E ip)" for ip using assms(1) unfolding cookies_inv_def by blast
  let ?sc = "sc\<lparr>sc_cookies := fmdrop endpoint (sc_cookies sc),
    sc_cookies_per_ip := tbl_put (sa_ip endpoint) (ip_count (sa_ip endpoint) sc - 1) (sc_cookies_per_ip sc)\<rparr>"
  have "cookies_inv ?sc"
    unfolding cookies_inv_def using less drop other le le [of "sa_ip endpoint", THEN le_trans [OF diff_le_self]] by simp
  then show thesis using that [of ?sc] pos by (simp add: dec_cookie_count_def)
qed

lemma sc_cookie_inv:
  assumes "cookies_inv sc"
  obtains sc' where "sc_cookie endpoint sc = Some (map_option fst (tbl_get (sc_cookies sc) endpoint), sc')"
    "cookies_inv sc'" "sc_cookies sc' = fmdrop endpoint (sc_cookies sc)"
proof (cases "tbl_get (sc_cookies sc) endpoint")
  case None
  then have "fmdrop endpoint (sc_cookies sc) = sc_cookies sc" by (intro fmap_ext) auto
  then show thesis using that [of sc] assms None by (simp add: sc_cookie_def)
next
  case (Some ct)
  then have "tbl_get (sc_cookies sc) endpoint \<noteq> None" by simp
  then obtain sc' where "dec_cookie_count (sa_ip endpoint) (sc\<lparr>sc_cookies := fmdrop endpoint (sc_cookies sc)\<rparr>) = Some sc'"
    "cookies_inv sc'" "sc_cookies sc' = fmdrop endpoint (sc_cookies sc)"
    by (rule remove_cookie [OF assms])
  then show thesis using that [of sc'] Some by (cases ct) (simp add: sc_cookie_def)
qed

lemma sc_remove_all_inv:
  assumes "cookies_inv sc" "distinct es" "set es \<subseteq> fset (fmdom (sc_cookies sc))"
  shows "\<exists>sc'. sc_remove_all es sc = Some sc' \<and> cookies_inv sc' \<and>
    sc_cookies sc' = fmfilter (\<lambda>e. e \<notin> set es) (sc_cookies sc)"
  using assms
proof (induction es arbitrary: sc)
  case Nil
  then show ?case by simp
next
  case (Cons e es)
  then have "tbl_get (sc_cookies sc) e \<noteq> None" by (auto simp: fmlookup_dom_iff)
  then obtain sc1 where "dec_cookie_count (sa_ip e) (sc\<lparr>sc_cookies := fmdrop e (sc_cookies sc)\<rparr>) = Some sc1"
    "cookies_inv sc1" "sc_cookies sc1 = fmdrop e (sc_cookies sc)" by (rule remove_cookie [OF Cons.prems(1)])
  moreover from this have "set es \<subseteq> fset (fmdom (sc_cookies sc1))" using Cons.prems(2,3) by auto
  moreover have "fmfilter (\<lambda>x. x \<notin> set es) (fmdrop e (sc_cookies sc)) = fmfilter (\<lambda>x. x \<notin> set (e # es)) (sc_cookies sc)"
    by (rule fmap_ext) auto
  ultimately show ?case using Cons.IH [of sc1] Cons.prems(2) by auto
qed

lemma sc_purge_inv:
  assumes "cookies_inv sc" "permutes ord"
  shows "\<exists>sc'. sc_purge ord cutoff now sc = Some sc' \<and> cookies_inv sc' \<and>
    sc_cookies sc' = fmfilter (\<lambda>e. \<forall>c t. tbl_get (sc_cookies sc) e = Some (c, t) \<longrightarrow> nat (now - t) \<le> cutoff) (sc_cookies sc)"
proof -
  let ?es = "map fst (filter (\<lambda>(_, _, created_at). nat (now - created_at) > cutoff) (hash_iter ord (sc_cookies sc)))"
  have s: "set ?es = {e. \<exists>c t. tbl_get (sc_cookies sc) e = Some (c, t) \<and> nat (now - t) > cutoff}"
    using set_hash_iter [OF assms(2), of "sc_cookies sc"] by force
  moreover have "distinct ?es" using distinct_hash_iter [OF assms(2)] by (rule distinct_map_filter)
  moreover have "set ?es \<subseteq> fset (fmdom (sc_cookies sc))" using s by (auto simp: fmlookup_dom_iff)
  moreover have "fmfilter (\<lambda>e. e \<notin> set ?es) (sc_cookies sc) =
      fmfilter (\<lambda>e. \<forall>c t. tbl_get (sc_cookies sc) e = Some (c, t) \<longrightarrow> nat (now - t) \<le> cutoff) (sc_cookies sc)"
    unfolding s by (rule fmap_ext) (auto simp: not_less)
  ultimately show ?thesis using sc_remove_all_inv [OF assms(1), of ?es] by (simp add: sc_purge_def Let_def)
qed

lemma sc_validate_inv:
  assumes "cookies_inv sc"
  shows "\<exists>ok sc'. sc_validate verify endpoint node_id signature sc = Some (ok, sc') \<and> cookies_inv sc'"
proof (cases "tbl_get (sc_cookies sc) endpoint")
  case (Some ct)
  then have "tbl_get (sc_cookies sc) endpoint \<noteq> None" by simp
  then obtain sc1 where "dec_cookie_count (sa_ip endpoint) (sc\<lparr>sc_cookies := fmdrop endpoint (sc_cookies sc)\<rparr>) = Some sc1"
    "cookies_inv sc1" by (rule remove_cookie [OF assms])
  then show ?thesis using Some assms by (cases ct) (auto simp: sc_validate_def)
qed (auto simp: sc_validate_def assms)

section \<open>What a handshake proves\<close>

lemma prepare_query_cases:
  assumes "prepare_query rnd peer sc = (q, sc')"
  shows "(q = None \<and> sc_cookies sc' = sc_cookies sc) \<or>
    (q = Some \<lparr>hq_cookie = rnd_cookie rnd\<rparr> \<and> tbl_get (sc_cookies sc) peer = None \<and>
     sc_cookies sc' = tbl_put peer (rnd_cookie rnd, rnd_now rnd) (sc_cookies sc))"
  using assms by (auto simp: prepare_query_def sc_assign_def Let_def split: if_splits)

lemma prepare_query_inv: "prepare_query rnd peer sc = (q, sc') \<Longrightarrow> cookies_inv sc \<Longrightarrow> cookies_inv sc'"
  by (auto simp: prepare_query_def Let_def split: prod.splits dest: sc_assign_inv)

text \<open>
  The state after the answer to a query was prepared: unchanged without a query, else as the
  preparation of the own query leaves it.
\<close>

lemma create_response_inv:
  "create_response rnd query v2 peer hp sc = (r, sc') \<Longrightarrow> cookies_inv sc \<Longrightarrow> cookies_inv sc'"
  by (auto simp: create_response_def Let_def split: prod.splits dest: prepare_query_inv)

text \<open>A response is accepted only with the right genesis and a signature of the cookie of the peer, which is used up.\<close>

lemma verify_response_ok:
  assumes "cookies_inv sc" "verify_response verify r peer hp sc = Some (Inr u, sc')"
  obtains c t where "tbl_get (sc_cookies sc) peer = Some (c, t)" "verify (hr_node_id r) (data_to_sign c r) (hr_signature r)"
    "hr_node_id r \<noteq> hp_node_id hp" "\<forall>v2. hr_v2 r = Some v2 \<longrightarrow> v2_genesis v2 = hp_genesis_hash hp"
    "sc_cookies sc' = fmdrop peer (sc_cookies sc)" "cookies_inv sc'"
proof -
  obtain sc1 where s: "sc_cookie peer sc = Some (map_option fst (tbl_get (sc_cookies sc) peer), sc1)" "cookies_inv sc1"
    "sc_cookies sc1 = fmdrop peer (sc_cookies sc)" by (rule sc_cookie_inv [OF assms(1)])
  have c: "hr_node_id r \<noteq> hp_node_id hp" "\<forall>v2. hr_v2 r = Some v2 \<longrightarrow> v2_genesis v2 = hp_genesis_hash hp"
    using assms(2) by (auto simp: verify_response_def split: if_splits option.splits)
  then have "verify_response verify r peer hp sc = Some (case map_option fst (tbl_get (sc_cookies sc) peer) of
      None \<Rightarrow> Inl MissingCookie
    | Some c \<Rightarrow> if \<not> response_validate verify c r then Inl InvalidSignature else Inr (), sc1)"
    by (simp add: verify_response_def s(1) split: option.splits)
  then show thesis
    using assms(2) that s c by (auto simp: response_validate_def split: option.splits if_splits)
qed

lemma verify_response_total:
  assumes "cookies_inv sc"
  shows "\<exists>v sc'. verify_response verify r peer hp sc = Some (v, sc') \<and> cookies_inv sc'"
proof -
  obtain sc1 where "sc_cookie peer sc = Some (map_option fst (tbl_get (sc_cookies sc) peer), sc1)" "cookies_inv sc1"
    by (rule sc_cookie_inv [OF assms])
  then show ?thesis using assms by (simp add: verify_response_def)
qed

text \<open>The state in which the response of a message is verified.\<close>

definition after_query :: "randomness \<Rightarrow> node_id_handshake \<Rightarrow> socket_addr \<Rightarrow> handshake_process \<Rightarrow> syn_cookies \<Rightarrow>
    node_id_handshake option \<times> syn_cookies" where
  "after_query rnd m peer hp sc =
     (case nh_query m of
        Some query \<Rightarrow> (let (r, sc) = create_response rnd query (nh_is_v2 m) peer hp sc in (Some r, sc))
      | None \<Rightarrow> (None, sc))"

lemma after_query_inv: "after_query rnd m peer hp sc = (r, sc') \<Longrightarrow> cookies_inv sc \<Longrightarrow> cookies_inv sc'"
  by (auto simp: after_query_def Let_def split: option.splits prod.splits dest: create_response_inv)

lemma process_handshake_eq:
  "process_handshake verify rnd m peer hp sc =
     (if nh_query m = None \<and> nh_response m = None then Some (Inl EmptyResponse, hp, sc)
      else if nh_query m \<noteq> None \<and> hp_handshake_received hp then Some (Inl MultipleQueries, hp, sc)
      else
        let hp = hp\<lparr>hp_handshake_received := True\<rparr>; (ours, sc) = after_query rnd m peer hp sc
        in case nh_response m of
          Some r \<Rightarrow> do {
            (verdict, sc) \<leftarrow> verify_response verify r peer hp sc;
            Some (map_sum (\<lambda>e. e) (\<lambda>_. (Some (hr_node_id r), ours)) verdict, hp, sc)
          }
        | None \<Rightarrow> Some (Inr (None, ours), hp, sc))"
  by (simp add: process_handshake_def after_query_def)

lemma process_handshake_total:
  assumes "cookies_inv sc"
  shows "\<exists>v hp' sc'. process_handshake verify rnd m peer hp sc = Some (v, hp', sc') \<and> cookies_inv sc'"
proof -
  let ?hp = "hp\<lparr>hp_handshake_received := True\<rparr>"
  obtain ours sc1 where a: "after_query rnd m peer ?hp sc = (ours, sc1)" by (cases "after_query rnd m peer ?hp sc")
  then have "cookies_inv sc1" using after_query_inv assms by blast
  show ?thesis
  proof (cases "nh_response m")
    case None
    then show ?thesis using a assms \<open>cookies_inv sc1\<close> by (simp add: process_handshake_eq)
  next
    case (Some r)
    obtain v sc2 where "verify_response verify r peer ?hp sc1 = Some (v, sc2)" "cookies_inv sc2"
      using verify_response_total [OF \<open>cookies_inv sc1\<close>] by blast
    then show ?thesis using Some a assms by (simp add: process_handshake_eq)
  qed
qed

lemma process_handshake_node_id:
  assumes "cookies_inv sc" "process_handshake verify rnd m peer hp sc = Some (Inr (Some n, ours), hp', sc')"
  obtains r c t sc1 where "nh_response m = Some r" "hr_node_id r = n" "n \<noteq> hp_node_id hp"
    "snd (after_query rnd m peer (hp\<lparr>hp_handshake_received := True\<rparr>) sc) = sc1"
    "tbl_get (sc_cookies sc1) peer = Some (c, t)" "verify n (data_to_sign c r) (hr_signature r)"
    "\<forall>v2. hr_v2 r = Some v2 \<longrightarrow> v2_genesis v2 = hp_genesis_hash hp" "tbl_get (sc_cookies sc') peer = None"
proof -
  let ?hp = "hp\<lparr>hp_handshake_received := True\<rparr>"
  obtain ours1 sc1 where a: "after_query rnd m peer ?hp sc = (ours1, sc1)" by (cases "after_query rnd m peer ?hp sc")
  obtain r u where r: "nh_response m = Some r" "verify_response verify r peer ?hp sc1 = Some (Inr u, sc')" "hr_node_id r = n"
    using assms(2) a by (auto simp: process_handshake_eq Let_def map_sum_eq_Inr
        split: if_splits option.splits Option.bind_splits)
  obtain c t where "tbl_get (sc_cookies sc1) peer = Some (c, t)" "verify (hr_node_id r) (data_to_sign c r) (hr_signature r)"
    "hr_node_id r \<noteq> hp_node_id ?hp" "\<forall>v2. hr_v2 r = Some v2 \<longrightarrow> v2_genesis v2 = hp_genesis_hash ?hp"
    "sc_cookies sc' = fmdrop peer (sc_cookies sc1)" by (rule verify_response_ok [OF after_query_inv [OF a assms(1)] r(2)])
  then show thesis using that [of r sc1 c t] r a by simp
qed

lemma after_query_cookie:
  assumes "tbl_get (sc_cookies (snd (after_query rnd m peer hp sc))) peer = Some (c, t)"
  shows "tbl_get (sc_cookies sc) peer = Some (c, t) \<or>
    tbl_get (sc_cookies sc) peer = None \<and> nh_query m \<noteq> None \<and> c = rnd_cookie rnd"
proof (cases "nh_query m")
  case (Some q)
  obtain own sc1 where "prepare_query rnd peer sc = (own, sc1)" by (cases "prepare_query rnd peer sc")
  moreover from this have "sc_cookies (snd (after_query rnd m peer hp sc)) = sc_cookies sc1"
    using Some by (simp add: after_query_def create_response_def Let_def)
  ultimately show ?thesis using prepare_query_cases assms Some by fastforce
qed (use assms in \<open>simp add: after_query_def\<close>)

text \<open>Everything that happens to the cookies of a node.\<close>

inductive cookie_step :: "(public_key \<Rightarrow> bytes \<Rightarrow> signature \<Rightarrow> bool) \<Rightarrow> syn_cookies \<Rightarrow> syn_cookies \<Rightarrow> bool"
  for verify where
  initiate: "initiate_handshake rnd peer sc = (r, sc') \<Longrightarrow> cookie_step verify sc sc'"
| process: "process_handshake verify rnd m peer hp sc = Some (r, hp', sc') \<Longrightarrow> cookie_step verify sc sc'"
| validate: "sc_validate verify peer node_id signature sc = Some (ok, sc') \<Longrightarrow> cookie_step verify sc sc'"
| purge: "permutes ord \<Longrightarrow> sc_purge ord cutoff now sc = Some sc' \<Longrightarrow> cookie_step verify sc sc'"

lemma initiate_handshake_inv: "initiate_handshake rnd peer sc = (r, sc') \<Longrightarrow> cookies_inv sc \<Longrightarrow> cookies_inv sc'"
  by (auto simp: initiate_handshake_def Let_def split: prod.splits if_splits dest: prepare_query_inv)

lemma cookie_step_inv: "cookie_step verify sc sc' \<Longrightarrow> cookies_inv sc \<Longrightarrow> cookies_inv sc'"
proof (induction rule: cookie_step.induct)
  case (process rnd m peer hp sc r hp' sc')
  then show ?case using process_handshake_total [of sc verify rnd m peer hp] by auto
next
  case (validate peer node_id signature sc ok sc')
  then show ?case using sc_validate_inv [of sc verify peer node_id signature] by auto
next
  case (purge ord cutoff now sc sc')
  then show ?case using sc_purge_inv [of sc ord cutoff now] by auto
qed (rule initiate_handshake_inv)

text \<open>No step changes the limit.\<close>

lemma dec_cookie_count_limit: "dec_cookie_count ip sc = Some sc' \<Longrightarrow> sc_max_cookies_per_ip sc' = sc_max_cookies_per_ip sc"
  by (auto simp: dec_cookie_count_def split: if_splits)

lemma sc_remove_all_limit: "sc_remove_all es sc = Some sc' \<Longrightarrow> sc_max_cookies_per_ip sc' = sc_max_cookies_per_ip sc"
  by (induction es arbitrary: sc) (auto split: Option.bind_splits dest!: dec_cookie_count_limit)

lemma prepare_query_limit: "sc_max_cookies_per_ip (snd (prepare_query rnd peer sc)) = sc_max_cookies_per_ip sc"
  by (simp add: prepare_query_def sc_assign_def Let_def)

lemma after_query_limit: "sc_max_cookies_per_ip (snd (after_query rnd m peer hp sc)) = sc_max_cookies_per_ip sc"
  using prepare_query_limit [of rnd peer sc]
  by (auto simp: after_query_def create_response_def Let_def split: option.splits prod.splits)

lemma verify_response_limit:
  "verify_response verify r peer hp sc = Some (v, sc') \<Longrightarrow> sc_max_cookies_per_ip sc' = sc_max_cookies_per_ip sc"
  by (auto simp: verify_response_def sc_cookie_def split: if_splits option.splits Option.bind_splits
      dest!: dec_cookie_count_limit)

lemma cookie_step_limit: "cookie_step verify sc sc' \<Longrightarrow> sc_max_cookies_per_ip sc' = sc_max_cookies_per_ip sc"
proof (induction rule: cookie_step.induct)
  case (initiate rnd peer sc r sc')
  then show ?case using prepare_query_limit [of rnd peer sc]
    by (auto simp: initiate_handshake_def Let_def split: prod.splits if_splits)
next
  case (process rnd m peer hp sc r hp' sc')
  then show ?case using after_query_limit [of rnd m peer "hp\<lparr>hp_handshake_received := True\<rparr>" sc]
    by (auto simp: process_handshake_eq Let_def split: prod.splits if_splits option.splits Option.bind_splits
        dest!: verify_response_limit)
next
  case (validate peer node_id signature sc ok sc')
  then show ?case by (auto simp: sc_validate_def split: option.splits if_splits dest!: dec_cookie_count_limit)
next
  case (purge ord cutoff now sc sc')
  then show ?case by (auto simp: sc_purge_def Let_def dest: sc_remove_all_limit)
qed

lemma cookie_steps_inv:
  "(cookie_step verify)\<^sup>*\<^sup>* sc sc' \<Longrightarrow> cookies_inv sc \<Longrightarrow>
     cookies_inv sc' \<and> sc_max_cookies_per_ip sc' = sc_max_cookies_per_ip sc"
  by (induction rule: rtranclp_induct) (auto dest: cookie_step_inv cookie_step_limit)

section \<open>Two honest nodes\<close>

text \<open>A node can ask a peer for its node id.\<close>

definition can_query :: "socket_addr \<Rightarrow> syn_cookies \<Rightarrow> bool" where
  "can_query peer sc \<longleftrightarrow> cookies_inv sc \<and> tbl_get (sc_cookies sc) peer = None \<and>
     ip_count (sa_ip peer) sc < sc_max_cookies_per_ip sc"

lemma can_query_assign:
  assumes "can_query peer sc"
  obtains sc' where "prepare_query rnd peer sc = (Some \<lparr>hq_cookie = rnd_cookie rnd\<rparr>, sc')" "cookies_inv sc'"
    "sc_cookies sc' = tbl_put peer (rnd_cookie rnd, rnd_now rnd) (sc_cookies sc)"
proof -
  have "\<exists>sc'. prepare_query rnd peer sc = (Some \<lparr>hq_cookie = rnd_cookie rnd\<rparr>, sc') \<and>
      sc_cookies sc' = tbl_put peer (rnd_cookie rnd, rnd_now rnd) (sc_cookies sc)"
    using assms by (simp add: can_query_def prepare_query_def sc_assign_def Let_def)
  then show thesis using that prepare_query_inv assms unfolding can_query_def by blast
qed

lemma prepare_query_known:
  "tbl_get (sc_cookies sc) peer \<noteq> None \<Longrightarrow> prepare_query rnd peer sc = (None, sc)"
  by (simp add: prepare_query_def sc_assign_def)

text \<open>The response of an honest node is accepted.\<close>

lemma verify_honest_response:
  assumes "cookies_inv sc" "tbl_get (sc_cookies sc) peer = Some (hq_cookie q, t)"
    "\<forall>data. verify (hp_node_id other) data (hp_sign other data)" "hp_node_id other \<noteq> hp_node_id hp"
    "hp_genesis_hash other = hp_genesis_hash hp"
  obtains sc' where "verify_response verify (prepare_response rnd q v2 other) peer hp sc = Some (Inr (), sc')"
    "cookies_inv sc'" "sc_cookies sc' = fmdrop peer (sc_cookies sc)"
proof -
  let ?r = "prepare_response rnd q v2 other"
  have "hr_node_id ?r = hp_node_id other" "response_validate verify (hq_cookie q) ?r"
    using assms(3) by (simp_all add: prepare_response_def response_new_v1_def response_new_v2_def response_sign_def
        response_validate_def data_to_sign_def)
  moreover have "\<not> (case hr_v2 ?r of Some v2 \<Rightarrow> v2_genesis v2 \<noteq> hp_genesis_hash hp | None \<Rightarrow> False)"
    using assms(5) by (simp add: prepare_response_def response_new_v1_def response_new_v2_def response_sign_def)
  moreover obtain sc' where "sc_cookie peer sc = Some (Some (hq_cookie q), sc')" "cookies_inv sc'"
    "sc_cookies sc' = fmdrop peer (sc_cookies sc)"
    using sc_cookie_inv [OF assms(1), of peer] assms(2) by auto
  ultimately show thesis using that [of sc'] assms(4) by (simp add: verify_response_def)
qed

text \<open>
  The three messages of a handshake between an initiator and a responder that know nothing of
  each other: query, response with query, response. Both learn the node id of the other.
\<close>

lemma handshake_run:
  assumes sig: "\<forall>data. verify (hp_node_id A) data (hp_sign A data)" "\<forall>data. verify (hp_node_id B) data (hp_sign B data)"
    and ids: "hp_node_id A \<noteq> hp_node_id B" "hp_genesis_hash A = hp_genesis_hash B"
    and fresh: "\<not> hp_handshake_received A" "\<not> hp_handshake_received B" "can_query b scA" "can_query a scB"
  obtains m1 m2 m3 scA1 scA2 scB1 scB2 where
    "initiate_handshake r1 b scA = (Inr m1, scA1)"
    "process_handshake verify r2 m1 a B scB = Some (Inr (None, Some m2), B\<lparr>hp_handshake_received := True\<rparr>, scB1)"
    "process_handshake verify r3 m2 b A scA1 =
       Some (Inr (Some (hp_node_id B), Some m3), A\<lparr>hp_handshake_received := True\<rparr>, scA2)"
    "process_handshake verify r4 m3 a (B\<lparr>hp_handshake_received := True\<rparr>) scB1 =
       Some (Inr (Some (hp_node_id A), None), B\<lparr>hp_handshake_received := True\<rparr>, scB2)"
    "cookies_inv scA2" "cookies_inv scB2" "tbl_get (sc_cookies scA2) b = None" "tbl_get (sc_cookies scB2) a = None"
proof -
  let ?A = "A\<lparr>hp_handshake_received := True\<rparr>" and ?B = "B\<lparr>hp_handshake_received := True\<rparr>"
  let ?qA = "\<lparr>hq_cookie = rnd_cookie r1\<rparr>" and ?qB = "\<lparr>hq_cookie = rnd_cookie r2\<rparr>"
  let ?m1 = "\<lparr>nh_query = Some ?qA, nh_response = None, nh_is_v2 = True\<rparr>"
  let ?m2 = "\<lparr>nh_query = Some ?qB, nh_response = Some (prepare_response r2 ?qA True ?B), nh_is_v2 = True\<rparr>"
  let ?m3 = "\<lparr>nh_query = None, nh_response = Some (prepare_response r3 ?qB True ?A), nh_is_v2 = True\<rparr>"
  obtain scA1 where A1: "prepare_query r1 b scA = (Some ?qA, scA1)" "cookies_inv scA1"
    "sc_cookies scA1 = tbl_put b (rnd_cookie r1, rnd_now r1) (sc_cookies scA)" by (rule can_query_assign [OF fresh(3)])
  obtain scB1 where B1: "prepare_query r2 a scB = (Some ?qB, scB1)" "cookies_inv scB1"
    "sc_cookies scB1 = tbl_put a (rnd_cookie r2, rnd_now r2) (sc_cookies scB)" by (rule can_query_assign [OF fresh(4)])
  have known: "prepare_query r3 b scA1 = (None, scA1)" using A1(3) by (intro prepare_query_known) simp
  obtain scA2 where A2: "verify_response verify (prepare_response r2 ?qA True ?B) b ?A scA1 = Some (Inr (), scA2)"
    "cookies_inv scA2" "sc_cookies scA2 = fmdrop b (sc_cookies scA1)"
    by (rule verify_honest_response [of scA1 b ?qA "rnd_now r1" verify ?B ?A r2 True]) (use A1 sig ids in simp_all)
  obtain scB2 where B2: "verify_response verify (prepare_response r3 ?qB True ?A) a ?B scB1 = Some (Inr (), scB2)"
    "cookies_inv scB2" "sc_cookies scB2 = fmdrop a (sc_cookies scB1)"
    by (rule verify_honest_response [of scB1 a ?qB "rnd_now r2" verify ?A ?B r3 True]) (use B1 sig ids in simp_all)
  have "hr_node_id (prepare_response r q v2 hp) = hp_node_id hp" "hr_v2 (prepare_response r q True hp) \<noteq> None" for r q v2 hp
    by (simp_all add: prepare_response_def response_new_v1_def response_new_v2_def response_sign_def)
  then show thesis
    using that [of ?m1 scA1 ?m2 scB1 ?m3 scA2 scB2] A1 B1 A2 B2 known fresh(1,2)
    by (simp add: initiate_handshake_def process_handshake_def create_response_def Let_def)
qed

end
