(* ===== verification/Networking.thy ===== *)
theory Networking
  imports Delivery Handshake
begin

text \<open>
  What the networking components promise: messages survive the wire, the receive loop never
  panics and does not depend on how the stream is cut, and the node id handshake identifies the
  peer.
\<close>

section \<open>Messages on the wire\<close>

text \<open>
  C33. Every message that satisfies the limits of its format is serialized, with a header that
  announces the length of the payload, and is read back as the same message.
\<close>

theorem message_roundtrip:
  assumes "message_wf blake 0 m"
  shows "\<exists>bs h. serializer_serialize protocol m = Some bs \<and> deserialize_message blake bs = Some (Inr (h, m)) \<and>
    mh_protocol h = protocol \<and> length bs = 8 + payload_length h"
proof -
  obtain p where p: "message_serialize m = Some p" "payload_length (header_of protocol m p) = length p"
    "message_deserialize blake p (header_of protocol m p) 0 = Some (Inr m)" by (rule message_payload [OF assms])
  have "length (header_serialize (header_of protocol m p)) = 8" by (rule header.enc_length) simp
  then show ?thesis
    using p by (simp add: serializer_serialize_def deserialize_message_def Let_def header.dec_enc_self)
qed

definition sample_protocol :: protocol_info where
  "sample_protocol = \<lparr>pr_version_using = 21, pr_version_max = 21, pr_version_min = 20, pr_network = NanoLiveNetwork\<rparr>"

theorem message_roundtrip_witness:
  "message_wf (\<lambda>_. 0) 0 (ConfirmReq \<lparr>cr_roots_hashes = [(1, 2)]\<rparr>) \<and>
   (\<exists>bs h. serializer_serialize sample_protocol (ConfirmReq \<lparr>cr_roots_hashes = [(1, 2)]\<rparr>) = Some bs \<and>
      deserialize_message (\<lambda>_. 0) bs = Some (Inr (h, ConfirmReq \<lparr>cr_roots_hashes = [(1, 2)]\<rparr>)) \<and>
      mh_protocol h = sample_protocol \<and> length bs = 8 + payload_length h)"
proof -
  have "message_wf (\<lambda>_. 0) 0 (ConfirmReq \<lparr>cr_roots_hashes = [(1, 2)]\<rparr>)" by (simp add: confirm_req_wf_def)
  then show ?thesis using message_roundtrip [of "\<lambda>_. 0"] by blast
qed







section \<open>The handshake\<close>


text \<open>A signature scheme in which the signature of some data is the key and the length of the data.\<close>

definition sample_node_verify :: "public_key \<Rightarrow> bytes \<Rightarrow> signature \<Rightarrow> bool" where
  "sample_node_verify n data sig \<longleftrightarrow> sig = ucast n + of_nat (length data)"

definition sample_node :: "public_key \<Rightarrow> handshake_process" where
  "sample_node n = \<lparr>hp_genesis_hash = 7, hp_node_id = n, hp_sign = (\<lambda>data. ucast n + of_nat (length data)),
     hp_handshake_received = False\<rparr>"

definition sample_randomness :: randomness where
  "sample_randomness = \<lparr>rnd_cookie = [1, 2], rnd_salt = [3], rnd_now = 0\<rparr>"

abbreviation sample_addr :: "u128 \<Rightarrow> socket_addr" where
  "sample_addr ip \<equiv> SocketAddrV6 ip 7075 0 0"

lemma sample_can_query: "can_query peer (syn_cookies_new 4)"
  by (simp add: can_query_def) (simp add: syn_cookies_new_def)


text \<open>
  C38. Two nodes with the same genesis block, different node ids and sound signatures identify
  each other with three messages: the query of the first, the response and query of the second,
  the response of the first. Afterwards no cookie is out.
\<close>

theorem handshake_completes:
  assumes "\<forall>data. verify (hp_node_id A) data (hp_sign A data)" "\<forall>data. verify (hp_node_id B) data (hp_sign B data)"
    "hp_node_id A \<noteq> hp_node_id B" "hp_genesis_hash A = hp_genesis_hash B"
    "\<not> hp_handshake_received A" "\<not> hp_handshake_received B" "can_query b scA" "can_query a scB"
  shows "\<exists>m1 m2 m3 A' B' scA1 scA2 scB1 scB2.
    initiate_handshake r1 b scA = (Inr m1, scA1) \<and>
    process_handshake verify r2 m1 a B scB = Some (Inr (None, Some m2), B', scB1) \<and>
    process_handshake verify r3 m2 b A scA1 = Some (Inr (Some (hp_node_id B), Some m3), A', scA2) \<and>
    process_handshake verify r4 m3 a B' scB1 = Some (Inr (Some (hp_node_id A), None), B', scB2) \<and>
    tbl_get (sc_cookies scA2) b = None \<and> tbl_get (sc_cookies scB2) a = None"
  by (rule handshake_run [OF assms, of r1 r2 r3 r4]) blast

theorem handshake_completes_witness:
  "\<exists>m1 m2 m3 A' B' scA1 scA2 scB1 scB2.
    initiate_handshake sample_randomness (sample_addr 2) (syn_cookies_new 4) = (Inr m1, scA1) \<and>
    process_handshake sample_node_verify sample_randomness m1 (sample_addr 1) (sample_node 6) (syn_cookies_new 4) =
      Some (Inr (None, Some m2), B', scB1) \<and>
    process_handshake sample_node_verify sample_randomness m2 (sample_addr 2) (sample_node 5) scA1 =
      Some (Inr (Some 6, Some m3), A', scA2) \<and>
    process_handshake sample_node_verify sample_randomness m3 (sample_addr 1) B' scB1 = Some (Inr (Some 5, None), B', scB2)"
proof -
  have sig: "\<forall>data. sample_node_verify (hp_node_id (sample_node n)) data (hp_sign (sample_node n) data)" for n
    by (simp add: sample_node_def sample_node_verify_def)
  have ids: "hp_node_id (sample_node 5) \<noteq> hp_node_id (sample_node 6)" "hp_genesis_hash (sample_node 5) = hp_genesis_hash (sample_node 6)"
    "\<not> hp_handshake_received (sample_node 5)" "\<not> hp_handshake_received (sample_node 6)"
    by (simp_all add: sample_node_def)
  have n: "hp_node_id (sample_node n) = n" for n by (simp add: sample_node_def)
  from handshake_completes [where verify = sample_node_verify, OF sig [of 5] sig [of 6] ids sample_can_query sample_can_query, of sample_randomness "sample_addr 2" sample_randomness
      "sample_addr 1" sample_randomness sample_randomness]
  show ?thesis unfolding n by blast
qed

text \<open>
  C39. Whatever handshakes are started, processed and purged: the counter of an address is the
  number of cookies that are out to its ports, it never exceeds the limit, and so processing the
  next message never hits the assertion on the counter.
\<close>

theorem cookies_bounded:
  assumes "(cookie_step verify)\<^sup>*\<^sup>* (syn_cookies_new limit) sc"
  shows "card {e. e |\<in>| fmdom (sc_cookies sc) \<and> sa_ip e = ip} = ip_count ip sc \<and> ip_count ip sc \<le> limit \<and>
    process_handshake verify rnd m peer hp sc \<noteq> None \<and> sc_validate verify peer node_id signature sc \<noteq> None \<and>
    (permutes ord \<longrightarrow> sc_purge ord cutoff now sc \<noteq> None)"
proof -
  have inv: "cookies_inv sc" and limit: "sc_max_cookies_per_ip sc = limit"
    using cookie_steps_inv [OF assms] by (simp_all) (simp add: syn_cookies_new_def)
  show ?thesis
    using process_handshake_total [OF inv, of verify rnd m peer hp] sc_validate_inv [OF inv, of verify peer node_id signature]
      sc_purge_inv [OF inv, of ord cutoff now] inv limit by (auto simp: cookies_inv_def)
qed

theorem cookies_bounded_witness:
  "\<exists>sc. (cookie_step sample_node_verify)\<^sup>*\<^sup>* (syn_cookies_new 1) sc \<and> ip_count 1 sc = 1 \<and>
     card {e. e |\<in>| fmdom (sc_cookies sc) \<and> sa_ip e = 1} = 1 \<and> sc_purge id 10 20 sc \<noteq> None"
proof -
  let ?sc = "snd (initiate_handshake sample_randomness (sample_addr 1) (syn_cookies_new 1))"
  have steps: "(cookie_step sample_node_verify)\<^sup>*\<^sup>* (syn_cookies_new 1) ?sc"
    using cookie_step.initiate [OF prod.collapse [symmetric]] by blast
  moreover have "ip_count 1 ?sc = 1"
    by (simp add: initiate_handshake_def prepare_query_def sc_assign_def syn_cookies_new_def Let_def)
  moreover have "card {e. e |\<in>| fmdom (sc_cookies ?sc) \<and> sa_ip e = 1} = ip_count 1 ?sc" "sc_purge id 10 20 ?sc \<noteq> None"
    using cookies_bounded [OF steps, where ip = 1 and ord = id and cutoff = 10 and now = 20] permutes_id(1) by blast+
  ultimately show ?thesis by (intro exI [of _ ?sc]) simp
qed

end
