(* ===== verification/Fair_Queue.thy ===== *)
theory Fair_Queue
  imports Hash_Maps "HOL-Library.Monad_Syntax"
begin

text \<open>
  The fair queue of \<^verbatim>\<open>utils/src/fair_queue.rs\<close>: one queue per source, served in
  the order of the sources, at most a source's priority of items in a row. A panic and a loop that
  does not end are \<open>None\<close>. It is shown to lose nothing, to keep the order within a source,
  and to turn to another source when a priority is used up. In the program the queues of
  \<^verbatim>\<open>network/src/write_queue.rs\<close> and
  \<^verbatim>\<open>network_protocol/src/inbound_message_queue.rs\<close> are fair queues.
\<close>

section \<open>Definitions\<close>

record 'a queue_entry =
  qe_requests :: "'a list"
  qe_priority :: nat
  qe_max_size :: nat

definition queue_entry_new :: "nat \<Rightarrow> nat \<Rightarrow> 'a queue_entry" where
  "queue_entry_new max_size priority = \<lparr>qe_requests = [], qe_priority = priority, qe_max_size = max_size\<rparr>"

definition queue_entry_pop :: "'a queue_entry \<Rightarrow> 'a option \<times> 'a queue_entry" where
  "queue_entry_pop e = (case qe_requests e of [] \<Rightarrow> (None, e) | x # xs \<Rightarrow> (Some x, e\<lparr>qe_requests := xs\<rparr>))"

definition queue_entry_push :: "'a \<Rightarrow> 'a queue_entry \<Rightarrow> bool \<times> 'a queue_entry" where
  "queue_entry_push request e =
     (if length (qe_requests e) < qe_max_size e then (True, e\<lparr>qe_requests := qe_requests e @ [request]\<rparr>)
      else (False, e))"

record ('s, 'a) fair_queue =
  fq_queues :: "('s, 'a queue_entry) table"
  fq_current_queue_key :: "'s option"
  fq_max_size_query :: "'s \<Rightarrow> nat"
  fq_priority_query :: "'s \<Rightarrow> nat"
  fq_counter :: nat
  fq_total_len :: nat

definition fq_new :: "('s \<Rightarrow> nat) \<Rightarrow> ('s \<Rightarrow> nat) \<Rightarrow> ('s, 'a) fair_queue" where
  "fq_new max_size_query priority_query =
     \<lparr>fq_queues = fmempty, fq_current_queue_key = None, fq_max_size_query = max_size_query,
      fq_priority_query = priority_query, fq_counter = 0, fq_total_len = 0\<rparr>"

text \<open>The subtraction of the source panics if the queue is longer than its limit.\<close>

definition fq_free_capacity :: "'s \<Rightarrow> ('s, 'a) fair_queue \<Rightarrow> nat option" where
  "fq_free_capacity source q =
     (case tbl_get (fq_queues q) source of
        Some e \<Rightarrow> if length (qe_requests e) \<le> qe_max_size e then Some (qe_max_size e - length (qe_requests e)) else None
      | None \<Rightarrow> Some (fq_max_size_query q source))"

definition fq_clear :: "('s, 'a) fair_queue \<Rightarrow> ('s, 'a) fair_queue" where
  "fq_clear q = q\<lparr>fq_queues := fmempty, fq_total_len := 0\<rparr>"

definition fq_push :: "'s \<Rightarrow> 'a \<Rightarrow> ('s, 'a) fair_queue \<Rightarrow> bool \<times> ('s, 'a) fair_queue" where
  "fq_push source item q =
     (let entry = (case tbl_get (fq_queues q) source of
          Some e \<Rightarrow> e
        | None \<Rightarrow> queue_entry_new (fq_max_size_query q source) (fq_priority_query q source));
        (added, entry) = queue_entry_push item entry;
        q = q\<lparr>fq_queues := tbl_put source entry (fq_queues q)\<rparr>
      in (added, if added then q\<lparr>fq_total_len := fq_total_len q + 1\<rparr> else q))"

definition should_seek :: "('s, 'a) fair_queue \<Rightarrow> bool" where
  "should_seek q =
     (case fq_current_queue_key q of
        Some key \<Rightarrow>
          (case tbl_get (fq_queues q) key of
             Some e \<Rightarrow> if qe_requests e = [] then True else fq_counter q \<ge> qe_priority e
           | None \<Rightarrow> True)
      | None \<Rightarrow> True)"

text \<open>One iteration of the search for the next queue: the second key from the current one on, or the first of all.\<close>

definition seek_key :: "('s::linorder, 'a queue_entry) table \<Rightarrow> 's option \<Rightarrow> 's option" where
  "seek_key queues current =
     (let key = (case current of
          Some c \<Rightarrow> (case filter (\<lambda>k. c \<le> k) (map fst (tbl_entries queues)) of _ # k # _ \<Rightarrow> Some k | _ \<Rightarrow> None)
        | None \<Rightarrow> None)
      in case key of
        Some k \<Rightarrow> Some k
      | None \<Rightarrow> (case tbl_entries queues of [] \<Rightarrow> None | (k, _) # _ \<Rightarrow> Some k))"

partial_function (option) seek_loop :: "('s::linorder, 'a queue_entry) table \<Rightarrow> 's option \<Rightarrow> 's option" where
  "seek_loop queues current =
     (case seek_key queues current of
        None \<Rightarrow> None
      | Some k \<Rightarrow>
          (case tbl_get queues k of
             None \<Rightarrow> None
           | Some e \<Rightarrow> if qe_requests e \<noteq> [] then Some k else seek_loop queues (Some k)))"

definition seek_next :: "('s::linorder, 'a) fair_queue \<Rightarrow> ('s, 'a) fair_queue option" where
  "seek_next q =
     map_option (\<lambda>k. q\<lparr>fq_counter := 0, fq_current_queue_key := Some k\<rparr>)
       (seek_loop (fq_queues q) (fq_current_queue_key q))"

definition fq_next :: "('s::linorder, 'a) fair_queue \<Rightarrow> (('s \<times> 'a) option \<times> ('s, 'a) fair_queue) option" where
  "fq_next q =
     (if fq_total_len q = 0 then Some (None, q)
      else do {
        q \<leftarrow> (if should_seek q then seek_next q else Some q);
        case fq_current_queue_key q of
          None \<Rightarrow> Some (None, q)
        | Some it \<Rightarrow> do {
            queue \<leftarrow> tbl_get (fq_queues q) it;
            let (item, queue) = queue_entry_pop queue;
            item \<leftarrow> item;
            Some (Some (it, item), q\<lparr>fq_counter := fq_counter q + 1, fq_total_len := fq_total_len q - 1,
              fq_queues := tbl_put it queue (fq_queues q)\<rparr>)
          }
      })"

fun fq_take :: "nat \<Rightarrow> ('s::linorder, 'a) fair_queue \<Rightarrow> (('s \<times> 'a) list \<times> ('s, 'a) fair_queue) option" where
  "fq_take 0 q = Some ([], q)"
| "fq_take (Suc n) q = do {
     (x, q) \<leftarrow> fq_next q;
     x \<leftarrow> x;
     (xs, q) \<leftarrow> fq_take n q;
     Some (x # xs, q)
   }"

definition fq_next_batch :: "nat \<Rightarrow> ('s::linorder, 'a) fair_queue \<Rightarrow> (('s \<times> 'a) list \<times> ('s, 'a) fair_queue) option" where
  "fq_next_batch max_count q = fq_take (min (fq_total_len q) max_count) q"

definition fq_remove :: "'s \<Rightarrow> ('s, 'a) fair_queue \<Rightarrow> ('s, 'a) fair_queue option" where
  "fq_remove key q =
     (case tbl_get (fq_queues q) key of
        Some removed \<Rightarrow>
          if length (qe_requests removed) \<le> fq_total_len q
          then Some (q\<lparr>fq_queues := fmdrop key (fq_queues q), fq_total_len := fq_total_len q - length (qe_requests removed),
            fq_current_queue_key := None\<rparr>)
          else None
      | None \<Rightarrow> Some q)"

section \<open>The invariant\<close>

text \<open>The items of a source, in the order in which they were added.\<close>

definition fq_items :: "('s, 'a) fair_queue \<Rightarrow> 's \<Rightarrow> 'a list" where
  "fq_items q s = (case tbl_get (fq_queues q) s of Some e \<Rightarrow> qe_requests e | None \<Rightarrow> [])"

definition fq_inv :: "('s, 'a) fair_queue \<Rightarrow> bool" where
  "fq_inv q \<longleftrightarrow>
     fq_total_len q = (\<Sum>k\<in>fset (fmdom (fq_queues q)). length (fq_items q k)) \<and>
     (\<forall>k e. tbl_get (fq_queues q) k = Some e \<longrightarrow> length (qe_requests e) \<le> qe_max_size e)"

lemma fq_inv_new [simp]: "fq_inv (fq_new m p)" "fq_items (fq_new m p) s = []"
  by (simp_all add: fq_inv_def fq_new_def fq_items_def)

text \<open>Replacing the queue of one source.\<close>

lemma fq_put_total:
  fixes q :: "('s, 'a) fair_queue"
  assumes "\<forall>t. t \<noteq> s \<longrightarrow> fq_items q' t = fq_items q t" "fq_queues q' = tbl_put s e (fq_queues q)"
  shows "(\<Sum>k\<in>fset (fmdom (fq_queues q')). length (fq_items q' k)) + length (fq_items q s) =
    (\<Sum>k\<in>fset (fmdom (fq_queues q)). length (fq_items q k)) + length (fq_items q' s)"
proof -
  let ?D = "fset (fmdom (fq_queues q))"
  have "(\<Sum>k\<in>?D - {s}. length (fq_items q' k)) = (\<Sum>k\<in>?D - {s}. length (fq_items q k))"
    by (rule sum.cong) (use assms(1) in auto)
  moreover have "(\<Sum>k\<in>?D. length (fq_items q k)) = length (fq_items q s) + (\<Sum>k\<in>?D - {s}. length (fq_items q k))"
  proof (cases "s \<in> ?D")
    case False
    then have "fq_items q s = []" by (simp add: fq_items_def fmdom_notD)
    then show ?thesis using False by simp
  qed (simp add: sum.remove)
  moreover have "fset (fmdom (fq_queues q')) = insert s ?D" by (simp add: assms(2))
  ultimately show ?thesis by (simp add: sum.insert_remove)
qed

section \<open>Adding\<close>

lemma fq_push_correct:
  assumes "fq_inv q" "fq_push s x q = (added, q')"
  shows "fq_inv q'" "fq_items q' s = fq_items q s @ (if added then [x] else [])"
    "t \<noteq> s \<Longrightarrow> fq_items q' t = fq_items q t" "fq_free_capacity s q = Some n \<Longrightarrow> added \<longleftrightarrow> n > 0"
proof -
  show items: "fq_items q' s = fq_items q s @ (if added then [x] else [])"
    using assms(2) by (auto simp: fq_push_def fq_items_def Let_def queue_entry_push_def queue_entry_new_def
        split: option.splits if_splits)
  show other: "t \<noteq> s \<Longrightarrow> fq_items q' t = fq_items q t" for t
    using assms(2) by (auto simp: fq_push_def fq_items_def Let_def queue_entry_push_def split: if_splits)
  obtain e where e: "fq_queues q' = tbl_put s e (fq_queues q)"
    using assms(2) by (auto simp: fq_push_def Let_def queue_entry_push_def split: if_splits)
  have "fq_total_len q' = fq_total_len q + (if added then 1 else 0)"
    using assms(2) by (auto simp: fq_push_def Let_def split: prod.splits)
  moreover have "\<forall>k e. tbl_get (fq_queues q') k = Some e \<longrightarrow> length (qe_requests e) \<le> qe_max_size e"
    using assms by (auto simp: fq_push_def fq_inv_def Let_def queue_entry_push_def queue_entry_new_def
        split: option.splits if_splits)
  ultimately show "fq_inv q'"
    using fq_put_total [of s q' q e] items other e assms(1) by (simp add: fq_inv_def)
  show "fq_free_capacity s q = Some n \<Longrightarrow> added \<longleftrightarrow> n > 0"
    using assms(2) by (auto simp: fq_push_def fq_free_capacity_def Let_def queue_entry_push_def queue_entry_new_def
        split: option.splits if_splits)
qed

lemma fq_free_capacity_total: "fq_inv q \<Longrightarrow> fq_free_capacity s q \<noteq> None"
  by (auto simp: fq_free_capacity_def fq_inv_def split: option.splits)

section \<open>Finding the next source\<close>

abbreviation fq_keys :: "('s::linorder, 'v) table \<Rightarrow> 's list" where
  "fq_keys queues \<equiv> map fst (tbl_entries queues)"

text \<open>The sources that come after the current one before the search starts over.\<close>

definition keys_after :: "('s::linorder, 'v) table \<Rightarrow> 's option \<Rightarrow> 's list" where
  "keys_after queues current = (case current of Some c \<Rightarrow> tl (filter (\<lambda>k. c \<le> k) (fq_keys queues)) | None \<Rightarrow> [])"

abbreviation waiting :: "('s, 'a queue_entry) table \<Rightarrow> 's \<Rightarrow> bool" where
  "waiting queues k \<equiv> \<exists>e. tbl_get queues k = Some e \<and> qe_requests e \<noteq> []"

lemma fq_keys_sorted: "sorted_wrt (<) (fq_keys queues)"
  using lmdb.entries_keys [of queues] strict_sorted_iff by blast

lemma set_fq_keys: "k \<in> set (fq_keys queues) \<longleftrightarrow> tbl_get queues k \<noteq> None"
  using lmdb.entries_get [of k _ queues] by force

lemma set_keys_after: "set (keys_after queues current) \<subseteq> set (fq_keys queues)"
proof (cases current)
  case (Some c)
  have "set (tl xs) \<subseteq> set xs" for xs :: "'a list" by (cases xs) auto
  from this [of "filter (\<lambda>k. c \<le> k) (fq_keys queues)"] show ?thesis using Some by (auto simp: keys_after_def)
qed (simp add: keys_after_def)

lemma find_append: "find P (xs @ ys) = (case find P xs of Some x \<Rightarrow> Some x | None \<Rightarrow> find P ys)"
  by (induction xs) auto

lemma find_in_set: "find P xs = Some x \<Longrightarrow> x \<in> set xs"
  by (induction xs) (auto split: if_splits)

lemma seek_key_eq:
  "seek_key queues current = (case keys_after queues current @ fq_keys queues of [] \<Rightarrow> None | k # _ \<Rightarrow> Some k)"
  by (auto simp: seek_key_def keys_after_def split: option.splits list.splits)

lemma keys_after_next:
  assumes "keys_after queues current @ fq_keys queues = k # ks" "keys_after queues current = [] \<Longrightarrow> current = None"
  shows "keys_after queues (Some k) = (if current = None then tl (fq_keys queues) else tl (keys_after queues current))"
proof (cases current)
  case None
  then have "fq_keys queues = k # tl (fq_keys queues)" using assms(1) by (simp add: keys_after_def)
  moreover from this have "\<forall>x \<in> set (tl (fq_keys queues)). k < x" using fq_keys_sorted [of queues] by (metis sorted_wrt.simps(2))
  ultimately have "filter (\<lambda>x. k \<le> x) (fq_keys queues) = k # tl (fq_keys queues)"
    by (metis filter.simps(2) filter_True less_imp_le order_refl)
  then show ?thesis using None by (simp add: keys_after_def)
next
  case (Some c)
  then obtain x where x: "filter (\<lambda>y. c \<le> y) (fq_keys queues) = x # k # tl (keys_after queues current)"
    using assms by (cases "filter (\<lambda>y. c \<le> y) (fq_keys queues)"; cases "keys_after queues current")
      (auto simp: keys_after_def)
  have "sorted_wrt (<) (x # k # tl (keys_after queues current))"
    unfolding x [symmetric] by (intro sorted_wrt_filter fq_keys_sorted)
  then have "filter (\<lambda>y. k \<le> y) (x # k # tl (keys_after queues current)) = k # tl (keys_after queues current)"
    by (auto simp: filter_id_conv intro: less_imp_le)
  moreover have "filter (\<lambda>y. k \<le> y) (filter (\<lambda>y. c \<le> y) (fq_keys queues)) = filter (\<lambda>y. k \<le> y) (fq_keys queues)"
  proof -
    have "k \<in> set (filter (\<lambda>y. c \<le> y) (fq_keys queues))" unfolding x by simp
    then have "c \<le> k" by simp
    then show ?thesis by (auto intro!: filter_cong)
  qed
  ultimately have "filter (\<lambda>y. k \<le> y) (fq_keys queues) = k # tl (keys_after queues current)" using x by simp
  then show ?thesis using Some by (simp add: keys_after_def)
qed

lemma seek_loop_step:
  assumes "keys_after queues current @ fq_keys queues = k # ks"
  shows "seek_loop queues current = (if waiting queues k then Some k else seek_loop queues (Some k))"
proof -
  have "k \<in> set (fq_keys queues)"
    using assms set_keys_after [of queues current] by (cases "keys_after queues current") auto
  then obtain e where "tbl_get queues k = Some e" using set_fq_keys [of k queues] by blast
  then show ?thesis using assms by (subst seek_loop.simps) (simp add: seek_key_eq)
qed

text \<open>The loop searches the sources after the current one, then all from the first.\<close>

lemma seek_loop_ahead:
  "keys_after queues current = ks \<Longrightarrow> \<exists>k \<in> set ks. waiting queues k \<Longrightarrow> seek_loop queues current = find (waiting queues) ks"
proof (induction ks arbitrary: current)
  case (Cons k ks)
  have "seek_loop queues current = (if waiting queues k then Some k else seek_loop queues (Some k))"
    using Cons.prems(1) by (intro seek_loop_step [of _ _ _ "ks @ fq_keys queues"]) simp
  moreover have "keys_after queues (Some k) = ks"
    using keys_after_next [of queues current k "ks @ fq_keys queues"] Cons.prems(1) by (auto simp: keys_after_def)
  ultimately show ?case using Cons.IH [of "Some k"] Cons.prems(2) by auto
qed simp

lemma seek_loop_wrap:
  "keys_after queues current = ks \<Longrightarrow> \<forall>k \<in> set ks. \<not> waiting queues k \<Longrightarrow> seek_loop queues current = seek_loop queues None"
proof (induction ks arbitrary: current)
  case Nil
  then have "seek_key queues current = seek_key queues None" by (simp add: seek_key_eq) (simp add: keys_after_def)
  then show ?case by (simp add: seek_loop.simps [of queues current] seek_loop.simps [of queues None])
next
  case (Cons k ks)
  have "seek_loop queues current = (if waiting queues k then Some k else seek_loop queues (Some k))"
    using Cons.prems(1) by (intro seek_loop_step [of _ _ _ "ks @ fq_keys queues"]) simp
  moreover have "keys_after queues (Some k) = ks"
    using keys_after_next [of queues current k "ks @ fq_keys queues"] Cons.prems(1) by (auto simp: keys_after_def)
  ultimately show ?case using Cons.IH [of "Some k"] Cons.prems(2) by simp
qed

lemma seek_loop_find:
  assumes "\<exists>k. waiting queues k"
  shows "seek_loop queues current = find (waiting queues) (keys_after queues current @ fq_keys queues)"
proof -
  have some: "\<exists>k \<in> set (fq_keys queues). waiting queues k" using assms set_fq_keys [of _ queues] by force
  then obtain k ks where ks: "fq_keys queues = k # ks" by (cases "fq_keys queues") auto
  have "seek_loop queues None = (if waiting queues k then Some k else seek_loop queues (Some k))"
    by (rule seek_loop_step [of _ _ _ ks]) (simp add: keys_after_def ks)
  moreover have "keys_after queues (Some k) = ks"
    using keys_after_next [of queues None k ks] ks by (simp add: keys_after_def)
  ultimately have first: "seek_loop queues None = find (waiting queues) (fq_keys queues)"
    using seek_loop_ahead [of queues "Some k" ks] some unfolding ks by auto
  show ?thesis
  proof (cases "\<exists>k \<in> set (keys_after queues current). waiting queues k")
    case True
    then obtain k where "find (waiting queues) (keys_after queues current) = Some k"
      by (cases "find (waiting queues) (keys_after queues current)") (auto simp: find_None_iff)
    then show ?thesis using seek_loop_ahead [OF refl True] by (simp add: find_append)
  next
    case False
    then have "find (waiting queues) (keys_after queues current) = None" by (auto simp: find_None_iff)
    then show ?thesis using seek_loop_wrap [of queues current] False first by (simp add: find_append)
  qed
qed

section \<open>Taking\<close>

lemma waiting_items: "waiting (fq_queues q) s \<longleftrightarrow> fq_items q s \<noteq> []"
  by (auto simp: fq_items_def split: option.splits)

lemma some_waiting:
  assumes "fq_inv q" "fq_total_len q > 0"
  shows "\<exists>s. fq_items q s \<noteq> []"
proof (rule ccontr)
  assume "\<nexists>s. fq_items q s \<noteq> []"
  then have "(\<Sum>k\<in>fset (fmdom (fq_queues q)). length (fq_items q k)) = 0" by simp
  then show False using assms by (simp add: fq_inv_def)
qed

lemma waiting_total:
  assumes "fq_inv q" "fq_items q s \<noteq> []"
  shows "fq_total_len q > 0"
proof -
  have "s \<in> fset (fmdom (fq_queues q))" using assms(2) by (auto simp: fq_items_def fmdomI split: option.splits)
  then have "length (fq_items q s) \<le> (\<Sum>k\<in>fset (fmdom (fq_queues q)). length (fq_items q k))"
    by (intro member_le_sum) auto
  moreover have "length (fq_items q s) > 0" using assms(2) by simp
  ultimately show ?thesis using assms(1) unfolding fq_inv_def by linarith
qed

text \<open>The search ends at the first source in turn with an item.\<close>

lemma seek_next_find:
  assumes "\<exists>s. fq_items q s \<noteq> []"
  obtains s where "seek_next q = Some (q\<lparr>fq_counter := 0, fq_current_queue_key := Some s\<rparr>)" "fq_items q s \<noteq> []"
    "find (waiting (fq_queues q)) (keys_after (fq_queues q) (fq_current_queue_key q) @ fq_keys (fq_queues q)) = Some s"
proof -
  let ?ks = "keys_after (fq_queues q) (fq_current_queue_key q) @ fq_keys (fq_queues q)"
  have w: "\<exists>k. waiting (fq_queues q) k" using assms waiting_items [of q] by blast
  then obtain k where k: "waiting (fq_queues q) k" by blast
  then have "k \<in> set ?ks" using set_fq_keys [of k "fq_queues q"] by auto
  then have "find (waiting (fq_queues q)) ?ks \<noteq> None" using k unfolding find_None_iff by blast
  then obtain s where s: "find (waiting (fq_queues q)) ?ks = Some s" by blast
  then have "waiting (fq_queues q) s" by (auto simp: find_Some_iff)
  then show thesis using that [of s] s seek_loop_find [OF w] waiting_items [of q s] by (simp add: seek_next_def)
qed

text \<open>The queue from which the next item is taken.\<close>

definition fq_turn :: "('s::linorder, 'a) fair_queue \<Rightarrow> ('s, 'a) fair_queue option" where
  "fq_turn q = (if should_seek q then seek_next q else Some q)"

lemma fq_turn_correct:
  assumes "\<exists>s. fq_items q s \<noteq> []"
  obtains s n where "fq_turn q = Some (q\<lparr>fq_counter := n, fq_current_queue_key := Some s\<rparr>)" "fq_items q s \<noteq> []"
    "should_seek q \<longrightarrow> find (waiting (fq_queues q)) (keys_after (fq_queues q) (fq_current_queue_key q) @ fq_keys (fq_queues q)) = Some s"
proof (cases "should_seek q")
  case True
  show thesis by (rule seek_next_find [OF assms]) (use that True in \<open>simp add: fq_turn_def\<close>)
next
  case False
  then obtain s e where s: "fq_current_queue_key q = Some s" "tbl_get (fq_queues q) s = Some e" "qe_requests e \<noteq> []"
    by (auto simp: should_seek_def split: option.splits if_splits)
  then have "q\<lparr>fq_counter := fq_counter q, fq_current_queue_key := Some s\<rparr> = q" by (cases q) simp
  then show thesis using that [of s "fq_counter q"] False s by (simp add: fq_turn_def fq_items_def)
qed

lemma fq_next_correct:
  assumes "fq_inv q" "fq_total_len q > 0"
  obtains s x q' where "fq_next q = Some (Some (s, x), q')" "fq_items q s = x # fq_items q' s"
    "\<forall>t. t \<noteq> s \<longrightarrow> fq_items q' t = fq_items q t" "fq_inv q'" "Suc (fq_total_len q') = fq_total_len q"
    "should_seek q \<longrightarrow> find (waiting (fq_queues q)) (keys_after (fq_queues q) (fq_current_queue_key q) @ fq_keys (fq_queues q)) = Some s"
proof -
  obtain s n where turn: "fq_turn q = Some (q\<lparr>fq_counter := n, fq_current_queue_key := Some s\<rparr>)" and s: "fq_items q s \<noteq> []" and
    f: "should_seek q \<longrightarrow> find (waiting (fq_queues q)) (keys_after (fq_queues q) (fq_current_queue_key q) @ fq_keys (fq_queues q)) = Some s"
    by (rule fq_turn_correct [OF some_waiting [OF assms]])
  obtain e x xs where e: "tbl_get (fq_queues q) s = Some e" "qe_requests e = x # xs"
    using s by (cases "fq_items q s") (auto simp: fq_items_def split: option.splits)
  let ?q = "q\<lparr>fq_counter := Suc n, fq_current_queue_key := Some s, fq_total_len := fq_total_len q - 1,
    fq_queues := tbl_put s (e\<lparr>qe_requests := xs\<rparr>) (fq_queues q)\<rparr>"
  have items: "fq_items q s = x # fq_items ?q s" "\<forall>t. t \<noteq> s \<longrightarrow> fq_items ?q t = fq_items q t"
    using e by (auto simp: fq_items_def)
  have "fq_next q = Some (Some (s, x), ?q)"
    using turn e assms(2) by (simp add: fq_next_def fq_turn_def [symmetric] queue_entry_pop_def)
  moreover have "fq_inv ?q"
  proof -
    have "length (qe_requests e) \<le> qe_max_size e" using assms(1) e(1) by (simp add: fq_inv_def)
    then have "\<forall>k e. tbl_get (fq_queues ?q) k = Some e \<longrightarrow> length (qe_requests e) \<le> qe_max_size e"
      using assms(1) e(2) by (auto simp: fq_inv_def)
    then show ?thesis
      using fq_put_total [of s ?q q "e\<lparr>qe_requests := xs\<rparr>"] items assms(1) by (simp add: fq_inv_def)
  qed
  ultimately show thesis using that [of s x ?q] items f assms(2) by simp
qed

text \<open>A source that has used up its priority waits if another one has an item.\<close>

lemma fq_next_fair:
  assumes "fq_inv q" "fq_current_queue_key q = Some c" "tbl_get (fq_queues q) c = Some e" "qe_priority e \<le> fq_counter q"
    "t \<noteq> c" "fq_items q t \<noteq> []" "fq_next q = Some (Some (s, x), q')"
  shows "s \<noteq> c"
proof -
  have pos: "fq_total_len q > 0" using assms(7) by (cases "fq_total_len q = 0") (simp_all add: fq_next_def)
  have seek: "should_seek q" using assms by (simp add: should_seek_def)
  obtain s1 x1 q1 where "fq_next q = Some (Some (s1, x1), q1)" "should_seek q \<longrightarrow>
      find (waiting (fq_queues q)) (keys_after (fq_queues q) (fq_current_queue_key q) @ fq_keys (fq_queues q)) = Some s1"
    by (rule fq_next_correct [OF assms(1) pos])
  then have f: "find (waiting (fq_queues q)) (keys_after (fq_queues q) (Some c) @ fq_keys (fq_queues q)) = Some s"
    using assms(2,7) seek by simp
  have "t \<in> set (fq_keys (fq_queues q))" and wt: "waiting (fq_queues q) t"
    using assms(6) waiting_items [of q t] set_fq_keys [of t "fq_queues q"] by auto
  have "c \<in> set (fq_keys (fq_queues q))" using assms(3) set_fq_keys [of c "fq_queues q"] by simp
  then obtain xs ys where split: "fq_keys (fq_queues q) = xs @ c # ys" by (meson split_list)
  have sorted: "\<forall>x \<in> set xs. x < c" "\<forall>y \<in> set ys. c < y"
    using fq_keys_sorted [of "fq_queues q"] unfolding split by (auto simp: sorted_wrt_append)
  then have "filter (\<lambda>k. c \<le> k) (fq_keys (fq_queues q)) = c # ys"
    unfolding split by (auto simp: filter_empty_conv filter_id_conv not_le intro: less_imp_le)
  then have after: "keys_after (fq_queues q) (Some c) = ys" by (simp add: keys_after_def)
  have "t \<in> set (ys @ xs)" using \<open>t \<in> set (fq_keys (fq_queues q))\<close> assms(5) unfolding split by auto
  moreover have "find (waiting (fq_queues q)) ((ys @ xs) @ c # ys) = Some s" using f unfolding after split by simp
  ultimately have "find (waiting (fq_queues q)) (ys @ xs) = Some s"
    using wt unfolding find_append [of _ "ys @ xs"] by (auto simp: find_None_iff split: option.splits)
  then have "s \<in> set (ys @ xs)" by (rule find_in_set)
  then show ?thesis using sorted by auto
qed

text \<open>A batch is a part of every queue, in its order.\<close>

definition from_source :: "'s \<Rightarrow> ('s \<times> 'a) list \<Rightarrow> 'a list" where
  "from_source s xs = map snd (filter (\<lambda>x. fst x = s) xs)"

lemma fq_take_correct:
  "fq_inv q \<Longrightarrow> n \<le> fq_total_len q \<Longrightarrow>
     \<exists>xs q'. fq_take n q = Some (xs, q') \<and> length xs = n \<and> fq_inv q' \<and> fq_total_len q' + n = fq_total_len q \<and>
       (\<forall>s. fq_items q s = from_source s xs @ fq_items q' s)"
proof (induction n arbitrary: q)
  case (Suc n)
  obtain s x q1 where q1: "fq_next q = Some (Some (s, x), q1)" "fq_items q s = x # fq_items q1 s"
    "\<forall>t. t \<noteq> s \<longrightarrow> fq_items q1 t = fq_items q t" "fq_inv q1" "Suc (fq_total_len q1) = fq_total_len q"
    by (rule fq_next_correct [OF Suc.prems(1)]) (use Suc.prems in auto)
  moreover from this obtain xs q' where "fq_take n q1 = Some (xs, q')" "length xs = n" "fq_inv q'"
    "fq_total_len q' + n = fq_total_len q1" "\<forall>s. fq_items q1 s = from_source s xs @ fq_items q' s"
    using Suc.IH [of q1] Suc.prems(2) by auto
  ultimately show ?case by (auto simp: from_source_def)
qed (simp add: from_source_def)

lemma fq_next_batch_correct:
  assumes "fq_inv q"
  shows "\<exists>xs q'. fq_next_batch n q = Some (xs, q') \<and> length xs = min (fq_total_len q) n \<and> fq_inv q' \<and>
    (\<forall>s. fq_items q s = from_source s xs @ fq_items q' s)"
  using fq_take_correct [OF assms, of "min (fq_total_len q) n"] by (auto simp: fq_next_batch_def)

lemma fq_remove_correct:
  assumes "fq_inv q"
  shows "\<exists>q'. fq_remove s q = Some q' \<and> fq_inv q' \<and> fq_items q' s = [] \<and> (\<forall>t. t \<noteq> s \<longrightarrow> fq_items q' t = fq_items q t)"
proof (cases "tbl_get (fq_queues q) s")
  case None
  then show ?thesis using assms by (simp add: fq_remove_def fq_items_def)
next
  case (Some e)
  let ?q = "q\<lparr>fq_queues := fmdrop s (fq_queues q), fq_total_len := fq_total_len q - length (qe_requests e),
    fq_current_queue_key := None\<rparr>"
  have "s \<in> fset (fmdom (fq_queues q))" using Some by (simp add: fmdomI)
  then have "(\<Sum>k\<in>fset (fmdom (fq_queues q)). length (fq_items q k)) =
      length (qe_requests e) + (\<Sum>k\<in>fset (fmdom (fq_queues q)) - {s}. length (fq_items q k))"
    using Some by (simp add: sum.remove fq_items_def)
  moreover have "(\<Sum>k\<in>fset (fmdom (fq_queues q)) - {s}. length (fq_items ?q k)) =
      (\<Sum>k\<in>fset (fmdom (fq_queues q)) - {s}. length (fq_items q k))"
    by (rule sum.cong) (auto simp: fq_items_def)
  ultimately have "fq_inv ?q" "length (qe_requests e) \<le> fq_total_len q" using assms by (auto simp: fq_inv_def)
  then show ?thesis using Some by (auto simp: fq_remove_def fq_items_def)
qed

lemma fq_clear_correct: "fq_inv (fq_clear q)" "fq_items (fq_clear q) s = []"
  by (simp_all add: fq_clear_def fq_inv_def fq_items_def)

section \<open>Every queue that is used\<close>

inductive fq_step :: "('s::linorder, 'a) fair_queue \<Rightarrow> ('s, 'a) fair_queue \<Rightarrow> bool" where
  push: "fq_push s x q = (added, q') \<Longrightarrow> fq_step q q'"
| take_one: "fq_next q = Some (r, q') \<Longrightarrow> fq_step q q'"
| next_batch: "fq_next_batch n q = Some (xs, q') \<Longrightarrow> fq_step q q'"
| remove: "fq_remove s q = Some q' \<Longrightarrow> fq_step q q'"
| clear: "fq_step q (fq_clear q)"

lemma fq_next_total:
  assumes "fq_inv q"
  shows "\<exists>r q'. fq_next q = Some (r, q') \<and> fq_inv q'"
proof (cases "fq_total_len q > 0")
  case True
  show ?thesis by (rule fq_next_correct [OF assms True]) blast
qed (use assms in \<open>simp add: fq_next_def\<close>)

lemma fq_step_inv: "fq_step q q' \<Longrightarrow> fq_inv q \<Longrightarrow> fq_inv q'"
proof (induction rule: fq_step.induct)
  case (push s x q added q')
  then show ?case by - (rule fq_push_correct(1))
next
  case (take_one q r q')
  then show ?case using fq_next_total [of q] by auto
next
  case (next_batch n q xs q')
  then show ?case using fq_next_batch_correct [of q n] by auto
next
  case (remove s q q')
  then show ?case using fq_remove_correct [of q s] by auto
qed (simp add: fq_clear_correct)

lemma fq_steps_inv: "fq_step\<^sup>*\<^sup>* q q' \<Longrightarrow> fq_inv q \<Longrightarrow> fq_inv q'"
  by (induction rule: rtranclp_induct) (blast dest: fq_step_inv)+

text \<open>
  C40. Whatever was added to, taken and removed from a fair queue: taking a batch returns, with as
  many items as were asked for and are there; the items of each source are taken from the front of
  its queue, in their order, and the others stay. And when the current source has used up its
  priority and another source has an item, the next item is not one of the current source.
\<close>

theorem fair_queue_correct:
  assumes "fq_step\<^sup>*\<^sup>* (fq_new max_size priority) q"
  shows "(\<exists>xs q'. fq_next_batch n q = Some (xs, q') \<and> length xs = min (fq_total_len q) n \<and>
      (\<forall>s. fq_items q s = from_source s xs @ fq_items q' s)) \<and>
    (\<forall>c e t. fq_current_queue_key q = Some c \<longrightarrow> tbl_get (fq_queues q) c = Some e \<longrightarrow> qe_priority e \<le> fq_counter q \<longrightarrow>
      t \<noteq> c \<longrightarrow> fq_items q t \<noteq> [] \<longrightarrow> (\<exists>s x q'. fq_next q = Some (Some (s, x), q') \<and> s \<noteq> c))"
proof (intro conjI allI impI)
  have inv: "fq_inv q" by (rule fq_steps_inv [OF assms fq_inv_new(1)])
  show "\<exists>xs q'. fq_next_batch n q = Some (xs, q') \<and> length xs = min (fq_total_len q) n \<and>
      (\<forall>s. fq_items q s = from_source s xs @ fq_items q' s)"
    using fq_next_batch_correct [OF inv, of n] by blast
  fix c e t
  assume c: "fq_current_queue_key q = Some c" "tbl_get (fq_queues q) c = Some e" "qe_priority e \<le> fq_counter q"
    "t \<noteq> c" "fq_items q t \<noteq> []"
  have "fq_total_len q > 0" using waiting_total [OF inv c(5)] .
  then obtain s x q' where "fq_next q = Some (Some (s, x), q')" by (rule fq_next_correct [OF inv])
  then show "\<exists>s x q'. fq_next q = Some (Some (s, x), q') \<and> s \<noteq> c" using fq_next_fair [OF inv c] by blast
qed

text \<open>Two sources with a priority of one item.\<close>

definition sample_queue :: "(nat, nat) fair_queue" where
  "sample_queue = snd (fq_push 2 30 (snd (fq_push 1 20 (snd (fq_push 1 10 (fq_new (\<lambda>_. 4) (\<lambda>_. 1)))))))"

theorem fair_queue_correct_witness:
  "fq_step\<^sup>*\<^sup>* (fq_new (\<lambda>_. 4) (\<lambda>_. 1)) sample_queue \<and>
   (\<exists>xs q'. fq_next_batch 2 sample_queue = Some (xs, q') \<and> length xs = 2 \<and>
      [10, 20] = from_source 1 xs @ fq_items q' 1 \<and> [30] = from_source 2 xs @ fq_items q' 2)"
proof -
  have more: "fq_step\<^sup>*\<^sup>* p q \<Longrightarrow> fq_step\<^sup>*\<^sup>* p (snd (fq_push s x q))" for p q :: "(nat, nat) fair_queue" and s x
    using fq_step.push [of s x q "fst (fq_push s x q)" "snd (fq_push s x q)"] by (simp add: rtranclp.rtrancl_into_rtrancl)
  have steps: "fq_step\<^sup>*\<^sup>* (fq_new (\<lambda>_. 4) (\<lambda>_. 1)) sample_queue"
    unfolding sample_queue_def by (intro more) (rule rtranclp.rtrancl_refl)
  have "fq_total_len sample_queue = 3" "fq_items sample_queue 1 = [10, 20]" "fq_items sample_queue 2 = [30]"
    by (simp_all add: sample_queue_def fq_push_def fq_new_def fq_items_def queue_entry_push_def queue_entry_new_def Let_def)
  note at = this
  obtain xs q' where "fq_next_batch 2 sample_queue = Some (xs, q')" "length xs = min 3 2"
    "\<forall>s. fq_items sample_queue s = from_source s xs @ fq_items q' s"
    using fair_queue_correct [OF steps, of 2] unfolding at(1) by blast
  moreover from this(3) have "[10, 20] = from_source 1 xs @ fq_items q' 1" "[30] = from_source 2 xs @ fq_items q' 2"
    using at(2,3) by metis+
  ultimately show ?thesis using steps by simp
qed

end
