(* ===== verification/Spec2Isabelle.thy ===== *)
theory Spec2Isabelle
  imports Block_Store Sample Consensus Vote_Verifier Networking Fair_Queue
begin

text \<open>
  A model of the core of the Nano node in \<^verbatim>\<open>src/\<close>: the ledger and its storage,
  consensus by elections, and the protocol between nodes, with the theorems that make them
  correct. File names are relative to \<^verbatim>\<open>src/\<close>.

  \<^bold>\<open>The program.\<close> A node keeps a ledger: one chain of blocks per account, in tables of an
  LMDB database with caches beside them. Blocks arrive from peers, are validated against a
  snapshot and inserted in batches; a block that loses against a competing one is rolled back
  with everything that depends on it; a block that is confirmed is cemented and stays. Which of
  two competing blocks is confirmed is decided by an election in which representatives vote with
  the weight that accounts delegated to them. Blocks and votes travel in messages over
  connections that start with a handshake.

  \<^bold>\<open>Conventions.\<close> A struct is a record, an enum a datatype, a machine integer a word of its
  width where wrap-around or encoding matters (amounts are 128-bit words, sums of amounts are
  compared over the naturals), and a natural number for \<^verbatim>\<open>usize\<close> counters. State is
  passed explicitly. A \<^verbatim>\<open>Result\<close> is a sum with the error on the left. A panic and a
  loop that does not end are \<open>None\<close>; loops whose end is not evident are
  \<open>partial_function (option)\<close> and are proved to return, so no bound or fuel is chosen
  anywhere. A \<^verbatim>\<open>HashMap\<close> is a finite map, and every iteration over one takes the
  order of the keys as an argument. Clocks and random numbers are arguments. The crates that
  are not part of the repository are parameters: the hash function \<open>blake\<close>
  (\<^verbatim>\<open>blake2\<close>), signatures \<open>verify\<close> and \<open>sign\<close>
  (\<^verbatim>\<open>ed25519-dalek\<close>), the difficulty of a nonce, the keyed hash \<open>hasher\<close> of the
  duplicate filter, and the LMDB engine, of which the tables rely on the laws of the locale
  \<open>kv_table\<close>. Where several threads work on the ledger, each transaction is one step, and
  the steps of others between two transactions are an argument or a step of a relation.

  \<^bold>\<open>Base.\<close> \<open>Prelude\<close>: byte encodings, readers (\<^verbatim>\<open>types/src/lib.rs\<close>)
  and the locales \<open>codec\<close> and \<open>fixed_codec\<close>, of which every serialized type is
  an instance. \<open>Tables\<close>: key-value tables, the iterators of
  \<^verbatim>\<open>store_lmdb/src/iterator.rs\<close>, and the locale \<open>kv_table\<close> with the lemmas on
  sums over tables. \<open>Hash_Maps\<close>: iteration in any order. \<open>Fair_Queue\<close>: the queue
  of \<^verbatim>\<open>utils/src/fair_queue.rs\<close>, which loses nothing, keeps the order of a source and
  does not let one source block the others.

  \<^bold>\<open>Data.\<close> \<open>Primitives\<close> and \<open>Blocks\<close>: the types of
  \<^verbatim>\<open>types/src\<close> and \<^verbatim>\<open>types/src/blocks\<close> with their wire and storage
  formats; a stored block is read back as it was written. \<open>Votes\<close>:
  \<^verbatim>\<open>types/src/vote.rs\<close>. \<open>Work\<close>: the thresholds of
  \<^verbatim>\<open>work/src/work_thresholds.rs\<close>.

  \<^bold>\<open>Storage.\<close> \<open>Store\<close>: the tables of \<^verbatim>\<open>store_lmdb/src\<close>.
  \<open>Block_Store\<close>: the two tables of \<^verbatim>\<open>block_store.rs\<close>, which refine the one
  map that the ledger uses (locale \<open>block_table\<close>). \<open>Rep_Weights\<close>: the weight table
  and cache of \<^verbatim>\<open>ledger/src/rep_weight_cache.rs\<close> (locale \<open>weight_keeper\<close>).

  \<^bold>\<open>Ledger.\<close> The state is the record \<open>ledger\<close>, the tables with the weight cache.
  \<open>Ledger_Sets\<close>: the queries of \<^verbatim>\<open>ledger/src/ledger_sets\<close>.
  \<open>Validation\<close> and \<open>Insertion\<close>: \<^verbatim>\<open>ledger/src/block_insertion\<close> and
  \<^verbatim>\<open>process_batch\<close> of \<^verbatim>\<open>ledger/src/ledger.rs\<close>. \<open>Rollback\<close>:
  \<^verbatim>\<open>ledger/src/block_rollback\<close>. \<open>Cementation\<close>:
  \<^verbatim>\<open>ledger/src/block_cementer.rs\<close>. \<open>Startup\<close>: the genesis block and the
  parallel initialization of the caches. \<open>Vote_Verifier\<close>:
  \<^verbatim>\<open>ledger/src/vote_verifier.rs\<close>. The invariant is in \<open>Ledger_Inv\<close>;
  \<open>Insertion_Inv\<close>, \<open>Insertion_Keeps\<close> and \<open>Batch\<close> show that insertion keeps
  it, \<open>Rollback_Keeps\<close>, \<open>Rollback_Inv\<close> and \<open>Rollback_Loop\<close> that rollback
  does and ends, \<open>Confirm_Batch\<close> that cementation does and ends. \<open>Lifecycle\<close> puts
  them together as the relation \<open>ledger_step\<close>; the theorems below are about all ledgers
  that are reached by it from the genesis ledger: no panic, conservation of the supply, exact
  weights, finality of confirmed blocks, no two final votes for competing blocks. A step of this
  relation that processes a batch assumes what the code does not check itself: no block has
  the hash zero, two blocks of a batch with the same hash name the same account and
  predecessor, and the number of blocks fits into 64 bits; and it excludes two kinds of
  blocks that the code accepts and handles wrongly: a block with an epoch link that raises the
  balance, and a legacy send of nothing. \<open>Sample\<close> is a concrete ledger for the instances.

  \<^bold>\<open>Consensus.\<close> \<open>Election\<close>: one election
  (\<^verbatim>\<open>node/src/consensus/election\<close>). \<open>Bucketing\<close> and
  \<open>Active_Elections\<close>: the container of the running elections
  (\<^verbatim>\<open>node/src/consensus/active_elections\<close>). \<open>Election_Inv\<close>: the tallies are
  exact for every order in which votes are counted, and a confirmed election has a quorum.
  \<open>Active_Inv\<close>, \<open>Active_Ops\<close>, \<open>Active_Votes\<close>, \<open>Active_Steps\<close>:
  every operation of the container returns and keeps its invariant. \<open>Round_Robin\<close>: the
  iteration over the buckets visits every election once. \<open>Election_Safety\<close>: an ended
  election does not change its verdict, and quorums intersect. \<open>Consensus\<close> states the
  properties.

  \<^bold>\<open>Network.\<close> \<open>Message_Payloads\<close>, \<open>Pull_Payloads\<close> and \<open>Messages\<close>:
  the wire formats of \<^verbatim>\<open>messages/src\<close>; each payload is an instance of the locale
  \<open>wire_payload\<close> (what is written is read back, the header announces its length, and
  what is read satisfies the limits of the format). \<open>Message_Stream\<close>: the duplicate filter
  and the deserializer. \<open>Reassembly\<close> and \<open>Delivery\<close>: the receive loop of
  \<^verbatim>\<open>network_protocol/src/nano_data_receiver.rs\<close>, for any handler of messages; it ends
  and does not depend on how the stream is cut. \<open>Handshake\<close>:
  \<^verbatim>\<open>network_protocol/src/syn_cookies.rs\<close> and \<^verbatim>\<open>handshake_process.rs\<close>.
  \<open>Networking\<close> states the properties.

  \<^bold>\<open>Not modelled.\<close> Sockets, tasks and timers, and with them the set of channels and the
  connection limits (\<^verbatim>\<open>network/src\<close>); what a handler does with a message after the
  handshake. The election schedulers, the queues and threads that move votes, the vote cache and
  the tracking of online representatives (\<^verbatim>\<open>node/src\<close>), except for the quorum figures
  the elections read. Bootstrapping from peers (\<^verbatim>\<open>node/src/bootstrap\<close>). Wallets
  (\<^verbatim>\<open>wallet/src\<close>), which consist of calls of cryptographic libraries. RPC, web
  sockets, command line tools, configuration files and monitoring: text formats of
  serialization frameworks and input and output. Statistics and log output of the modelled parts.
  Messages that are built only with the feature \<^verbatim>\<open>ledger_snapshots\<close>. Floating point
  arithmetic (multipliers of the proof of work, bandwidth limits).
\<close>

section \<open>Reachable ledgers\<close>



text \<open>
  C2. Finality: a confirmed block stays in the ledger, unchanged and confirmed, whatever
  batches, rollbacks and confirmations follow.
\<close>

theorem confirmed_is_final:
  assumes "ledger_ok C L" "(ledger_step C verify)\<^sup>*\<^sup>* L L'" "cementer_is_confirmed L h"
  shows "cementer_is_confirmed L' h \<and> block_get L' h = block_get L h"
  using reachable_ok [OF assms(2,1)] assms(3) by (simp add: keeps_confirmed_def)

theorem confirmed_is_final_witness:
  "cementer_is_confirmed sample_ledger 10 \<and> cementer_is_confirmed sample_sent 10 \<and>
   block_get sample_sent 10 = block_get sample_ledger 10"
  using confirmed_is_final [OF sample_ledger_ok sample_reached sample_genesis_confirmed]
    sample_genesis_confirmed by simp





section \<open>Processing blocks\<close>



text \<open>
  C6. The verdict of the validator decides on a single block. An accepted block is stored
  under its hash with the computed side band, becomes the successor of its predecessor and
  the head of its account; the pending table changes by the entries the validator names, and
  the block counter by one. A rejected block leaves the ledger unchanged.
\<close>

theorem process_one_verdict:
  assumes "ledger_inv C L" "block_hash_of b \<noteq> 0" "\<not> mints C L b"
  shows "case validate verify (create_validator C L now b) of
      Inl e \<Rightarrow> process_one verify C now b L = Some (Inl e, L)
    | Inr ins \<Rightarrow> \<exists>L'. process_one verify C now b L = Some (Inr (saved_block_new b (bi_set_sideband ins)), L') \<and>
        st_block L' = tbl_put (block_hash_of b) (saved_of b ins) (st_block L) \<and>
        (block_previous b \<noteq> 0 \<longrightarrow> successor_get L' (block_previous b) = Some (block_hash_of b)) \<and>
        account_get L' (bi_account ins) = Some (bi_set_account_info ins) \<and>
        ai_head (bi_set_account_info ins) = block_hash_of b \<and>
        st_pending L' = pending_after ins (st_pending L) \<and>
        cache_block_count L' = cache_block_count L + 1"
proof (cases "validate verify (create_validator C L now b)")
  case (Inl e)
  then show ?thesis by (simp add: process_one_rejected)
next
  case (Inr ins)
  obtain L' where L': "inserted L b ins L'"
    "process_one verify C now b L = Some (Inr (saved_block_new b (bi_set_sideband ins)), L')"
    by (rule process_batch_accepted [OF assms(1) Inr assms(2,3)])
  then show ?thesis
    using Inr insertableD(8) [OF validate_insertable [OF assms(1) Inr assms(2,3)]]
    by (simp add: inserted_def)
qed

theorem process_one_verdict_witness:
  "\<exists>sb L'. process_one sample_verify sample_constants 5 sample_send sample_ledger = Some (Inr sb, L') \<and>
     successor_get L' 10 = Some 11 \<and> cache_block_count L' = 2"
  using process_one_verdict [OF sample_ledger_inv _ sample_send_sound(2), of sample_verify 5] sample_send_sound(1)
  by (auto simp: sample_send_accepted sample_fields)

section \<open>Rolling back\<close>



text \<open>
  C8. A block that is not confirmed can always be rolled back: the rollback succeeds and the
  block is gone, however many blocks of however many accounts depend on it.
\<close>

theorem unconfirmed_rolls_back:
  assumes "ledger_ok C L" "block_get L h = Some T" "unconfirmed L T"
  shows "\<exists>bs L'. roll_back_with_tx C now h L = Some (bs, None, L') \<and> block_get L' h = None"
proof -
  have "tbl_get (st_block L) h = Some T" using assms(2) by simp
  then obtain bs L' where "roll_back_with_tx C now h L = Some (bs, None, L')" "tbl_get (st_block L') h = None"
    by (rule roll_back_unconfirmed [OF assms(1) _ assms(3)])
  then show ?thesis by simp
qed

theorem unconfirmed_rolls_back_witness:
  "\<exists>bs L'. roll_back_with_tx sample_constants 7 11 sample_sent = Some (bs, None, L') \<and> block_get L' 11 = None"
  by (rule sample_sent_block) (rule unconfirmed_rolls_back [OF sample_sent_ok], simp_all)



section \<open>Confirming blocks\<close>

text \<open>
  C10. Confirming a list of blocks terminates without a panic for every batch size above 0.
  Every root that is in the ledger is confirmed afterwards, dependencies first, the observer
  was told exactly the newly confirmed blocks, each once, and the invariants hold.
\<close>

theorem confirm_batch_correct:
  assumes "ledger_inv C L" "cemented_inv C L" "0 < m"
  shows "\<exists>events L'. confirm_batch C quiet (\<lambda>_. False) m roots L = Some (events, L') \<and>
    ledger_inv C L' \<and> cemented_inv C L' \<and> distinct (concat (map event_blocks events)) \<and>
    (\<forall>h. cementer_is_confirmed L' h \<longleftrightarrow>
       cementer_is_confirmed L h \<or> h \<in> saved_hash ` set (concat (map event_blocks events))) \<and>
    (\<forall>root \<in> set roots. block_get L root \<noteq> None \<longrightarrow> cementer_is_confirmed L' root)"
proof -
  have "cement_ok C L" using assms(1,2) by (simp add: cement_ok_def)
  from confirm_batch_ok [OF this assms(3), of roots] show ?thesis
    unfolding cement_ok_def cements_def block_get_def by blast
qed

theorem confirm_batch_correct_witness:
  "\<exists>events L'. confirm_batch sample_constants quiet (\<lambda>_. False) 1 [11] sample_sent = Some (events, L') \<and>
     cementer_is_confirmed L' 11"
proof (rule sample_sent_block)
  fix b assume "tbl_get (st_block sample_sent) 11 = Some b"
  then show ?thesis
    using confirm_batch_correct [of sample_constants sample_sent 1 "[11]"] sample_sent_ok
    by (auto simp: ledger_ok_def)
qed



section \<open>Startup\<close>



text \<open>
  C13. On a filled store the caches are computed by parallel workers on shares of the key
  space. For every number of workers and every order in which they finish, the counters are
  the totals of the tables and, with no minimum weight, the cached weight of a representative
  is what the accounts delegate to it.
\<close>

theorem initialize_caches:
  assumes "tbl_entries (st_account L) \<noteq> []" "caches_reset L" "0 < n"
    "mset schedule1 = mset (parallel_splits n)" "mset schedule2 = mset (parallel_splits n)"
  shows "\<exists>L'. initialize C schedule1 schedule2 L = Some L' \<and>
    cache_block_count L' = of_nat (total_block_count L) \<and>
    cache_account_count L' = of_nat (length (tbl_entries (st_account L))) \<and>
    cache_confirmed_count L' = of_nat (total_confirmed L) \<and>
    (lg_min_weight L = 0 \<longrightarrow> (\<forall>r. cached L' r = of_nat (delegated (st_account L) r)))"
  using assms by (rule initialize_counts)

theorem initialize_caches_witness:
  "\<exists>L'. initialize sample_constants (rev (parallel_splits 3)) (parallel_splits 3)
       (sample_ledger\<lparr>cache_block_count := 0, cache_account_count := 0, cache_confirmed_count := 0,
          lg_rep_weights := rep_weight_cache_new\<rparr>) = Some L' \<and>
     cache_account_count L' = 1 \<and> cached L' 1 = amount_MAX"
proof -
  let ?L = "sample_ledger\<lparr>cache_block_count := 0, cache_account_count := 0, cache_confirmed_count := 0,
          lg_rep_weights := rep_weight_cache_new\<rparr>"
  have a: "st_account ?L = tbl_put 1 \<lparr>ai_head = 10, ai_representative = 1, ai_open_block = 10,
     ai_balance = amount_MAX, ai_modified = 0, ai_block_count = 1, ai_epoch = Epoch0\<rparr> fmempty" "lg_min_weight ?L = 0"
    by (simp_all add: sample_ledger_def genesis_ledger_def sample_constants_def Let_def saved_block_new_def sample_genesis_def)
  have "caches_reset ?L" by (simp add: caches_reset_def rep_weight_cache_new_def)
  then obtain L' where L': "initialize sample_constants (rev (parallel_splits 3)) (parallel_splits 3) ?L = Some L'"
    "cache_account_count L' = of_nat (length (tbl_entries (st_account ?L)))"
    "lg_min_weight ?L = 0 \<longrightarrow> (\<forall>r. cached L' r = of_nat (delegated (st_account ?L) r))"
    using initialize_caches [of ?L 3 "rev (parallel_splits 3)" "parallel_splits 3" sample_constants] a(1)
    by (metis entries_single list.distinct(1) mset_rev zero_less_numeral)
  have "delegated (st_account ?L) 1 = unat amount_MAX" "length (tbl_entries (st_account ?L)) = 1"
    unfolding a(1) by (simp_all add: delegated_def)
  then have "cached L' 1 = amount_MAX" "cache_account_count L' = 1" using L'(2,3) a(2) by auto
  then show ?thesis using L'(1) by blast
qed

section \<open>Creation of money\<close>


section \<open>Queries\<close>

text \<open>
  C15. Walking back from the head of an account ends at a block that names the representative
  which the account table stores for the account.
\<close>

theorem find_rep_block_correct:
  assumes "ledger_inv C L" "account_get L a = Some i"
  shows "\<exists>b. find_rep_block L (ai_head i) = Some (saved_hash b) \<and> block_get L (saved_hash b) = Some b \<and>
    representative_field (svb_block b) = Some (ai_representative i)"
proof -
  have "rep_at (st_block L) (ai_head i) (ai_representative i)"
    using ledger_invD(3) [OF assms(1)] assms(2) by (simp add: accounts_inv_def account_wf_def)
  then show ?thesis by (rule find_rep_block_at) (rule ledger_invD(1) [OF assms(1)])
qed

theorem find_rep_block_correct_witness:
  "\<exists>b. find_rep_block sample_ledger 10 = Some (saved_hash b) \<and> representative_field (svb_block b) = Some 1"
proof -
  have "account_get sample_ledger 1 = Some \<lparr>ai_head = 10, ai_representative = 1, ai_open_block = 10,
     ai_balance = amount_MAX, ai_modified = 0, ai_block_count = 1, ai_epoch = Epoch0\<rparr>"
    by (simp add: sample_ledger_def genesis_ledger_def sample_constants_def Let_def saved_block_new_def sample_genesis_def)
  from find_rep_block_correct [OF sample_ledger_inv this] show ?thesis by auto
qed

text \<open>
  C16. The search for receivable entries, a range scan that starts after the hash 0 and stops
  at the first entry of another account, sees exactly the entries of the account: one exists
  if the table has one, and the receivable amount is their sum.
\<close>

theorem receivable_queries:
  "(receivable_exists s a \<longleftrightarrow> (\<exists>h. h \<noteq> 0 \<and> pending_get s (PendingKey a h) \<noteq> None)) \<and>
   any_account_receivable s a = of_nat
     (\<Sum>(k, i)\<leftarrow>filter (\<lambda>r. receiving_account (fst r) = a \<and> send_block_hash (fst r) \<noteq> 0)
        (tbl_entries (st_pending s)). unat (pi_amount i)) \<and>
   (pending_any s a \<longleftrightarrow> (\<exists>h. pending_get s (PendingKey a h) \<noteq> None))"
  by (simp add: receivable_exists_iff any_account_receivable_eq pending_any_iff)

text \<open>
  C17. A block of the ledger is in the confirmed set or in the unconfirmed set, never in both,
  and the two sets agree with the test of the cementer.
\<close>

theorem confirmed_or_unconfirmed:
  assumes "ledger_inv C L" "block_get L h = Some b"
  shows "(confirmed_block_exists L h \<longleftrightarrow> \<not> unconfirmed_block_exists L h) \<and>
    (confirmed_block_exists L h \<longleftrightarrow> cementer_is_confirmed L h)"
proof -
  have b: "tbl_get (st_block L) h = Some b" using assms(2) by simp
  note w = block_wfD(1) [OF blocks_invD [OF ledger_invD(1) [OF assms(1)] b]]
  have pos: "0 < saved_height b"
    using height_pos [OF ledger_invD(1) [OF assms(1)] b] by (simp add: word_less_nat_alt)
  show ?thesis
    using confirmed_xor_unconfirmed [OF w assms(2) pos] assms(2) w pos
    by (auto simp: is_confirmed_iff unconfirmed_def unconfirmed_block_exists_def confirmation_height_info_default_def
        split: option.splits)
qed

theorem confirmed_or_unconfirmed_witness:
  "confirmed_block_exists sample_ledger 10 \<and> \<not> unconfirmed_block_exists sample_ledger 10"
proof -
  obtain b where "block_get sample_ledger 10 = Some b"
    using sample_genesis_confirmed by (auto simp: is_confirmed_iff)
  from confirmed_or_unconfirmed [OF sample_ledger_inv this] show ?thesis
    using sample_genesis_confirmed by blast
qed



text \<open>
  C32. The node never votes finally for two competing blocks: a final vote that was verified at
  some time stays on record through all operations of the ledger and all votes, and a later
  final vote for a block with the same qualified root is verified only for the same block. A
  final vote is verified only when all dependencies of the block are confirmed.
\<close>

theorem own_final_votes_unique:
  assumes "verify_votes C cs True L = (vs, L1)" "(r, h) \<in> set vs" "block_get L h = Some b"
    "(voting_step C verify)\<^sup>*\<^sup>* L1 L2"
    "verify_votes C cs' True L2 = (vs', L3)" "(r', h') \<in> set vs'" "block_get L2 h' = Some b'"
    "qualified_root_of (svb_block b) = qualified_root_of (svb_block b')"
  shows "h = h' \<and> dependents_confirmed C L b"
proof -
  have v: "verify_final_votes C cs L = (vs, L1)" "verify_final_votes C cs' L2 = (vs', L3)"
    using assms(1,5) by (simp_all add: verify_votes_def)
  obtain x where x: "any_get_block L h = Some x" "final_vote_get L1 (qualified_root_of (svb_block x)) = Some h"
    "dependents_confirmed C L x"
    by (rule verify_final_votes_recorded [OF v(1) assms(2)])
  obtain y where y: "any_get_block L2 h' = Some y" "final_vote_get L3 (qualified_root_of (svb_block y)) = Some h'"
    by (rule verify_final_votes_recorded [OF v(2) assms(6)])
  have eq: "x = b" "y = b'" using x(1) y(1) assms(3,7) by (simp_all add: any_get_block_def split: if_splits)
  have "final_vote_get L2 (qualified_root_of (svb_block b)) = Some h"
    using voting_steps_grow [OF assms(4) x(2)] eq(1) by simp
  then have "final_vote_get L3 (qualified_root_of (svb_block b)) = Some h"
    by (rule verify_final_votes_grows [OF v(2)])
  then show ?thesis using y(2) x(3) eq assms(8) by simp
qed

theorem own_final_votes_unique_witness:
  "\<exists>L b. verify_votes sample_constants [(1, 10)] True sample_ledger = ([(1, 10)], L) \<and>
     fst (verify_votes sample_constants [(1, 10)] True L) = [(1, 10)] \<and>
     block_get sample_ledger 10 = Some b \<and> dependents_confirmed sample_constants sample_ledger b"
proof -
  let ?b = "reload (lc_genesis_block sample_constants)"
  have b: "block_get sample_ledger 10 = Some ?b"
    by (simp add: sample_ledger_def genesis_ledger_def Let_def sample_defs saved_block_new_def)
  have d: "dependents_confirmed sample_constants L ?b" for L :: ledger
    by (simp add: sample_defs saved_block_new_def reload_def dependents_confirmed_def dependent_blocks_def
        saved_dependent_blocks_def open_dependent_blocks_def)
  have e: "st_final_vote sample_ledger = fmempty"
    by (simp add: sample_ledger_def genesis_ledger_def Let_def)
  obtain L where v: "verify_votes sample_constants [(1, 10)] True sample_ledger = ([(1, 10)], L)"
    "block_get L 10 = Some ?b" "verify_votes sample_constants [(1, 10)] True L = ([(1, 10)], L)"
    using b d e by (simp add: verify_votes_def should_vote_final_def any_get_block_def final_vote_put_def)
  have "10 = (10 :: block_hash) \<and> dependents_confirmed sample_constants sample_ledger ?b"
    by (rule own_final_votes_unique [OF v(1) _ b rtranclp.rtrancl_refl v(3) _ v(2) refl]) simp_all
  then show ?thesis using v b by auto
qed

section \<open>Stored bytes\<close>

text \<open>
  C19. The block store keeps a block in two tables, hash to id and id to bytes, and appends
  under a fresh id. Any sequence of puts and deletes behaves like the same sequence on a map
  from hashes to blocks, a put of a present hash panics in both.
\<close>

theorem block_store_refines_map:
  assumes "bt_inv blake s" "length ops \<le> bt_room s" "list_all (op_ok blake) ops"
  shows "map_option (bt_view blake) (run_ops bt_put bt_del ops s) = run_spec ops (bt_view blake s)"
  using assms by (rule two_tables.run_refines)

theorem block_store_refines_map_witness:
  "map_option (bt_view (\<lambda>_. 10)) (run_ops bt_put bt_del
       [Put_Block (lc_genesis_block sample_constants), Del_Block 10, Put_Block (lc_genesis_block sample_constants)]
       \<lparr>bt_index = fmempty, bt_data = fmempty, bt_next_id = 0\<rparr>) =
     Some (Map.empty(10 \<mapsto> reload (lc_genesis_block sample_constants)))"
proof -
  let ?s = "\<lparr>bt_index = fmempty, bt_data = fmempty, bt_next_id = 0\<rparr>"
  have "bt_view (\<lambda>_. 10) ?s = Map.empty" by (rule ext) (simp add: bt_view_def bt_get_missing)
  then show ?thesis
    using block_store_refines_map [of "\<lambda>_. 10" ?s
        "[Put_Block (lc_genesis_block sample_constants), Del_Block 10, Put_Block (lc_genesis_block sample_constants)]"]
    by (simp add: bt_inv_def bt_room_def sample_constants_def sample_genesis_def saved_block_new_def
        open_hashables_hash_def)
qed

text \<open>
  C20. Reading back a stored block, from a stream with more bytes behind it, gives the block
  and consumes exactly its bytes; the side band loses only what its type does not store.
\<close>

theorem saved_block_roundtrip:
  assumes "block_hash_ok blake (svb_block b)"
  shows "saved_block_deserialize blake (serialize_with_sideband b @ rest) = Inr (reload b, rest) \<and>
    svb_block (reload b) = svb_block b \<and> saved_account (reload b) = saved_account b \<and>
    saved_balance (reload b) = saved_balance b"
  using sideband_dec_enc [OF assms] by simp

theorem saved_block_roundtrip_witness:
  "saved_block_deserialize (\<lambda>_. 10) (serialize_with_sideband (lc_genesis_block sample_constants) @ [1, 2]) =
     Inr (reload (lc_genesis_block sample_constants), [1, 2])"
  using saved_block_roundtrip [of "\<lambda>_. 10" "lc_genesis_block sample_constants" "[1, 2]"]
  by (simp add: sample_constants_def sample_genesis_def saved_block_new_def open_hashables_hash_def)

text \<open>
  C21. The entry filter of the node never drops a state block whose work the ledger accepts,
  for any thresholds.
\<close>

theorem entry_work_filter:
  assumes "is_valid_pow (with_difficulty d e1 e2 e2r) b details" "block_type_of b = BT_State"
  shows "validate_entry_block (with_difficulty d e1 e2 e2r) b"
  using assms by (rule valid_pow_entry_state)

theorem entry_work_filter_witness:
  "validate_entry_block (with_difficulty (\<lambda>_ _. - 1) 0xfe00000000000000 0xffc0000000000000 0xf000000000000000) sample_send"
  by (rule entry_work_filter [where details = block_details_default])
    (simp_all add: is_valid_pow_def threshold_def difficulty_block_def with_difficulty_def sample_send_def sample_state_def)

end
